(* ===== verification/Go_Prelude.thy ===== *)
theory Go_Prelude
  imports Main "HOL-Library.Char_ord" "HOL-Library.List_Lexorder" "HOL-Library.Word"
begin

text \<open>
  The shared prelude of the development. It holds what every component needs of the Go
  language and of its standard library:
  \<^item> the effect type of a Go function (state passing, run-time panics, loops that may never
    return) with its sequencing combinator and the weakest-precondition calculus that the
    component proofs use;
  \<^item> zero-value reads of maps, decimal printing and parsing (\<^verbatim>\<open>strconv.Itoa\<close>,
    \<^verbatim>\<open>strconv.Atoi\<close>) and case mapping (\<^verbatim>\<open>strings.ToLower\<close>, \<^verbatim>\<open>strings.ToUpper\<close>).
  Strings are byte strings, as in Go, so \<^typ>\<open>string\<close> (a list of 8-bit characters) models them
  exactly; the order on them is the bytewise lexicographic order of \<^verbatim>\<open>Char_ord\<close> and
  \<^verbatim>\<open>List_Lexorder\<close>, which is Go's \<^verbatim>\<open><\<close> on strings.
\<close>

section \<open>Collections of facts\<close>

named_theorems go_wp \<open>weakest preconditions of the primitive computations\<close>
named_theorems go_frame \<open>computations that leave a part of the state alone\<close>
named_theorems go_keeps \<open>computations that keep an invariant\<close>

section \<open>Go computations\<close>

text \<open>
  The run-time panics that the modelled code can raise.
\<close>

datatype panic = NilDereference | IndexOutOfRange | Int63nArgument | FatalExit | TypeAssertion

datatype 'a outcome = Val 'a | Panic panic

text \<open>
  A Go function body over a state: \<^term>\<open>None\<close> is "never returns", \<^term>\<open>Panic\<close> unwinds the
  callers. Error returns are ordinary values of a sum type, because the Go code inspects them.
\<close>

type_synonym ('s, 'a) go = "'s \<Rightarrow> ('a outcome \<times> 's) option"

definition go_ret :: "'a \<Rightarrow> ('s, 'a) go" where
  "go_ret a = (\<lambda>s. Some (Val a, s))"

definition go_panic :: "panic \<Rightarrow> ('s, 'a) go" where
  "go_panic p = (\<lambda>s. Some (Panic p, s))"

definition go_bind :: "('s, 'a) go \<Rightarrow> ('a \<Rightarrow> ('s, 'b) go) \<Rightarrow> ('s, 'b) go" where
  "go_bind m f = (\<lambda>s. case m s of
       None \<Rightarrow> None
     | Some (r, s') \<Rightarrow> (case r of Val a \<Rightarrow> f a s' | Panic p \<Rightarrow> Some (Panic p, s')))"

definition go_read :: "('s \<Rightarrow> 'a) \<Rightarrow> ('s, 'a) go" where
  "go_read g = (\<lambda>s. Some (Val (g s), s))"

definition go_modify :: "('s \<Rightarrow> 's) \<Rightarrow> ('s, unit) go" where
  "go_modify g = (\<lambda>s. Some (Val (), g s))"

text \<open>A statement whose result the code discards.\<close>

definition go_then :: "('s, 'a) go \<Rightarrow> ('s, 'b) go \<Rightarrow> ('s, 'b) go" where
  "go_then m k = go_bind m (\<lambda>_. k)"

text \<open>\<^verbatim>\<open>defer\<close>: the state change happens on every return, and on a panic too.\<close>

definition go_defer :: "('s \<Rightarrow> 's) \<Rightarrow> ('s, 'a) go \<Rightarrow> ('s, 'a) go" where
  "go_defer h m = (\<lambda>s. case m s of None \<Rightarrow> None | Some (r, s') \<Rightarrow> Some (r, h s'))"

lemma go_simps [simp]:
  "go_ret a s = Some (Val a, s)"
  "go_panic p s = Some (Panic p, s)"
  "go_read g s = Some (Val (g s), s)"
  "go_modify h s = Some (Val (), h s)"
  by (simp_all add: go_ret_def go_panic_def go_read_def go_modify_def)

lemma go_bind_Some:
  "m s = Some (Val a, s') \<Longrightarrow> go_bind m f s = f a s'"
  "m s = Some (Panic p, s') \<Longrightarrow> go_bind m f s = Some (Panic p, s')"
  "m s = None \<Longrightarrow> go_bind m f s = None"
  by (simp_all add: go_bind_def)

lemma go_bind_prim [simp]:
  "go_bind (go_ret a) f s = f a s"
  "go_bind (go_panic p) f s = Some (Panic p, s)"
  "go_bind (go_read g) f s = f (g s) s"
  "go_bind (go_modify h) k s = k () (h s)"
  by (simp_all add: go_bind_def)

lemma go_bind_assoc: "go_bind (go_bind m f) g = go_bind m (\<lambda>a. go_bind (f a) g)"
  by (auto simp: go_bind_def fun_eq_iff split: option.splits outcome.splits)

text \<open>Recursive loops may occur under \<^const>\<open>go_bind\<close>.\<close>

lemma go_bind_mono [partial_function_mono]:
  assumes "\<And>s. mono_option (\<lambda>f. B f s)" and "\<And>y s. mono_option (\<lambda>f. C y f s)"
  shows "mono_option (\<lambda>f. go_bind (B f) (\<lambda>y. C y f) s)"
proof -
  have eq: "go_bind (B f) (\<lambda>y. C y f) s = Option.bind (B f s) (\<lambda>p.
      case fst p of Val a \<Rightarrow> C a f (snd p) | Panic q \<Rightarrow> Some (Panic q, snd p))" for f
    by (auto simp: go_bind_def split: option.split outcome.split prod.split)
  have "mono_option (\<lambda>f. case fst p of Val a \<Rightarrow> C a f (snd p) | Panic q \<Rightarrow> Some (Panic q, snd p))" for p
    by (cases "fst p") (auto intro: assms(2) option.const_mono)
  then show ?thesis
    unfolding eq by (intro bind_mono assms(1))
qed

subsection \<open>Weakest preconditions\<close>

text \<open>
  \<open>wp m Q s\<close>: if \<open>m\<close> returns (or panics) from \<open>s\<close>, the outcome and the final state satisfy
  \<open>Q\<close>. The total version \<open>wpt\<close> adds that \<open>m\<close> does return.
\<close>

definition wp :: "('s, 'a) go \<Rightarrow> ('a outcome \<Rightarrow> 's \<Rightarrow> bool) \<Rightarrow> 's \<Rightarrow> bool" where
  "wp m Q s = (case m s of None \<Rightarrow> True | Some (r, s') \<Rightarrow> Q r s')"

definition wpt :: "('s, 'a) go \<Rightarrow> ('a outcome \<Rightarrow> 's \<Rightarrow> bool) \<Rightarrow> 's \<Rightarrow> bool" where
  "wpt m Q s = (case m s of None \<Rightarrow> False | Some (r, s') \<Rightarrow> Q r s')"

lemma wp_prim [go_wp]:
  "wp (go_ret a) Q s = Q (Val a) s"
  "wp (go_panic p) Q s = Q (Panic p) s"
  "wp (go_read g) R s = R (Val (g s)) s"
  "wp (go_modify h) U s = U (Val ()) (h s)"
  by (simp_all add: wp_def)

lemma wp_bind [go_wp]:
  "wp (go_bind m f) Q s =
     wp m (\<lambda>r s'. case r of Val a \<Rightarrow> wp (f a) Q s' | Panic p \<Rightarrow> Q (Panic p) s') s"
  by (auto simp: wp_def go_bind_def split: option.splits outcome.splits)

lemma wp_then [go_wp]:
  "wp (go_then m k) Q s =
     wp m (\<lambda>r s'. case r of Val a \<Rightarrow> wp k Q s' | Panic p \<Rightarrow> Q (Panic p) s') s"
  by (simp add: go_then_def wp_bind)

lemma wp_defer [go_wp]: "wp (go_defer h m) Q s = wp m (\<lambda>r s'. Q r (h s')) s"
  by (simp add: wp_def go_defer_def split: option.split prod.split)

lemma wp_True [simp]: "wp m (\<lambda>_ _. True) s"
  by (simp add: wp_def split: option.split)

lemma wp_if [go_wp]: "wp (if b then m else k) Q s = (if b then wp m Q s else wp k Q s)"
  by simp

lemma wp_case_option [go_wp]:
  "wp (case x of None \<Rightarrow> m | Some v \<Rightarrow> k v) Q s =
     (case x of None \<Rightarrow> wp m Q s | Some v \<Rightarrow> wp (k v) Q s)"
  by (simp split: option.split)

lemma wp_case_sum [go_wp]:
  "wp (case x of Inl l \<Rightarrow> m l | Inr r \<Rightarrow> k r) Q s =
     (case x of Inl l \<Rightarrow> wp (m l) Q s | Inr r \<Rightarrow> wp (k r) Q s)"
  by (simp split: sum.split)

lemma wpD: "wp m Q s \<Longrightarrow> m s = Some (r, s') \<Longrightarrow> Q r s'"
  by (simp add: wp_def)

lemma wpI: "(\<And>r s'. m s = Some (r, s') \<Longrightarrow> Q r s') \<Longrightarrow> wp m Q s"
  by (auto simp: wp_def split: option.split)

lemma wp_conseq: "wp m Q s \<Longrightarrow> (\<And>r s'. Q r s' \<Longrightarrow> R r s') \<Longrightarrow> wp m R s"
  by (auto simp: wp_def split: option.splits)

lemma wp_conj: "wp m Q s \<Longrightarrow> wp m R s \<Longrightarrow> wp m (\<lambda>r s'. Q r s' \<and> R r s') s"
  by (auto simp: wp_def split: option.splits)

lemma wpt_iff: "wpt m Q s \<longleftrightarrow> (\<exists>r s'. m s = Some (r, s') \<and> Q r s')"
  by (auto simp: wpt_def split: option.splits)

subsection \<open>Frames\<close>

text \<open>A computation preserves a view \<open>g\<close> of the state if no run of it changes that view.\<close>

definition preserves :: "('s \<Rightarrow> 'v) \<Rightarrow> ('s, 'a) go \<Rightarrow> bool" where
  "preserves g m \<longleftrightarrow> (\<forall>s r s'. m s = Some (r, s') \<longrightarrow> g s' = g s)"

lemma preservesI: "(\<And>s r s'. m s = Some (r, s') \<Longrightarrow> g s' = g s) \<Longrightarrow> preserves g m"
  by (auto simp: preserves_def)

lemma preservesD: "preserves g m \<Longrightarrow> m s = Some (r, s') \<Longrightarrow> g s' = g s"
  by (auto simp: preserves_def)

lemma wp_frameI:
  "preserves g m \<Longrightarrow> (\<And>r s'. g s' = g s \<Longrightarrow> Q r s') \<Longrightarrow> wp m Q s"
  by (auto simp: wp_def preserves_def split: option.splits)

lemma preserves_wp: "preserves g m \<longleftrightarrow> (\<forall>s. wp m (\<lambda>_ s'. g s' = g s) s)"
  by (auto simp: preserves_def wp_def split: option.splits)

lemma preserves_prim [go_frame]:
  "preserves g (go_ret a)" "preserves g (go_panic p)" "preserves g (go_read h)"
  by (auto simp: preserves_def)

lemma preserves_bind [go_frame]:
  "preserves g m \<Longrightarrow> (\<And>a. preserves g (f a)) \<Longrightarrow> preserves g (go_bind m f)"
  unfolding preserves_def go_bind_def
  by (fastforce split: option.splits outcome.splits)

lemma preserves_then [go_frame]:
  "preserves g m \<Longrightarrow> preserves g k \<Longrightarrow> preserves g (go_then m k)"
  by (simp add: go_then_def preserves_bind)

lemma preserves_defer [go_frame]:
  "preserves g m \<Longrightarrow> (\<And>s. g (h s) = g s) \<Longrightarrow> preserves g (go_defer h m)"
  by (auto simp: preserves_def go_defer_def split: option.splits)

lemma preserves_if [go_frame]:
  "(b \<Longrightarrow> preserves g m) \<Longrightarrow> (\<not> b \<Longrightarrow> preserves g k) \<Longrightarrow> preserves g (if b then m else k)"
  by simp

lemma preserves_case_option [go_frame]:
  "(x = None \<Longrightarrow> preserves g m) \<Longrightarrow> (\<And>v. x = Some v \<Longrightarrow> preserves g (k v)) \<Longrightarrow>
   preserves g (case x of None \<Rightarrow> m | Some v \<Rightarrow> k v)"
  by (cases x) simp_all

lemma preserves_case_sum [go_frame]:
  "(\<And>l. x = Inl l \<Longrightarrow> preserves g (m l)) \<Longrightarrow> (\<And>r. x = Inr r \<Longrightarrow> preserves g (k r)) \<Longrightarrow>
   preserves g (case x of Inl l \<Rightarrow> m l | Inr r \<Rightarrow> k r)"
  by (cases x) simp_all

subsection \<open>Invariants\<close>

text \<open>A computation keeps \<open>I\<close> if it leads from states with \<open>I\<close> only to states with \<open>I\<close>.\<close>

definition keeps :: "('s \<Rightarrow> bool) \<Rightarrow> ('s, 'a) go \<Rightarrow> bool" where
  "keeps I m \<longleftrightarrow> (\<forall>s r s'. I s \<longrightarrow> m s = Some (r, s') \<longrightarrow> I s')"

lemma keepsD: "keeps I m \<Longrightarrow> I s \<Longrightarrow> m s = Some (r, s') \<Longrightarrow> I s'"
  by (auto simp: keeps_def)

lemma keeps_prim [go_keeps]: "keeps I (go_ret a)" "keeps I (go_panic p)" "keeps I (go_read g)"
  by (auto simp: keeps_def)

lemma keeps_bind [go_keeps]: "keeps I m \<Longrightarrow> (\<And>a. keeps I (f a)) \<Longrightarrow> keeps I (go_bind m f)"
proof -
  assume m: "keeps I m" and f: "\<And>a. keeps I (f a)"
  have "I s'" if I: "I s" and run: "go_bind m f s = Some (r, s')" for s r s'
  proof -
    obtain r1 s1 where m1: "m s = Some (r1, s1)" using run by (auto simp: go_bind_def split: option.splits)
    then have I1: "I s1" using keepsD [OF m I] by blast
    show ?thesis
    proof (cases r1)
      case (Val a)
      with run m1 show ?thesis using keepsD [OF f I1] by (simp add: go_bind_Some)
    next
      case (Panic p)
      with run m1 I1 show ?thesis by (simp add: go_bind_Some)
    qed
  qed
  then show ?thesis unfolding keeps_def by blast
qed

lemma keeps_then [go_keeps]: "keeps I m \<Longrightarrow> keeps I k \<Longrightarrow> keeps I (go_then m k)"
  unfolding go_then_def by (rule keeps_bind)

lemma keeps_modify [go_keeps]: "(\<And>s. I s \<Longrightarrow> I (h s)) \<Longrightarrow> keeps I (go_modify h)"
  by (auto simp: keeps_def)

lemma keeps_defer [go_keeps]: "keeps I m \<Longrightarrow> (\<And>s. I s \<Longrightarrow> I (h s)) \<Longrightarrow> keeps I (go_defer h m)"
  by (auto simp: keeps_def go_defer_def split: option.splits)

lemma keeps_if [go_keeps]:
  "(b \<Longrightarrow> keeps I m) \<Longrightarrow> (\<not> b \<Longrightarrow> keeps I k) \<Longrightarrow> keeps I (if b then m else k)"
  by simp

lemma keeps_case_option [go_keeps]:
  "(x = None \<Longrightarrow> keeps I m) \<Longrightarrow> (\<And>v. x = Some v \<Longrightarrow> keeps I (k v)) \<Longrightarrow>
   keeps I (case x of None \<Rightarrow> m | Some v \<Rightarrow> k v)"
  by (cases x) simp_all

lemma keeps_case_sum [go_keeps]:
  "(\<And>l. x = Inl l \<Longrightarrow> keeps I (m l)) \<Longrightarrow> (\<And>r. x = Inr r \<Longrightarrow> keeps I (k r)) \<Longrightarrow>
   keeps I (case x of Inl l \<Rightarrow> m l | Inr r \<Rightarrow> k r)"
  by (cases x) simp_all

lemma keeps_wp: "keeps I m \<longleftrightarrow> (\<forall>s. I s \<longrightarrow> wp m (\<lambda>_ s'. I s') s)"
  by (auto simp: keeps_def wp_def split: option.splits)

lemma wp_keepsI: "keeps I m \<Longrightarrow> I s \<Longrightarrow> (\<And>r s'. I s' \<Longrightarrow> Q r s') \<Longrightarrow> wp m Q s"
  by (auto simp: keeps_wp intro: wp_conseq)

lemma preserves_keeps: "preserves g m \<Longrightarrow> (\<And>s s'. g s' = g s \<Longrightarrow> I s \<Longrightarrow> I s') \<Longrightarrow> keeps I m"
  unfolding keeps_def preserves_def by blast

section \<open>Maps with zero values\<close>

text \<open>\<^verbatim>\<open>m[k]\<close> on a Go \<^verbatim>\<open>map[string]string\<close>: the empty string when the key is absent.\<close>

definition mget :: "(string \<rightharpoonup> string) \<Rightarrow> string \<Rightarrow> string" where
  "mget m k = (case m k of None \<Rightarrow> '''' | Some v \<Rightarrow> v)"

lemma mget_upd [simp]:
  "mget (m(k \<mapsto> v)) k = v"
  "k \<noteq> k' \<Longrightarrow> mget (m(k \<mapsto> v)) k' = mget m k'"
  by (simp_all add: mget_def)

lemma mget_empty [simp]: "mget Map.empty k = ''''"
  by (simp add: mget_def)

section \<open>Decimal numbers\<close>

definition digit :: "nat \<Rightarrow> char" where
  "digit n = char_of (48 + n)"

fun nat_dec :: "nat \<Rightarrow> string" where
  "nat_dec n = (if n < 10 then [digit n] else nat_dec (n div 10) @ [digit (n mod 10)])"

declare nat_dec.simps [simp del]

definition itoa :: "int \<Rightarrow> string" where
  "itoa i = (if i < 0 then CHR ''-'' # nat_dec (nat (- i)) else nat_dec (nat i))"

definition is_digit :: "char \<Rightarrow> bool" where
  "is_digit c \<longleftrightarrow> 48 \<le> (of_char c :: nat) \<and> (of_char c :: nat) \<le> 57"

definition digit_val :: "char \<Rightarrow> nat" where
  "digit_val c = of_char c - 48"

definition dec_val :: "string \<Rightarrow> nat" where
  "dec_val s = foldl (\<lambda>a c. 10 * a + digit_val c) 0 s"

text \<open>
  \<^verbatim>\<open>strconv.Atoi\<close> on a 64-bit platform: an optional sign, at least one digit, nothing else, and
  the value within the range of \<^verbatim>\<open>int\<close>.
\<close>

definition atoi :: "string \<Rightarrow> int option" where
  "atoi s =
     (let neg = (s \<noteq> [] \<and> hd s = CHR ''-'');
          ds = (if s \<noteq> [] \<and> (hd s = CHR ''-'' \<or> hd s = CHR ''+'') then tl s else s);
          v = (if neg then - int (dec_val ds) else int (dec_val ds))
      in if ds = [] \<or> \<not> list_all is_digit ds then None
         else if v < - (2 ^ 63) \<or> 2 ^ 63 \<le> v then None
         else Some v)"

lemma of_char_digit: "n < 10 \<Longrightarrow> of_char (digit n) = (48 + n :: nat)"
  by (simp add: digit_def)

lemma is_digit_digit [simp]: "n < 10 \<Longrightarrow> is_digit (digit n)"
  by (simp add: is_digit_def of_char_digit)

lemma digit_val_digit [simp]: "n < 10 \<Longrightarrow> digit_val (digit n) = n"
  by (simp add: digit_val_def of_char_digit)

lemma nat_dec_nonempty [simp]: "nat_dec n \<noteq> []"
  by (subst nat_dec.simps) simp

lemma nat_dec_digits: "list_all is_digit (nat_dec n)"
proof (induction n rule: nat_dec.induct)
  case (1 n)
  then show ?case by (subst nat_dec.simps) simp
qed

lemma dec_val_snoc: "dec_val (s @ [c]) = 10 * dec_val s + digit_val c"
  by (simp add: dec_val_def)

lemma dec_val_nat_dec [simp]: "dec_val (nat_dec n) = n"
proof (induction n rule: nat_dec.induct)
  case (1 n)
  show ?case
  proof (cases "n < 10")
    case True
    then show ?thesis by (subst nat_dec.simps) (simp add: dec_val_def)
  next
    case False
    with 1 have "dec_val (nat_dec (n div 10)) = n div 10" by simp
    with False show ?thesis by (subst nat_dec.simps) (simp add: dec_val_snoc)
  qed
qed

lemma nat_dec_inject [simp]: "nat_dec m = nat_dec n \<longleftrightarrow> m = n"
  by (metis dec_val_nat_dec)

lemma not_digit_signs [simp]: "\<not> is_digit CHR ''-''" "\<not> is_digit CHR ''+''" "\<not> is_digit CHR '':''"
  by (simp_all add: is_digit_def)

lemma nat_dec_no: "\<not> is_digit c \<Longrightarrow> c \<notin> set (nat_dec n)"
  using nat_dec_digits [of n] by (auto simp: list_all_iff)

lemma hd_nat_dec: "is_digit (hd (nat_dec n))"
  using nat_dec_digits [of n] by (cases "nat_dec n") simp_all

lemma itoa_inject [simp]: "itoa i = itoa j \<longleftrightarrow> i = j"
proof -
  have "nat_dec n \<noteq> CHR ''-'' # t" for n t
    using hd_nat_dec [of n] by auto
  then show ?thesis by (auto simp: itoa_def split: if_splits) metis
qed

lemma itoa_no_colon [simp]: "CHR '':'' \<notin> set (itoa i)"
  by (simp add: itoa_def nat_dec_no)

lemma atoi_itoa: "- (2 ^ 63) \<le> i \<Longrightarrow> i < 2 ^ 63 \<Longrightarrow> atoi (itoa i) = Some i"
proof (cases "i < 0")
  case True
  moreover assume "- (2 ^ 63) \<le> i" "i < 2 ^ 63"
  ultimately show ?thesis by (simp add: atoi_def itoa_def nat_dec_digits)
next
  case False
  moreover have "hd (nat_dec n) \<noteq> CHR ''-''" "hd (nat_dec n) \<noteq> CHR ''+''" for n
    using hd_nat_dec [of n] by auto
  moreover assume "- (2 ^ 63) \<le> i" "i < 2 ^ 63"
  ultimately show ?thesis by (simp add: atoi_def itoa_def nat_dec_digits)
qed

section \<open>Durations\<close>

text \<open>
  A \<^verbatim>\<open>time.Duration\<close> is a signed 64-bit count of nanoseconds; multiplying a number of seconds
  by \<^verbatim>\<open>time.Second\<close> wraps. \<^verbatim>\<open>Duration.String\<close> prints it.
\<close>

definition int64 :: "int \<Rightarrow> int" where
  "int64 i = sint (word_of_int i :: 64 word)"

definition seconds :: "int \<Rightarrow> int" where
  "seconds n = int64 (n * 1000000000)"

definition frac_text :: "nat \<Rightarrow> nat \<Rightarrow> string" where
  "frac_text u prec =
     (let ds = nat_dec (u mod 10 ^ prec);
          full = replicate (prec - length ds) (digit 0) @ ds;
          kept = rev (dropWhile ((=) (digit 0)) (rev full))
      in if prec = 0 \<or> kept = [] then '''' else ''.'' @ kept)"

definition dur_String :: "int \<Rightarrow> string" where
  "dur_String d =
     (let u = nat \<bar>d\<bar>;
          body = (if u = 0 then ''0s''
            else if u < 1000 then nat_dec u @ ''ns''
            else if u < 1000000 then
              nat_dec (u div 1000) @ frac_text u 3 @ [char_of (0xC2 :: nat), char_of (0xB5 :: nat)] @ ''s''
            else if u < 1000000000 then nat_dec (u div 1000000) @ frac_text u 6 @ ''ms''
            else let secs = u div 1000000000; mins = secs div 60; hours = mins div 60
                 in (if mins > 0 then
                       (if hours > 0 then nat_dec hours @ ''h'' else '''') @ nat_dec (mins mod 60) @ ''m''
                     else '''') @ nat_dec (secs mod 60) @ frac_text u 9 @ ''s'')
      in if d < 0 then CHR ''-'' # body else body)"

lemma int64_id: "- (2 ^ 63) \<le> i \<Longrightarrow> i < 2 ^ 63 \<Longrightarrow> int64 i = i"
  by (simp add: int64_def sint_sbintrunc' signed_take_bit_int_eq_self)

section \<open>Case mapping\<close>

definition char_lower :: "char \<Rightarrow> char" where
  "char_lower c = (let n = (of_char c :: nat) in if 65 \<le> n \<and> n \<le> 90 then char_of (n + 32) else c)"

definition char_upper :: "char \<Rightarrow> char" where
  "char_upper c = (let n = (of_char c :: nat) in if 97 \<le> n \<and> n \<le> 122 then char_of (n - 32) else c)"

text \<open>
  The results are only compared with ASCII texts. Beside the ASCII letters, four code points map
  to an ASCII letter: U+0130 and U+212A to lower case, U+0131 and U+017F to upper case. All other
  multi-byte sequences stay outside ASCII, and copying them does not change a comparison.
\<close>

fun to_lower :: "string \<Rightarrow> string" where
  "to_lower [] = []"
| "to_lower (c # cs) =
     (if c = CHR 0xC4 \<and> take 1 cs = [CHR 0xB0] then CHR ''i'' # to_lower (drop 1 cs)
      else if c = CHR 0xE2 \<and> take 2 cs = [CHR 0x84, CHR 0xAA] then CHR ''k'' # to_lower (drop 2 cs)
      else char_lower c # to_lower cs)"

fun to_upper :: "string \<Rightarrow> string" where
  "to_upper [] = []"
| "to_upper (c # cs) =
     (if c = CHR 0xC4 \<and> take 1 cs = [CHR 0xB1] then CHR ''I'' # to_upper (drop 1 cs)
      else if c = CHR 0xC5 \<and> take 1 cs = [CHR 0xBF] then CHR ''S'' # to_upper (drop 1 cs)
      else char_upper c # to_upper cs)"

lemma to_lower_eq_Nil [simp]: "to_lower s = '''' \<longleftrightarrow> s = ''''"
  by (cases s) simp_all

section \<open>Separated keys\<close>

text \<open>
  Keys of the form \<open>a ++ sep ++ b\<close> determine \<open>a\<close> and \<open>b\<close> when \<open>b\<close> is free of the separator.
\<close>

lemma sep_key_inject:
  assumes "a @ c # b = a' @ c # b'" "c \<notin> set b" "c \<notin> set b'"
  shows "a = a' \<and> b = b'"
proof -
  have "takeWhile ((\<noteq>) c) (rev (a @ c # b)) = rev b" if "c \<notin> set b" for a b
    using that by (auto simp: takeWhile_tail)
  then have "rev b = rev b'" using assms by metis
  with assms show ?thesis by simp
qed

end
