(* ===== verification/Net_IP.thy ===== *)
theory Net_IP
  imports Go_Prelude
begin

text \<open>
  IP addresses as the provider sees them: \<^verbatim>\<open>net.ParseIP\<close> of the Go standard library (which
  delegates to \<^verbatim>\<open>netip.ParseAddr\<close>), the classification methods of \<^verbatim>\<open>net.IP\<close> and the filter
  \<^verbatim>\<open>isUsableNodeIP\<close> of \<^verbatim>\<open>pkg/provider/instances_v2.go\<close>. An address is the list of its 16
  bytes, an IPv4 address in its IPv4-mapped form, as \<^verbatim>\<open>ParseIP\<close> returns it.
\<close>

unbundle bit_operations_syntax

section \<open>Parsing\<close>

text \<open>
  \<^verbatim>\<open>parseIPv4Fields\<close>: the value of the current field, the number of its digits and the fields
  already completed are the loop state.
\<close>

fun parseIPv4Fields :: "string \<Rightarrow> nat \<Rightarrow> nat \<Rightarrow> nat list \<Rightarrow> nat list option" where
  "parseIPv4Fields [] val digLen fs = (if length fs < 3 then None else Some (fs @ [val]))"
| "parseIPv4Fields (c # cs) val digLen fs =
     (if is_digit c then
        (if digLen = 1 \<and> val = 0 then None
         else let v = val * 10 + digit_val c
              in if 255 < v then None else parseIPv4Fields cs v (Suc digLen) fs)
      else if c = CHR ''.'' then
        (if digLen = 0 \<or> cs = [] then None
         else if length fs = 3 then None
         else parseIPv4Fields cs 0 0 (fs @ [val]))
      else None)"

definition is_hex :: "char \<Rightarrow> bool" where
  "is_hex c \<longleftrightarrow> is_digit c
     \<or> (97 \<le> (of_char c :: nat) \<and> (of_char c :: nat) \<le> 102)
     \<or> (65 \<le> (of_char c :: nat) \<and> (of_char c :: nat) \<le> 70)"

definition hex_digit_val :: "char \<Rightarrow> nat" where
  "hex_digit_val c = (if is_digit c then digit_val c
     else if 97 \<le> (of_char c :: nat) then of_char c - 87 else of_char c - 55)"

definition hex_val :: "string \<Rightarrow> nat" where
  "hex_val s = foldl (\<lambda>a c. 16 * a + hex_digit_val c) 0 s"

text \<open>
  The group loop of \<^verbatim>\<open>parseIPv6\<close>: the rest of the text, the bytes stored so far and the byte
  position of the ellipsis. The loop runs while fewer than 16 bytes are stored.
\<close>

function parseIPv6Loop :: "string \<Rightarrow> nat list \<Rightarrow> nat option \<Rightarrow> (string \<times> nat list \<times> nat option) option" where
  "parseIPv6Loop s bs ell =
     (if length bs \<ge> 16 then Some (s, bs, ell)
      else let hs = takeWhile is_hex s; rest = dropWhile is_hex s; acc = hex_val hs
           in if length hs > 4 then None
              else if hs = [] then None
              else if rest \<noteq> [] \<and> hd rest = CHR ''.'' then
                (if ell = None \<and> length bs \<noteq> 12 then None
                 else if length bs + 4 > 16 then None
                 else (case parseIPv4Fields s 0 0 [] of
                         None \<Rightarrow> None
                       | Some fs \<Rightarrow> Some ([], bs @ fs, ell)))
              else let bs' = bs @ [acc div 256, acc mod 256]
                   in (case rest of
                         [] \<Rightarrow> Some ([], bs', ell)
                       | c # more \<Rightarrow>
                           if c \<noteq> CHR '':'' then None
                           else (case more of
                                   [] \<Rightarrow> None
                                 | c2 # more2 \<Rightarrow>
                                     if c2 = CHR '':'' then
                                       (if ell \<noteq> None then None
                                        else if more2 = [] then Some ([], bs', Some (length bs'))
                                        else parseIPv6Loop more2 bs' (Some (length bs')))
                                     else parseIPv6Loop more bs' ell)))"
  by pat_completeness auto
termination
  by (relation "measure (\<lambda>(s, bs, ell). 16 - length bs)") auto

declare parseIPv6Loop.simps [simp del]

definition parseIPv6 :: "string \<Rightarrow> nat list option" where
  "parseIPv6 s =
     (if CHR ''%'' \<in> set s then None
      else if s = ''::'' then Some (replicate 16 0)
      else let lead = (take 2 s = ''::'');
               r = (if lead then parseIPv6Loop (drop 2 s) [] (Some 0) else parseIPv6Loop s [] None)
           in (case r of
                 None \<Rightarrow> None
               | Some (rest, bs, ell) \<Rightarrow>
                   if rest \<noteq> [] then None
                   else if length bs < 16 then
                     (case ell of
                        None \<Rightarrow> None
                      | Some e \<Rightarrow> Some (take e bs @ replicate (16 - length bs) 0 @ drop e bs))
                   else if ell \<noteq> None then None
                   else Some bs))"

text \<open>
  \<^verbatim>\<open>net.ParseIP\<close>: the first of \<^verbatim>\<open>.\<close>, \<^verbatim>\<open>:\<close> and \<^verbatim>\<open>%\<close> in the text decides. A zone
  (\<^verbatim>\<open>%\<close>) never yields an address: \<^verbatim>\<open>ParseAddr\<close> fails or \<^verbatim>\<open>ParseIP\<close> drops the result.
\<close>

definition ParseIP :: "string \<Rightarrow> nat list option" where
  "ParseIP s =
     (case dropWhile (\<lambda>c. c \<noteq> CHR ''.'' \<and> c \<noteq> CHR '':'' \<and> c \<noteq> CHR ''%'') s of
        [] \<Rightarrow> None
      | c # _ \<Rightarrow>
          if c = CHR ''.'' then map_option (\<lambda>fs. replicate 10 0 @ [255, 255] @ fs) (parseIPv4Fields s 0 0 [])
          else if c = CHR '':'' then parseIPv6 s
          else None)"

section \<open>Classification\<close>

definition To4 :: "nat list \<Rightarrow> nat list option" where
  "To4 ip = (if take 12 ip = replicate 10 0 @ [255, 255] then Some (drop 12 ip) else None)"

definition IsLoopback :: "nat list \<Rightarrow> bool" where
  "IsLoopback ip = (case To4 ip of Some ip4 \<Rightarrow> ip4 ! 0 = 127 | None \<Rightarrow> ip = replicate 15 0 @ [1])"

definition IsUnspecified :: "nat list \<Rightarrow> bool" where
  "IsUnspecified ip \<longleftrightarrow> ip = replicate 10 0 @ [255, 255, 0, 0, 0, 0] \<or> ip = replicate 16 0"

definition IsLinkLocalUnicast :: "nat list \<Rightarrow> bool" where
  "IsLinkLocalUnicast ip = (case To4 ip of
       Some ip4 \<Rightarrow> ip4 ! 0 = 169 \<and> ip4 ! 1 = 254
     | None \<Rightarrow> ip ! 0 = 0xfe \<and> (ip ! 1) AND 0xc0 = 0x80)"

definition IsLinkLocalMulticast :: "nat list \<Rightarrow> bool" where
  "IsLinkLocalMulticast ip = (case To4 ip of
       Some ip4 \<Rightarrow> ip4 ! 0 = 224 \<and> ip4 ! 1 = 0 \<and> ip4 ! 2 = 0
     | None \<Rightarrow> ip ! 0 = 0xff \<and> (ip ! 1) AND 0x0f = 0x02)"

definition isUsableNodeIP :: "string \<Rightarrow> bool" where
  "isUsableNodeIP addr = (case ParseIP addr of
       None \<Rightarrow> False
     | Some ip \<Rightarrow> \<not> IsLinkLocalUnicast ip \<and> \<not> IsLinkLocalMulticast ip
                   \<and> \<not> IsLoopback ip \<and> \<not> IsUnspecified ip)"

section \<open>Parsed addresses have sixteen bytes\<close>

lemma parseIPv4Fields_length:
  "parseIPv4Fields s v d fs = Some r \<Longrightarrow> length fs \<le> 3 \<Longrightarrow> length r = 4"
  by (induction s v d fs rule: parseIPv4Fields.induct) (auto simp: Let_def split: if_splits)

lemma parseIPv6Loop_length:
  "parseIPv6Loop s bs ell = Some (s', bs', ell') \<Longrightarrow> length bs \<le> 16 \<Longrightarrow> even (length bs) \<Longrightarrow> length bs' \<le> 16"
proof (induction "16 - length bs" arbitrary: s bs ell rule: less_induct)
  case less
  have room: "length bs + 2 \<le> 16" if "length bs < 16"
    using that less.prems(3) by presburger
  have IH: "length bs' \<le> 16"
    if "parseIPv6Loop u (bs @ [x, y]) e = Some (s', bs', ell')" "length bs < 16" for u x y e
    using less.hyps [of "bs @ [x, y]" u e] that room less.prems(3) by simp
  show ?case
    using less.prems room
    by (subst (asm) parseIPv6Loop.simps)
       (auto simp: Let_def dest: IH parseIPv4Fields_length split: if_splits option.splits list.splits)
qed

lemma ParseIP_length: "ParseIP s = Some ip \<Longrightarrow> length ip = 16"
proof -
  have v6: "length ip = 16" if p: "parseIPv6 s = Some ip"
  proof (cases "s = ''::''")
    case True
    with p show ?thesis by (auto simp: parseIPv6_def)
  next
    case False
    with p obtain u e0 rest bs ell where "parseIPv6Loop u [] e0 = Some (rest, bs, ell)"
      and "ip = bs \<and> \<not> length bs < 16 \<or>
           (\<exists>e. length bs < 16 \<and> ip = take e bs @ replicate (16 - length bs) 0 @ drop e bs)"
      by (auto simp: parseIPv6_def Let_def split: if_splits option.splits) blast+
    with parseIPv6Loop_length [of u "[]"] show ?thesis by fastforce
  qed
  assume "ParseIP s = Some ip"
  then show ?thesis
    by (auto simp: ParseIP_def v6 dest: parseIPv4Fields_length split: list.splits if_splits)
qed

text \<open>The bytes stored by the loop are only ever extended.\<close>

lemma parseIPv6Loop_prefix:
  "parseIPv6Loop s bs ell = Some (s', bs', ell') \<Longrightarrow>
   (\<exists>t. bs' = bs @ t) \<and> (ell' = ell \<or> (\<exists>e. ell' = Some e \<and> length bs \<le> e))"
proof (induction "16 - length bs" arbitrary: s bs ell rule: less_induct)
  case less
  have IH: "(\<exists>t. bs' = bs @ t) \<and> (ell' = e \<or> (\<exists>e'. ell' = Some e' \<and> length bs \<le> e'))"
    if "parseIPv6Loop u (bs @ [x, y]) e = Some (s', bs', ell')" "length bs < 16" for u x y e
    using less.hyps [of "bs @ [x, y]" u e] that by fastforce
  show ?case
    using less.prems
    by (subst (asm) parseIPv6Loop.simps)
       (auto simp: Let_def dest!: IH split: if_splits option.splits list.splits)
qed

section \<open>Textual characterisations\<close>

text \<open>Dotted-decimal text, as \<^verbatim>\<open>net.IP.String\<close> prints an IPv4 address.\<close>

definition v4_text :: "nat \<Rightarrow> nat \<Rightarrow> nat \<Rightarrow> nat \<Rightarrow> string" where
  "v4_text a b c d = nat_dec a @ ''.'' @ nat_dec b @ ''.'' @ nat_dec c @ ''.'' @ nat_dec d"

text \<open>Reading one decimal field consumes its digits.\<close>

lemma nat_dec_hd_zero: "0 < n \<Longrightarrow> hd (nat_dec n) \<noteq> digit 0"
proof (induction n rule: nat_dec.induct)
  case (1 n)
  show ?case
  proof (cases "n < 10")
    case True
    with "1.prems" show ?thesis
      by (subst nat_dec.simps) (auto dest: arg_cong [where f = digit_val])
  next
    case False
    with "1.IH" have "hd (nat_dec (n div 10)) \<noteq> digit 0" by simp
    with False show ?thesis by (subst nat_dec.simps) simp
  qed
qed

lemma parseIPv4Fields_field_snoc:
  assumes "n < 256" and "\<And>cs. parseIPv4Fields (nat_dec (n div 10) @ cs) 0 0 fs = parseIPv4Fields cs (n div 10) k fs"
    and "0 < n div 10" "0 < k"
  shows "parseIPv4Fields (nat_dec (n div 10) @ digit (n mod 10) # cs) 0 0 fs = parseIPv4Fields cs n (Suc k) fs"
proof -
  have "n div 10 * 10 + n mod 10 = n" by simp
  with assms show ?thesis by (simp add: Let_def)
qed

lemma parseIPv4Fields_field:
  "n < 256 \<Longrightarrow> \<exists>k > 0. \<forall>cs. parseIPv4Fields (nat_dec n @ cs) 0 0 fs = parseIPv4Fields cs n k fs"
proof (induction n rule: nat_dec.induct)
  case (1 n)
  show ?case
  proof (cases "n < 10")
    case True
    with "1.prems" show ?thesis
      by (intro exI [of _ 1]) (simp add: nat_dec.simps [of n])
  next
    case False
    with "1.prems" have "n div 10 < 256" by simp
    with "1.IH" False obtain k where "0 < k"
      "\<And>cs. parseIPv4Fields (nat_dec (n div 10) @ cs) 0 0 fs = parseIPv4Fields cs (n div 10) k fs"
      by blast
    moreover have "0 < n div 10" using False by linarith
    ultimately have "parseIPv4Fields (nat_dec n @ cs) 0 0 fs = parseIPv4Fields cs n (Suc k) fs" for cs
      using parseIPv4Fields_field_snoc [OF "1.prems", of fs k] False
      by (subst nat_dec.simps) simp
    then show ?thesis by blast
  qed
qed

lemma parseIPv4Fields_dot:
  assumes "n < 256" "cs \<noteq> []" "length fs < 3"
  shows "parseIPv4Fields (nat_dec n @ CHR ''.'' # cs) 0 0 fs = parseIPv4Fields cs 0 0 (fs @ [n])"
proof -
  obtain k where "0 < k" "parseIPv4Fields (nat_dec n @ CHR ''.'' # cs) 0 0 fs
      = parseIPv4Fields (CHR ''.'' # cs) n k fs"
    using parseIPv4Fields_field [OF assms(1)] by blast
  with assms(2,3) show ?thesis by (simp add: is_digit_def)
qed

lemma parseIPv4Fields_last:
  assumes "n < 256" "length fs = 3"
  shows "parseIPv4Fields (nat_dec n) 0 0 fs = Some (fs @ [n])"
proof -
  obtain k where "parseIPv4Fields (nat_dec n @ []) 0 0 fs = parseIPv4Fields [] n k fs"
    using parseIPv4Fields_field [OF assms(1)] by blast
  with assms(2) show ?thesis by simp
qed

lemma ParseIP_v4_text:
  assumes "a < 256" "b < 256" "c < 256" "d < 256"
  shows "ParseIP (v4_text a b c d) = Some (replicate 10 0 @ [255, 255, a, b, c, d])"
proof -
  let ?P = "\<lambda>c. c \<noteq> CHR ''.'' \<and> c \<noteq> CHR '':'' \<and> c \<noteq> CHR ''%''"
  have "?P x" if "x \<in> set (nat_dec a)" for x
    using that nat_dec_digits [of a] by (auto simp: list_all_iff is_digit_def)
  then have "dropWhile ?P (nat_dec a @ CHR ''.'' # r) = CHR ''.'' # r" for r
    by (simp add: dropWhile_append2)
  with assms show ?thesis
    by (simp add: ParseIP_def v4_text_def parseIPv4Fields_dot parseIPv4Fields_last)
qed

text \<open>
  A hexadecimal first group followed by a colon: whatever follows, the first two bytes of the
  address are those of the group.
\<close>

lemma parseIPv6_first_group:
  assumes g: "g \<noteq> []" "length g \<le> 4" "list_all is_hex g"
    and ip: "parseIPv6 (g @ CHR '':'' # rest) = Some ip"
  shows "\<exists>t. ip = [hex_val g div 256, hex_val g mod 256] @ t"
proof -
  let ?s = "g @ CHR '':'' # rest" and ?b = "[hex_val g div 256, hex_val g mod 256]"
  have nhex: "\<not> is_hex CHR '':''" by (simp add: is_hex_def is_digit_def)
  have hd: "is_hex (hd g)" using g by (cases g) simp_all
  then have "hd ?s \<noteq> CHR '':''" using nhex g(1) by auto
  then have nlead: "take 2 ?s \<noteq> ''::''" "?s \<noteq> ''::''"
    using g(1) by (cases g; simp)+
  have tw: "takeWhile is_hex ?s = g" "dropWhile is_hex ?s = CHR '':'' # rest"
    using g(3) nhex by (simp_all add: takeWhile_append2 dropWhile_append2 list_all_iff)
  from ip nlead obtain bs ell where r: "parseIPv6Loop ?s [] None = Some ([], bs, ell)"
    and fin: "ip = bs \<or> (\<exists>e z. ell = Some e \<and> ip = take e bs @ z @ drop e bs)"
    by (auto simp: parseIPv6_def Let_def split: if_splits option.splits)
  from r g tw have "(\<exists>t. bs = ?b @ t) \<and> (ell = None \<or> (\<exists>e. ell = Some e \<and> 2 \<le> e))"
    by (subst (asm) parseIPv6Loop.simps)
       (auto simp: Let_def dest!: parseIPv6Loop_prefix split: if_splits list.splits)
  with fin show ?thesis
    by (auto simp: take_Cons' drop_Cons' Suc_le_eq)
qed

lemma ParseIP_hex_group:
  assumes "g \<noteq> []" "list_all is_hex g"
  shows "ParseIP (g @ CHR '':'' # rest) = parseIPv6 (g @ CHR '':'' # rest)"
proof -
  let ?P = "\<lambda>c. c \<noteq> CHR ''.'' \<and> c \<noteq> CHR '':'' \<and> c \<noteq> CHR ''%''"
  have "?P x" if "x \<in> set g" for x
    using that assms(2) by (auto simp: list_all_iff is_hex_def is_digit_def)
  then have "dropWhile ?P (g @ CHR '':'' # rest) = CHR '':'' # rest"
    by (simp add: dropWhile_append2)
  then show ?thesis by (simp add: ParseIP_def)
qed

section \<open>Properties\<close>

text \<open>
  Exactly which IPv4 addresses become endpoints: a dotted-decimal address is usable unless it
  is loopback (127/8), link-local (169.254/16), link-local multicast (224.0.0/24) or unspecified.
\<close>

lemma isUsableNodeIP_v4:
  assumes "a < 256" "b < 256" "c < 256" "d < 256"
  shows "isUsableNodeIP (v4_text a b c d) \<longleftrightarrow>
    a \<noteq> 127 \<and> \<not> (a = 169 \<and> b = 254) \<and> \<not> (a = 224 \<and> b = 0 \<and> c = 0) \<and> \<not> (a = 0 \<and> b = 0 \<and> c = 0 \<and> d = 0)"
  by (auto simp: isUsableNodeIP_def ParseIP_v4_text [OF assms] IsLinkLocalUnicast_def
      IsLinkLocalMulticast_def IsLoopback_def IsUnspecified_def To4_def eval_nat_numeral)

text \<open>
  No IPv6 link-local address becomes an endpoint: a text whose first group is a hexadecimal
  number in \<^verbatim>\<open>fe80\<close> to \<^verbatim>\<open>febf\<close> is never usable, whatever follows the group.
\<close>

lemma isUsableNodeIP_fe80:
  assumes "list_all is_hex g" "length g = 4" "0xfe80 \<le> hex_val g" "hex_val g \<le> 0xfebf"
  shows "\<not> isUsableNodeIP (g @ CHR '':'' # rest)"
proof
  assume usable: "isUsableNodeIP (g @ CHR '':'' # rest)"
  have g: "g \<noteq> []" "length g \<le> 4" using assms(2) by auto
  from usable obtain ip where ip: "parseIPv6 (g @ CHR '':'' # rest) = Some ip" and n: "\<not> IsLinkLocalUnicast ip"
    by (auto simp: isUsableNodeIP_def ParseIP_hex_group [OF g(1) assms(1)] split: option.splits)
  then obtain t where t: "ip = [hex_val g div 256, hex_val g mod 256] @ t"
    using parseIPv6_first_group [OF g assms(1)] by blast
  have hi: "hex_val g div 256 = 0xfe" using assms(3,4) by simp
  have lo: "128 \<le> hex_val g mod 256" "hex_val g mod 256 < 192"
    using assms(3,4) hi div_mult_mod_eq [of "hex_val g" 256] by simp_all
  have "\<forall>x\<in>set [128..<192]. x AND 0xc0 = (0x80::nat)" by simp
  moreover have "hex_val g mod 256 \<in> set [128..<192]" using lo by (simp only: set_upt atLeastLessThan_iff)
  ultimately have "(hex_val g mod 256) AND 0xc0 = 0x80" by (rule bspec)
  moreover have "hd (take 12 ip) \<noteq> hd (replicate 10 0 @ [255, 255])"
    unfolding t hi by simp
  then have "To4 ip = None" unfolding To4_def by metis
  ultimately show False using n t hi by (simp add: IsLinkLocalUnicast_def)
qed

end
