(* ===== verification/LB_Messages.thy ===== *)
theory LB_Messages
  imports Net_IP
begin

text \<open>
  The messages of the LoadBalancer API (\<^verbatim>\<open>pkg/rpc/loadbalancer/gen\<close>): the generated Go types of
  \<^verbatim>\<open>loadbalancer.pb.go\<close> as datatypes and records, and, as an abstract specification of what the
  server accepts, the \<^verbatim>\<open>buf.validate\<close> rules that \<^verbatim>\<open>loadbalancer.proto\<close> attaches to them.
  Enumerations are open in proto3, so the ones read from the wire have a constructor for numbers
  the schema does not name. A nil message pointer is \<^term>\<open>None\<close>. A Go slice of messages is a list;
  the listener list of a stored load balancer keeps \<^term>\<open>None\<close> for nil entries, which
  \<^verbatim>\<open>mergeListenerIDs\<close> skips.
\<close>

section \<open>Enumerations\<close>

datatype State =
    STATE_UNSPECIFIED | STATE_PENDING | STATE_PROVISIONING | STATE_READY | STATE_FAILED
  | STATE_DELETING | STATE_DELETED | STATE_UPDATING | STATE_unrecognized int

datatype Algorithm =
    ALGORITHM_UNSPECIFIED | ALGORITHM_ROUND_ROBIN | ALGORITHM_LEAST_REQUEST
  | ALGORITHM_RANDOM | ALGORITHM_CONSISTENT_HASH

datatype Protocol =
    PROTOCOL_UNSPECIFIED | PROTOCOL_TCP | PROTOCOL_UDP | PROTOCOL_HTTP | PROTOCOL_unrecognized int

datatype HttpPathType =
    HTTP_PATH_TYPE_UNSPECIFIED | HTTP_PATH_TYPE_EXACT | HTTP_PATH_TYPE_PREFIX | HTTP_PATH_TYPE_REGEX

datatype HttpMethod =
    HTTP_METHOD_UNSPECIFIED | HTTP_METHOD_GET | HTTP_METHOD_POST | HTTP_METHOD_PUT
  | HTTP_METHOD_DELETE | HTTP_METHOD_PATCH | HTTP_METHOD_HEAD | HTTP_METHOD_OPTIONS

datatype HeaderMatchType =
    HEADER_MATCH_TYPE_UNSPECIFIED | HEADER_MATCH_TYPE_EXACT | HEADER_MATCH_TYPE_REGEX

datatype QueryParamMatchType =
    QUERY_PARAM_MATCH_TYPE_UNSPECIFIED | QUERY_PARAM_MATCH_TYPE_EXACT | QUERY_PARAM_MATCH_TYPE_REGEX

datatype FipState =
    FIP_STATE_UNSPECIFIED | FIP_STATE_NONE | FIP_STATE_PROVISIONING | FIP_STATE_ACTIVE
  | FIP_STATE_REMOVING | FIP_STATE_unrecognized int

text \<open>The \<^verbatim>\<open>String\<close> methods that the code prints: the schema name, or the number.\<close>

fun Protocol_String :: "Protocol \<Rightarrow> string" where
  "Protocol_String PROTOCOL_UNSPECIFIED = ''PROTOCOL_UNSPECIFIED''"
| "Protocol_String PROTOCOL_TCP = ''PROTOCOL_TCP''"
| "Protocol_String PROTOCOL_UDP = ''PROTOCOL_UDP''"
| "Protocol_String PROTOCOL_HTTP = ''PROTOCOL_HTTP''"
| "Protocol_String (PROTOCOL_unrecognized n) = itoa n"

fun State_String :: "State \<Rightarrow> string" where
  "State_String STATE_UNSPECIFIED = ''STATE_UNSPECIFIED''"
| "State_String STATE_PENDING = ''STATE_PENDING''"
| "State_String STATE_PROVISIONING = ''STATE_PROVISIONING''"
| "State_String STATE_READY = ''STATE_READY''"
| "State_String STATE_FAILED = ''STATE_FAILED''"
| "State_String STATE_DELETING = ''STATE_DELETING''"
| "State_String STATE_DELETED = ''STATE_DELETED''"
| "State_String STATE_UPDATING = ''STATE_UPDATING''"
| "State_String (STATE_unrecognized n) = itoa n"

section \<open>Sub-messages\<close>

record BackendRef =
  br_Ip :: string
  br_Port :: int

record HttpPathMatch =
  pm_Type :: HttpPathType
  pm_Value :: string

record HttpHeaderMatch =
  hm_Name :: string
  hm_Value :: string
  hm_Type :: HeaderMatchType

record HttpQueryParamMatch =
  qm_Name :: string
  qm_Value :: string
  qm_Type :: QueryParamMatchType

record HttpRouteMatch =
  rm_Path :: "HttpPathMatch option"
  rm_Headers :: "HttpHeaderMatch list"
  rm_QueryParams :: "HttpQueryParamMatch list"
  rm_Method :: HttpMethod

record RuleBackend =
  rb_Id :: string
  rb_Name :: string
  rb_Weight :: int
  rb_Endpoints :: "BackendRef list"

record HealthMonitor =
  mon_Interval :: int
  mon_Timeout :: int
  mon_UnhealthyThreshold :: int
  mon_HealthyThreshold :: int
  mon_HttpHealthCheckPath :: string
  mon_HttpHealthCheckMethod :: HttpMethod
  mon_ExpectedStatusCodes :: "int list"

record ListenerRule =
  lr_Id :: string
  lr_ListenerId :: string
  lr_Priority :: int
  lr_Matches :: "HttpRouteMatch list"
  lr_Backends :: "RuleBackend list"
  lr_Algorithm :: Algorithm
  lr_HealthMonitor :: "HealthMonitor option"

record Listener =
  l_Port :: int
  l_Protocol :: Protocol
  l_Id :: string
  l_TlsEnabled :: bool
  l_TlsCert :: string
  l_TlsKey :: string
  l_Rules :: "ListenerRule list"
  l_Hostnames :: "string list"
  l_LoadBalancerId :: string

record LoadBalancerSpec =
  spec_TenantId :: string
  spec_NetworkId :: string
  spec_SubnetId :: string
  spec_Listeners :: "Listener option list"
  spec_ClientConnLimit :: int
  spec_SecurityGroupDisabled :: bool
  spec_SecurityGroupIds :: "string list"
  spec_QosPolicyDisabled :: bool
  spec_QosPolicyId :: string

record LoadBalancerSummary =
  sum_Id :: string
  sum_Name :: string
  sum_Ip :: string
  sum_State :: State
  sum_CreatedAt :: "int option"
  sum_UpdatedAt :: "int option"
  sum_FipEnabled :: bool
  sum_Fip :: string
  sum_FipState :: FipState
  sum_FipNetworkId :: string
  sum_ClientConnLimit :: int
  sum_ListenerCount :: int
  sum_SecurityGroupDisabled :: bool
  sum_SecurityGroupIds :: "string list"
  sum_QosPolicyDisabled :: bool
  sum_QosPolicyId :: string

record LoadBalancer =
  ld_Id :: string
  ld_Name :: string
  ld_Ip :: string
  ld_Spec :: "LoadBalancerSpec option"
  ld_State :: State
  ld_Error :: string
  ld_CreatedAt :: "int option"
  ld_UpdatedAt :: "int option"
  ld_FipEnabled :: bool
  ld_Fip :: string
  ld_FipState :: FipState
  ld_FipNetworkId :: string
  ld_SecurityGroupDisabled :: bool
  ld_SecurityGroupIds :: "string list"
  ld_QosPolicyDisabled :: bool
  ld_QosPolicyId :: string

section \<open>Requests and responses\<close>

record CreateLoadBalancerRequest =
  cr_Name :: string
  cr_Spec :: LoadBalancerSpec
  cr_Fip :: "string option"
  cr_FipNetworkId :: "string option"
  cr_IdempotencyKey :: string

record CreateLoadBalancerResponse =
  crr_Id :: string
  crr_State :: State

record GetLoadBalancerRequest =
  gr_Id :: string

record GetLoadBalancerResponse =
  grr_LoadBalancer :: "LoadBalancer option"

record ListLoadBalancersRequest =
  lsr_TenantId :: string
  lsr_PageSize :: int
  lsr_PageToken :: string

record ListLoadBalancersResponse =
  lsrr_LoadBalancers :: "LoadBalancerSummary list"
  lsrr_NextPageToken :: string

record DeleteLoadBalancerRequest =
  dr_Id :: string

record DeleteLoadBalancerResponse =
  drr_Id :: string
  drr_State :: State

record AllocateFloatingIpRequest =
  ar_Id :: string
  ar_Fip :: string
  ar_FipNetworkId :: string

record AllocateFloatingIpResponse =
  arr_Id :: string
  arr_FipState :: FipState
  arr_Fip :: string

record ReleaseFloatingIpRequest =
  rr_Id :: string

record ReleaseFloatingIpResponse =
  rrr_Id :: string
  rrr_FipState :: FipState

record UpdateLoadBalancerRequest =
  ur_Id :: string
  ur_Listeners :: "Listener list"
  ur_ClientConnLimit :: "int option"
  ur_SecurityGroupDisabled :: "bool option"
  ur_SecurityGroupIds :: "string list"
  ur_QosPolicyDisabled :: "bool option"
  ur_QosPolicyId :: "string option"

record UpdateLoadBalancerResponse =
  urr_Id :: string
  urr_State :: State

section \<open>Nil-safe getters\<close>

definition GetLoadBalancer_of :: "GetLoadBalancerResponse option \<Rightarrow> LoadBalancer option" where
  "GetLoadBalancer_of r = (case r of None \<Rightarrow> None | Some m \<Rightarrow> grr_LoadBalancer m)"

definition GetListeners_of :: "LoadBalancer option \<Rightarrow> Listener option list" where
  "GetListeners_of l = (case l of None \<Rightarrow> []
     | Some m \<Rightarrow> (case ld_Spec m of None \<Rightarrow> [] | Some sp \<Rightarrow> spec_Listeners sp))"

definition GetLoadBalancers_of :: "ListLoadBalancersResponse option \<Rightarrow> LoadBalancerSummary list" where
  "GetLoadBalancers_of r = (case r of None \<Rightarrow> [] | Some m \<Rightarrow> lsrr_LoadBalancers m)"

definition GetNextPageToken_of :: "ListLoadBalancersResponse option \<Rightarrow> string" where
  "GetNextPageToken_of r = (case r of None \<Rightarrow> '''' | Some m \<Rightarrow> lsrr_NextPageToken m)"

section \<open>What the server accepts\<close>

text \<open>
  The field and message rules of \<^verbatim>\<open>loadbalancer.proto\<close> for the listener part of a request; the rules
  for whole requests are in \<^verbatim>\<open>LB_Requests\<close>. The uniqueness of endpoints within a backend, which the
  schema says the server checks in its own code, is included. Lengths are counted in bytes, the
  schema counts code points, so the limits here are the stricter ones.
\<close>

definition ok_BackendRef :: "BackendRef \<Rightarrow> bool" where
  "ok_BackendRef b \<longleftrightarrow> ParseIP (br_Ip b) \<noteq> None \<and> 1 \<le> br_Port b \<and> br_Port b \<le> 65535"

definition ok_HttpPathMatch :: "HttpPathMatch \<Rightarrow> bool" where
  "ok_HttpPathMatch p \<longleftrightarrow> 1 \<le> length (pm_Value p) \<and> length (pm_Value p) \<le> 1024
     \<and> (pm_Type p = HTTP_PATH_TYPE_REGEX \<or> take 1 (pm_Value p) = ''/'')"

definition ok_HttpHeaderMatch :: "HttpHeaderMatch \<Rightarrow> bool" where
  "ok_HttpHeaderMatch h \<longleftrightarrow> 1 \<le> length (hm_Name h) \<and> length (hm_Name h) \<le> 256
     \<and> 1 \<le> length (hm_Value h) \<and> length (hm_Value h) \<le> 4096"

definition ok_HttpQueryParamMatch :: "HttpQueryParamMatch \<Rightarrow> bool" where
  "ok_HttpQueryParamMatch q \<longleftrightarrow> 1 \<le> length (qm_Name q) \<and> length (qm_Name q) \<le> 256
     \<and> 1 \<le> length (qm_Value q) \<and> length (qm_Value q) \<le> 1024"

definition ok_HttpRouteMatch :: "HttpRouteMatch \<Rightarrow> bool" where
  "ok_HttpRouteMatch m \<longleftrightarrow>
     (case rm_Path m of None \<Rightarrow> True | Some p \<Rightarrow> ok_HttpPathMatch p)
     \<and> length (rm_Headers m) \<le> 16 \<and> list_all ok_HttpHeaderMatch (rm_Headers m)
     \<and> length (rm_QueryParams m) \<le> 16 \<and> list_all ok_HttpQueryParamMatch (rm_QueryParams m)
     \<and> (rm_Path m \<noteq> None \<or> rm_Headers m \<noteq> [] \<or> rm_QueryParams m \<noteq> []
        \<or> rm_Method m \<noteq> HTTP_METHOD_UNSPECIFIED)"

definition ok_RuleBackend :: "RuleBackend \<Rightarrow> bool" where
  "ok_RuleBackend b \<longleftrightarrow> length (rb_Name b) \<le> 255
     \<and> 0 \<le> rb_Weight b \<and> rb_Weight b \<le> 1000000
     \<and> 1 \<le> length (rb_Endpoints b) \<and> length (rb_Endpoints b) \<le> 256
     \<and> list_all ok_BackendRef (rb_Endpoints b)
     \<and> distinct (map (\<lambda>e. (br_Ip e, br_Port e)) (rb_Endpoints b))"

definition ok_HealthMonitor :: "HealthMonitor \<Rightarrow> bool" where
  "ok_HealthMonitor h \<longleftrightarrow> 1 \<le> mon_Interval h \<and> mon_Interval h \<le> 3600
     \<and> 1 \<le> mon_Timeout h \<and> mon_Timeout h \<le> 300
     \<and> 0 < mon_UnhealthyThreshold h \<and> 0 < mon_HealthyThreshold h
     \<and> mon_Timeout h < mon_Interval h"

definition ok_ListenerRule :: "ListenerRule \<Rightarrow> bool" where
  "ok_ListenerRule r \<longleftrightarrow> 0 \<le> lr_Priority r
     \<and> length (lr_Matches r) \<le> 64 \<and> list_all ok_HttpRouteMatch (lr_Matches r)
     \<and> 1 \<le> length (lr_Backends r) \<and> length (lr_Backends r) \<le> 16
     \<and> list_all ok_RuleBackend (lr_Backends r)
     \<and> list_ex (\<lambda>b. 0 < rb_Weight b) (lr_Backends r)
     \<and> (case lr_HealthMonitor r of None \<Rightarrow> True | Some h \<Rightarrow> ok_HealthMonitor h)"

definition ok_http_monitor :: "ListenerRule \<Rightarrow> bool" where
  "ok_http_monitor r = (case lr_HealthMonitor r of None \<Rightarrow> True
     | Some h \<Rightarrow> take 1 (mon_HttpHealthCheckPath h) = ''/''
         \<and> mon_HttpHealthCheckMethod h \<noteq> HTTP_METHOD_UNSPECIFIED
         \<and> mon_ExpectedStatusCodes h \<noteq> []
         \<and> list_all (\<lambda>c. 100 \<le> c \<and> c \<le> 599) (mon_ExpectedStatusCodes h))"

text \<open>
  The pattern \<^verbatim>\<open>^(\*\.)?([a-zA-Z0-9-]+\.)+[a-zA-Z]{2,}$\<close> of a host name, read label by label: how many
  labels have ended, whether the current one has only letters so far, and its length.
\<close>

definition ascii_letter :: "char \<Rightarrow> bool" where
  "ascii_letter c = (let n = (of_char c :: nat) in (65 \<le> n \<and> n \<le> 90) \<or> (97 \<le> n \<and> n \<le> 122))"

fun host_labels :: "nat \<Rightarrow> bool \<Rightarrow> nat \<Rightarrow> string \<Rightarrow> bool" where
  "host_labels k letters n [] \<longleftrightarrow> 1 \<le> k \<and> letters \<and> 2 \<le> n"
| "host_labels k letters n (c # cs) \<longleftrightarrow>
     (if c = CHR ''.'' then 1 \<le> n \<and> host_labels (Suc k) True 0 cs
      else (ascii_letter c \<or> is_digit c \<or> c = CHR ''-'') \<and> host_labels k (letters \<and> ascii_letter c) (Suc n) cs)"

definition hostname_pattern :: "string \<Rightarrow> bool" where
  "hostname_pattern s = host_labels 0 True 0 (if take 2 s = ''*.'' then drop 2 s else s)"

definition ok_Listener :: "Listener \<Rightarrow> bool" where
  "ok_Listener l \<longleftrightarrow> 1 \<le> l_Port l \<and> l_Port l \<le> 65535
     \<and> (case l_Protocol l of PROTOCOL_unrecognized _ \<Rightarrow> False | _ \<Rightarrow> True)
     \<and> 1 \<le> length (l_Rules l) \<and> length (l_Rules l) \<le> 16
     \<and> list_all ok_ListenerRule (l_Rules l)
     \<and> distinct (l_Hostnames l) \<and> length (l_Hostnames l) \<le> 16 \<and> list_all hostname_pattern (l_Hostnames l)
     \<and> (l_TlsEnabled l \<longrightarrow> l_TlsCert l \<noteq> '''' \<and> l_TlsKey l \<noteq> '''')
     \<and> (l_Protocol l = PROTOCOL_HTTP \<or> length (l_Rules l) = 1)
     \<and> (l_Protocol l = PROTOCOL_HTTP \<or> list_all (\<lambda>r. lr_Matches r = []) (l_Rules l))
     \<and> (l_Protocol l = PROTOCOL_HTTP \<or> l_Hostnames l = [])
     \<and> (l_Protocol l = PROTOCOL_HTTP \<longrightarrow> list_all ok_http_monitor (l_Rules l))"

end
