(* ===== verification/World.thy ===== *)
theory World
  imports LB_Messages
begin

text \<open>
  What the provider code sees of its surroundings, and the state it keeps between calls:
  \<^item> the Kubernetes objects it reads (\<^verbatim>\<open>Service\<close>, \<^verbatim>\<open>Node\<close>, \<^verbatim>\<open>VirtualMachineInstance\<close>), with the
    fields the source uses;
  \<^item> Go error values, with \<^verbatim>\<open>status.FromError\<close> of gRPC on them;
  \<^item> the environment: every answer of the gRPC transport, of the two Kubernetes clients, of the
    clock, of the caller's context and of the random source is a function of the whole state, so
    that a theorem about all environments covers every behaviour of the outside;
  \<^item> the state: the retry counters of the \<^verbatim>\<open>loadbalancer\<close> struct and two histories, the calls the
    load balancer code makes and what happens on the wire below them. The histories are what the
    environment answers from and what the theorems speak about; the code never reads them.
\<close>

section \<open>Kubernetes objects\<close>

record ServicePort =
  port_Name :: string
  port_Protocol :: string
  port_Port :: int
  port_TargetPort :: int
  port_NodePort :: int

text \<open>
  \<^verbatim>\<open>Annotations\<close> distinguishes a nil map from an empty one, because
  \<^verbatim>\<open>ensureServiceAnnotation\<close> does.
\<close>

record Service =
  svc_Name :: string
  svc_Namespace :: string
  svc_UID :: string
  svc_Labels :: "string \<rightharpoonup> string"
  svc_Annotations :: "(string \<rightharpoonup> string) option"
  svc_DeletionTimestamp :: "int option"
  svc_Ports :: "ServicePort list"

definition annots :: "Service \<Rightarrow> (string \<rightharpoonup> string)" where
  "annots svc = (case svc_Annotations svc of None \<Rightarrow> Map.empty | Some m \<Rightarrow> m)"

abbreviation annot :: "Service \<Rightarrow> string \<Rightarrow> string" where
  "annot svc k \<equiv> mget (annots svc) k"

record NodeAddress =
  addr_Type :: string
  addr_Address :: string

record Node =
  node_Name :: string
  node_Labels :: "string \<rightharpoonup> string"
  node_ProviderID :: string
  node_Addresses :: "NodeAddress list"

record NetworkInterface =
  if_Name :: string
  if_IP :: string
  if_IPs :: "string list"

record VirtualMachineInstance =
  vmi_Name :: string
  vmi_Annotations :: "string \<rightharpoonup> string"
  vmi_Phase :: string
  vmi_NodeName :: string
  vmi_Interfaces :: "NetworkInterface list"

datatype ip_mode = LoadBalancerIPModeVIP | LoadBalancerIPModeProxy

record LoadBalancerIngress =
  ing_IP :: string
  ing_Hostname :: string
  ing_IPMode :: "ip_mode option"

type_synonym LoadBalancerStatus = "LoadBalancerIngress list"

section \<open>Errors\<close>

datatype grpc_code =
    OK | Canceled | Unknown | InvalidArgument | DeadlineExceeded | NotFound | AlreadyExists
  | PermissionDenied | ResourceExhausted | FailedPrecondition | Aborted | OutOfRange
  | Unimplemented | Internal | Unavailable | DataLoss | Unauthenticated

fun code_String :: "grpc_code \<Rightarrow> string" where
  "code_String OK = ''OK''"
| "code_String Canceled = ''Canceled''"
| "code_String Unknown = ''Unknown''"
| "code_String InvalidArgument = ''InvalidArgument''"
| "code_String DeadlineExceeded = ''DeadlineExceeded''"
| "code_String NotFound = ''NotFound''"
| "code_String AlreadyExists = ''AlreadyExists''"
| "code_String PermissionDenied = ''PermissionDenied''"
| "code_String ResourceExhausted = ''ResourceExhausted''"
| "code_String FailedPrecondition = ''FailedPrecondition''"
| "code_String Aborted = ''Aborted''"
| "code_String OutOfRange = ''OutOfRange''"
| "code_String Unimplemented = ''Unimplemented''"
| "code_String Internal = ''Internal''"
| "code_String Unavailable = ''Unavailable''"
| "code_String DataLoss = ''DataLoss''"
| "code_String Unauthenticated = ''Unauthenticated''"

datatype kube_reason = ReasonNotFound | ReasonConflict | ReasonNamespaceTerminating | ReasonOther

text \<open>
  A Go \<^verbatim>\<open>error\<close>: a gRPC status error, a plain text, a text that wraps another error with
  \<^verbatim>\<open>%w\<close> (or wraps nil), the two context errors, an API-server error, and the sentinels of
  \<^verbatim>\<open>k8s.io/cloud-provider\<close>. \<^verbatim>\<open>NotReadyWithin\<close> is the timeout error of the readiness poll,
  with the identifier and the timeout in nanoseconds that its text prints.
\<close>

datatype goerror =
    StatusError grpc_code string
  | ErrText string
  | ErrWrap string goerror
  | ErrWrapNil string
  | ContextCanceled
  | ContextDeadlineExceeded
  | KubeError kube_reason string
  | ImplementedElsewhere
  | InstanceNotFound
  | NotReadyWithin string int

fun Error :: "goerror \<Rightarrow> string" where
  "Error (StatusError c m) = ''rpc error: code = '' @ code_String c @ '' desc = '' @ m"
| "Error (ErrText t) = t"
| "Error (ErrWrap t e) = t @ Error e"
| "Error (ErrWrapNil t) = t @ ''%!w(<nil>)''"
| "Error ContextCanceled = ''context canceled''"
| "Error ContextDeadlineExceeded = ''context deadline exceeded''"
| "Error (KubeError r t) = t"
| "Error ImplementedElsewhere = ''implemented by alternate to cloud provider''"
| "Error InstanceNotFound = ''instance not found''"
| "Error (NotReadyWithin i d) = ''load balancer '' @ i @ '' not ready within '' @ dur_String d"

text \<open>
  \<^verbatim>\<open>status.FromError\<close>: the code and message of a status error, or of the status error inside a
  wrapped one, whose message is then the text of the whole error.
\<close>

fun status_code :: "goerror \<Rightarrow> grpc_code option" where
  "status_code (StatusError c m) = Some c"
| "status_code (ErrWrap t e) = status_code e"
| "status_code _ = None"

fun FromError :: "goerror \<Rightarrow> (grpc_code \<times> string) option" where
  "FromError (StatusError c m) = Some (c, m)"
| "FromError e = (case status_code e of None \<Rightarrow> None | Some c \<Rightarrow> Some (c, Error e))"

lemma FromError_code: "map_option fst (FromError e) = status_code e"
  by (cases e) (auto split: option.split)

definition IsConflict :: "goerror \<Rightarrow> bool" where
  "IsConflict e = (case e of KubeError ReasonConflict _ \<Rightarrow> True | _ \<Rightarrow> False)"

definition IsNotFound :: "goerror \<Rightarrow> bool" where
  "IsNotFound e = (case e of KubeError ReasonNotFound _ \<Rightarrow> True | _ \<Rightarrow> False)"

section \<open>State and environment\<close>

datatype connectivity = Idle | Connecting | Ready | TransientFailure | Shutdown

text \<open>One entry per call the load balancer code makes, with the answer it got.\<close>

datatype call =
    CCreate CreateLoadBalancerRequest "goerror + CreateLoadBalancerResponse option"
  | CGet string "goerror + GetLoadBalancerResponse option"
  | CUpdate UpdateLoadBalancerRequest "goerror + UpdateLoadBalancerResponse option"
  | CDelete string "goerror + DeleteLoadBalancerResponse option"
  | CList ListLoadBalancersRequest "goerror + ListLoadBalancersResponse option"
  | CSvcGet string string "goerror + Service"
  | CSvcUpdate Service "goerror option"
  | CPatchKamaji string string string "goerror option"
  | CListVMIs string "(string \<times> string) list" "goerror + VirtualMachineInstance list"
  | CNow int
  | CSleep int "goerror option"

text \<open>One entry per observable step of the gRPC client below the calls.\<close>

datatype wire =
    WSend string "grpc_code option"
  | WState connectivity
  | WWait bool
  | WBackoff int
  | WCtx bool

record st =
  calls :: "call list"
  wire :: "wire list"
  retryCounts :: "string \<rightharpoonup> int"

record env =
  env_now :: "st \<Rightarrow> int"
  env_select :: "st \<Rightarrow> int \<Rightarrow> goerror option"
  env_ctx_Err :: "st \<Rightarrow> goerror option"
  env_rand :: "st \<Rightarrow> int"
  env_GetState :: "st \<Rightarrow> connectivity"
  env_WaitForStateChange :: "st \<Rightarrow> connectivity \<Rightarrow> goerror option"
  env_Create :: "st \<Rightarrow> CreateLoadBalancerRequest \<Rightarrow> goerror + CreateLoadBalancerResponse"
  env_Get :: "st \<Rightarrow> GetLoadBalancerRequest \<Rightarrow> goerror + GetLoadBalancerResponse"
  env_List :: "st \<Rightarrow> ListLoadBalancersRequest \<Rightarrow> goerror + ListLoadBalancersResponse"
  env_Delete :: "st \<Rightarrow> DeleteLoadBalancerRequest \<Rightarrow> goerror + DeleteLoadBalancerResponse"
  env_Update :: "st \<Rightarrow> UpdateLoadBalancerRequest \<Rightarrow> goerror + UpdateLoadBalancerResponse"
  env_AllocateFip :: "st \<Rightarrow> AllocateFloatingIpRequest \<Rightarrow> goerror + AllocateFloatingIpResponse"
  env_ReleaseFip :: "st \<Rightarrow> ReleaseFloatingIpRequest \<Rightarrow> goerror + ReleaseFloatingIpResponse"
  env_tenant_Get :: "st \<Rightarrow> string \<Rightarrow> string \<Rightarrow> goerror + Service"
  env_tenant_Update :: "st \<Rightarrow> Service \<Rightarrow> goerror option"
  env_tenant_Patch :: "st \<Rightarrow> string \<Rightarrow> string \<Rightarrow> string \<Rightarrow> goerror option"
  env_ListVMIs :: "st \<Rightarrow> string \<Rightarrow> (string \<times> string) list \<Rightarrow> goerror + VirtualMachineInstance list"
  env_sha256 :: "string \<Rightarrow> string"
  env_sha1 :: "string \<Rightarrow> string"

text \<open>Asking the environment: the answer depends on the state and is recorded.\<close>

definition ask_call :: "(st \<Rightarrow> 'r) \<Rightarrow> ('r \<Rightarrow> call) \<Rightarrow> (st, 'r) go" where
  "ask_call f ev = (\<lambda>s. Some (Val (f s), s\<lparr>calls := calls s @ [ev (f s)]\<rparr>))"

definition ask_wire :: "(st \<Rightarrow> 'r) \<Rightarrow> ('r \<Rightarrow> wire) \<Rightarrow> (st, 'r) go" where
  "ask_wire f ev = (\<lambda>s. Some (Val (f s), s\<lparr>wire := wire s @ [ev (f s)]\<rparr>))"

definition log_call :: "call \<Rightarrow> (st, unit) go" where
  "log_call c = go_modify (\<lambda>s. s\<lparr>calls := calls s @ [c]\<rparr>)"

lemma wp_ask [go_wp]:
  "wp (ask_call f ev) Q s = Q (Val (f s)) (s\<lparr>calls := calls s @ [ev (f s)]\<rparr>)"
  "wp (ask_wire f ew) Q s = Q (Val (f s)) (s\<lparr>wire := wire s @ [ew (f s)]\<rparr>)"
  "wp (log_call c) R s = R (Val ()) (s\<lparr>calls := calls s @ [c]\<rparr>)"
  by (simp_all add: wp_def ask_call_def ask_wire_def log_call_def)

lemma ask_simps:
  "ask_call f ev s = Some (Val (f s), s\<lparr>calls := calls s @ [ev (f s)]\<rparr>)"
  "ask_wire f ew s = Some (Val (f s), s\<lparr>wire := wire s @ [ew (f s)]\<rparr>)"
  "log_call c s = Some (Val (), s\<lparr>calls := calls s @ [c]\<rparr>)"
  by (simp_all add: ask_call_def ask_wire_def log_call_def)

section \<open>The interface of the RPC client\<close>

text \<open>
  The Go interface \<^verbatim>\<open>rpcLBClient\<close>: a value of it is a record of its methods. A method returns
  \<^term>\<open>Inr None\<close> for a nil response with a nil error.
\<close>

record rpcLBClient =
  rpc_Create :: "CreateLoadBalancerRequest \<Rightarrow> (st, goerror + CreateLoadBalancerResponse option) go"
  rpc_Get :: "GetLoadBalancerRequest \<Rightarrow> (st, goerror + GetLoadBalancerResponse option) go"
  rpc_Update :: "UpdateLoadBalancerRequest \<Rightarrow> (st, goerror + UpdateLoadBalancerResponse option) go"
  rpc_Delete :: "DeleteLoadBalancerRequest \<Rightarrow> (st, goerror + DeleteLoadBalancerResponse option) go"
  rpc_List :: "ListLoadBalancersRequest \<Rightarrow> (st, goerror + ListLoadBalancersResponse option) go"

text \<open>
  What the load balancer code relies on: a method of the client touches neither the caller's
  retry counters nor its call history, only the wire.
\<close>

definition caller_view :: "st \<Rightarrow> call list \<times> (string \<rightharpoonup> int)" where
  "caller_view s = (calls s, retryCounts s)"

abbreviation wire_only :: "(st, 'a) go \<Rightarrow> bool" where
  "wire_only m \<equiv> preserves caller_view m"

lemma caller_view_wire [simp]: "caller_view (s\<lparr>wire := w\<rparr>) = caller_view s"
  by (simp add: caller_view_def)

lemma wire_onlyD: "wire_only m \<Longrightarrow> m s = Some (r, s') \<Longrightarrow> calls s' = calls s \<and> retryCounts s' = retryCounts s"
  by (auto simp: caller_view_def dest: preservesD)

lemma preserves_ask_wire [go_frame]:
  "(\<And>s r. g (s\<lparr>wire := wire s @ [ev r]\<rparr>) = g s) \<Longrightarrow> preserves g (ask_wire f ev)"
  by (auto simp: preserves_def ask_wire_def)

lemma preserves_ask_call [go_frame]:
  "(\<And>s r. g (s\<lparr>calls := calls s @ [ev r]\<rparr>) = g s) \<Longrightarrow> preserves g (ask_call f ev)"
  by (auto simp: preserves_def ask_call_def)

lemma preserves_log_call [go_frame]:
  "(\<And>s. g (s\<lparr>calls := calls s @ [c]\<rparr>) = g s) \<Longrightarrow> preserves g (log_call c)"
  by (auto simp: preserves_def log_call_def)

lemma keeps_ask_call [go_keeps]:
  "(\<And>s r. I s \<Longrightarrow> I (s\<lparr>calls := calls s @ [ev r]\<rparr>)) \<Longrightarrow> keeps I (ask_call f ev)"
  by (auto simp: keeps_def ask_call_def)

lemma keeps_log_call [go_keeps]: "(\<And>s. I s \<Longrightarrow> I (s\<lparr>calls := calls s @ [c]\<rparr>)) \<Longrightarrow> keeps I (log_call c)"
  by (auto simp: keeps_def log_call_def)

locale rpc_client =
  fixes R :: rpcLBClient
  assumes create_frame: "wire_only (rpc_Create R cr)"
    and get_frame: "wire_only (rpc_Get R gr)"
    and update_frame: "wire_only (rpc_Update R ur)"
    and delete_frame: "wire_only (rpc_Delete R dr)"
    and list_frame: "wire_only (rpc_List R lr)"
begin

lemmas frames = create_frame get_frame update_frame delete_frame list_frame

end

section \<open>A concrete environment\<close>

text \<open>
  The empty state, and an environment whose connection is ready, whose context never ends, whose
  clock advances by a second per call and whose server has no load balancers.
\<close>

definition init_st :: st where
  "init_st = \<lparr>calls = [], wire = [], retryCounts = Map.empty\<rparr>"

definition quiet_env :: env where
  "quiet_env =
     \<lparr>env_now = (\<lambda>s. int (length (calls s)) * 1000000000), env_select = (\<lambda>_ _. None), env_ctx_Err = (\<lambda>_. None),
      env_rand = (\<lambda>_. 7), env_GetState = (\<lambda>_. Ready), env_WaitForStateChange = (\<lambda>_ _. None),
      env_Create = (\<lambda>_ _. Inr \<lparr>crr_Id = ''lb-1'', crr_State = STATE_PENDING\<rparr>),
      env_Get = (\<lambda>_ _. Inl (StatusError NotFound ''no such load balancer'')),
      env_List = (\<lambda>_ _. Inr \<lparr>lsrr_LoadBalancers = [], lsrr_NextPageToken = ''''\<rparr>),
      env_Delete = (\<lambda>_ _. Inl (StatusError NotFound ''no such load balancer'')),
      env_Update = (\<lambda>_ _. Inl (StatusError NotFound ''no such load balancer'')),
      env_AllocateFip = (\<lambda>_ _. Inl (StatusError NotFound ''no such load balancer'')),
      env_ReleaseFip = (\<lambda>_ _. Inl (StatusError NotFound ''no such load balancer'')),
      env_tenant_Get = (\<lambda>_ _ _. Inl (KubeError ReasonNotFound ''no such service'')),
      env_tenant_Update = (\<lambda>_ _. Some (KubeError ReasonNotFound ''no such service'')),
      env_tenant_Patch = (\<lambda>_ _ _ _. None), env_ListVMIs = (\<lambda>_ _ _. Inr []),
      env_sha256 = (\<lambda>x. x), env_sha1 = (\<lambda>x. x)\<rparr>"

end
