(* ===== verification/Provider_Config.thy ===== *)
theory Provider_Config
  imports World
begin

text \<open>
  The configuration of the provider (\<^verbatim>\<open>pkg/provider/cloud.go\<close>), the \<^verbatim>\<open>loadbalancer\<close> struct, the
  annotation keys and constants of \<^verbatim>\<open>pkg/provider/loadbalancer.go\<close>, and the functions that read
  the effective settings of a Service from its annotations or from the configuration.
\<close>

section \<open>Configuration records\<close>

record LoadBalancerConfig =
  lc_Enabled :: bool
  lc_CreationPollInterval :: "int option"
  lc_CreationPollTimeout :: "int option"
  lc_Selectorless :: "bool option"
  lc_EnableEPSController :: "bool option"
  lc_RPCServerAddr :: string
  lc_RPCKeepAlive :: "int option"
  lc_RPCRetryMax :: "int option"
  lc_NetworkID :: string
  lc_SubnetID :: string
  lc_TenantID :: string
  lc_FipNetworkID :: string
  lc_IpType :: string
  lc_OnlyServiceController :: bool
  lc_ApiKey :: string

record InstancesV2Config =
  ic_Enabled :: bool
  ic_ZoneAndRegionEnabled :: bool

record CloudConfig =
  cc_Kubeconfig :: string
  cc_LoadBalancer :: LoadBalancerConfig
  cc_InstancesV2 :: InstancesV2Config
  cc_Namespace :: string
  cc_InfraLabels :: "string \<rightharpoonup> string"

section \<open>Constants\<close>

definition DefaultLoadBalancerCreatePollInterval :: int where
  "DefaultLoadBalancerCreatePollInterval = 5"

definition DefaultLoadBalancerCreatePollTimeout :: int where
  "DefaultLoadBalancerCreatePollTimeout = 300"

definition TenantClusterNameLabelKey :: string where
  "TenantClusterNameLabelKey = ''cluster.x-k8s.io/cluster-name''"

definition TenantNodeRoleLabelKey :: string where
  "TenantNodeRoleLabelKey = ''cluster.x-k8s.io/role''"

definition LoadBalancerIDAnnotationKey :: string where
  "LoadBalancerIDAnnotationKey = ''kubevirt.io/loadbalancer-id''"

definition LoadBalancerCreateCountAnnotationKey :: string where
  "LoadBalancerCreateCountAnnotationKey = ''kubevirt.io/loadbalancer-create-count''"

definition LoadBalancerListenerHashAnnotationKey :: string where
  "LoadBalancerListenerHashAnnotationKey = ''kubevirt.io/loadbalancer-listener-hash''"

definition LoadBalancerInternalIPAnnotationKey :: string where
  "LoadBalancerInternalIPAnnotationKey = ''kubevirt.io/loadbalancer-internal-ip''"

definition ServiceNetworkIDAnnotationKey :: string where
  "ServiceNetworkIDAnnotationKey = ''loadbalancer.kubevirt.io/network-id''"

definition ServiceSubnetIDAnnotationKey :: string where
  "ServiceSubnetIDAnnotationKey = ''loadbalancer.kubevirt.io/subnet-id''"

definition ServiceTenantIDAnnotationKey :: string where
  "ServiceTenantIDAnnotationKey = ''loadbalancer.kubevirt.io/tenant-id''"

definition ServiceIpTypeAnnotationKey :: string where
  "ServiceIpTypeAnnotationKey = ''loadbalancer.kubevirt.io/ip-type''"

definition HTTPRoutePathAnnotationKey :: string where
  "HTTPRoutePathAnnotationKey = ''kubevirt.io/http-path''"

definition HTTPRouteMethodAnnotationKey :: string where
  "HTTPRouteMethodAnnotationKey = ''kubevirt.io/http-method''"

definition KamajiNameLabelKey :: string where
  "KamajiNameLabelKey = ''kamaji.clastix.io/name''"

definition maxLoadBalancerRetries :: int where
  "maxLoadBalancerRetries = 10"

definition maxLoadBalancerCreateCount :: int where
  "maxLoadBalancerCreateCount = 3"

definition listLoadBalancersPageSize :: int where
  "listLoadBalancersPageSize = 200"

definition LoadBalancerPendingHostname :: string where
  "LoadBalancerPendingHostname = ''pending''"

lemmas lb_keys = LoadBalancerIDAnnotationKey_def LoadBalancerCreateCountAnnotationKey_def
  LoadBalancerListenerHashAnnotationKey_def LoadBalancerInternalIPAnnotationKey_def
  ServiceNetworkIDAnnotationKey_def ServiceSubnetIDAnnotationKey_def ServiceTenantIDAnnotationKey_def
  ServiceIpTypeAnnotationKey_def HTTPRoutePathAnnotationKey_def HTTPRouteMethodAnnotationKey_def
  KamajiNameLabelKey_def

text \<open>
  The four annotations the controller writes and the six it only reads are pairwise different.
\<close>

lemma lb_keys_distinct:
  "distinct [LoadBalancerIDAnnotationKey, LoadBalancerCreateCountAnnotationKey,
    LoadBalancerListenerHashAnnotationKey, LoadBalancerInternalIPAnnotationKey,
    ServiceNetworkIDAnnotationKey, ServiceSubnetIDAnnotationKey, ServiceTenantIDAnnotationKey,
    ServiceIpTypeAnnotationKey, HTTPRoutePathAnnotationKey, HTTPRouteMethodAnnotationKey]"
  by (simp add: lb_keys)

lemma lb_keys_neq [simp]:
  "LoadBalancerIDAnnotationKey \<noteq> LoadBalancerCreateCountAnnotationKey"
  "LoadBalancerIDAnnotationKey \<noteq> LoadBalancerListenerHashAnnotationKey"
  "LoadBalancerIDAnnotationKey \<noteq> LoadBalancerInternalIPAnnotationKey"
  "LoadBalancerCreateCountAnnotationKey \<noteq> LoadBalancerListenerHashAnnotationKey"
  "LoadBalancerCreateCountAnnotationKey \<noteq> LoadBalancerInternalIPAnnotationKey"
  "LoadBalancerListenerHashAnnotationKey \<noteq> LoadBalancerInternalIPAnnotationKey"
  by (simp_all add: lb_keys)

lemmas lb_keys_neq_sym [simp] = lb_keys_neq [THEN not_sym]

definition createDefaultCloudConfig :: CloudConfig where
  "createDefaultCloudConfig =
     \<lparr>cc_Kubeconfig = '''',
      cc_LoadBalancer = \<lparr>lc_Enabled = True,
        lc_CreationPollInterval = Some DefaultLoadBalancerCreatePollInterval,
        lc_CreationPollTimeout = Some DefaultLoadBalancerCreatePollTimeout,
        lc_Selectorless = None, lc_EnableEPSController = None, lc_RPCServerAddr = '''',
        lc_RPCKeepAlive = None, lc_RPCRetryMax = None, lc_NetworkID = '''', lc_SubnetID = '''',
        lc_TenantID = '''', lc_FipNetworkID = '''', lc_IpType = '''',
        lc_OnlyServiceController = False, lc_ApiKey = ''''\<rparr>,
      cc_InstancesV2 = \<lparr>ic_Enabled = True, ic_ZoneAndRegionEnabled = True\<rparr>,
      cc_Namespace = '''', cc_InfraLabels = Map.empty\<rparr>"

section \<open>The load balancer object\<close>

text \<open>
  The struct without its mutable part: the retry counters live in the state, the two Kubernetes
  clients in the environment. \<^term>\<open>None\<close> in \<open>lb_rpcClient\<close> is the nil interface value.
\<close>

record loadbalancer =
  lb_namespace :: string
  lb_config :: LoadBalancerConfig
  lb_rpcClient :: "rpcLBClient option"

definition useAnnotationConfig :: "loadbalancer \<Rightarrow> bool" where
  "useAnnotationConfig lb = lc_OnlyServiceController (lb_config lb)"

definition shouldSkipService :: "loadbalancer \<Rightarrow> Service \<Rightarrow> bool" where
  "shouldSkipService lb service =
     (if \<not> useAnnotationConfig lb then False
      else annot service ServiceNetworkIDAnnotationKey = '''' \<or> annot service ServiceSubnetIDAnnotationKey = '''')"

definition getEffectiveIpType :: "loadbalancer \<Rightarrow> Service \<Rightarrow> string" where
  "getEffectiveIpType lb service =
     (case annots service ServiceIpTypeAnnotationKey of
        Some ipType \<Rightarrow> if ipType \<noteq> '''' then to_lower ipType else to_lower (lc_IpType (lb_config lb))
      | None \<Rightarrow> to_lower (lc_IpType (lb_config lb)))"

definition isFipEnabled :: "loadbalancer \<Rightarrow> Service \<Rightarrow> bool" where
  "isFipEnabled lb service =
     (let ipType = getEffectiveIpType lb service
      in ipType = '''' \<or> ipType = ''external'' \<or> ipType = ''both'')"

definition isInternalMode :: "loadbalancer \<Rightarrow> Service \<Rightarrow> bool" where
  "isInternalMode lb service \<longleftrightarrow> getEffectiveIpType lb service = ''internal''"

definition isBothMode :: "loadbalancer \<Rightarrow> Service \<Rightarrow> bool" where
  "isBothMode lb service \<longleftrightarrow> getEffectiveIpType lb service = ''both''"

definition getNetworkID :: "loadbalancer \<Rightarrow> Service \<Rightarrow> string" where
  "getNetworkID lb service =
     (if useAnnotationConfig lb then annot service ServiceNetworkIDAnnotationKey else lc_NetworkID (lb_config lb))"

definition getSubnetID :: "loadbalancer \<Rightarrow> Service \<Rightarrow> string" where
  "getSubnetID lb service =
     (if useAnnotationConfig lb then annot service ServiceSubnetIDAnnotationKey else lc_SubnetID (lb_config lb))"

definition getTenantID :: "loadbalancer \<Rightarrow> Service \<Rightarrow> string" where
  "getTenantID lb service =
     (if useAnnotationConfig lb then
        (case annots service ServiceTenantIDAnnotationKey of
           Some tid \<Rightarrow> if tid \<noteq> '''' then tid else svc_Namespace service
         | None \<Rightarrow> svc_Namespace service)
      else if lc_TenantID (lb_config lb) \<noteq> '''' then lc_TenantID (lb_config lb)
      else svc_Namespace service)"

text \<open>A load balancer object with the default configuration and an RPC client of the caller's choice.\<close>

definition demo_lb :: "rpcLBClient option \<Rightarrow> loadbalancer" where
  "demo_lb R = \<lparr>lb_namespace = ''infra'',
     lb_config = (cc_LoadBalancer createDefaultCloudConfig)\<lparr>lc_IpType := ''internal''\<rparr>, lb_rpcClient = R\<rparr>"

text \<open>The three IP modes exclude each other; an unknown mode requests no floating IP.\<close>

lemma ip_modes:
  "isBothMode lb service \<Longrightarrow> isFipEnabled lb service"
  "isInternalMode lb service \<Longrightarrow> \<not> isFipEnabled lb service"
  by (simp_all add: isBothMode_def isInternalMode_def isFipEnabled_def)

end
