(* ===== verification/Json.thy ===== *)
theory Json
  imports Go_Prelude
begin

text \<open>
  \<^verbatim>\<open>encoding/json\<close> as far as \<^verbatim>\<open>listenersHashStr\<close> uses it: JSON values, the text
  \<^verbatim>\<open>json.Marshal\<close> prints for them (HTML-safe string escapes, no white space), and
  \<^verbatim>\<open>hex.EncodeToString\<close>. Strings are valid UTF-8, as every string that comes from the API server
  is, so bytes above 127 are copied, except for the two separators U+2028 and U+2029. The main
  result is that the printed text determines the value.
\<close>

section \<open>Strings\<close>

definition hexd :: "nat \<Rightarrow> char" where
  "hexd n = (if n < 10 then char_of (48 + n) else char_of (87 + n))"

definition hex_byte :: "char \<Rightarrow> string" where
  "hex_byte c = [hexd (of_char c div 16), hexd (of_char c mod 16)]"

definition hex_EncodeToString :: "string \<Rightarrow> string" where
  "hex_EncodeToString bs = concat (map hex_byte bs)"

definition esc_char :: "char \<Rightarrow> string" where
  "esc_char c =
     (if c = CHR 0x22 then [CHR 0x5C, CHR 0x22]
      else if c = CHR 0x5C then [CHR 0x5C, CHR 0x5C]
      else if c = CHR 0x08 then [CHR 0x5C, CHR ''b'']
      else if c = CHR 0x0C then [CHR 0x5C, CHR ''f'']
      else if c = CHR 0x0A then [CHR 0x5C, CHR ''n'']
      else if c = CHR 0x0D then [CHR 0x5C, CHR ''r'']
      else if c = CHR 0x09 then [CHR 0x5C, CHR ''t'']
      else if (of_char c :: nat) < 32 \<or> c = CHR ''<'' \<or> c = CHR ''>'' \<or> c = CHR ''&''
      then [CHR 0x5C, CHR ''u'', CHR ''0'', CHR ''0''] @ hex_byte c
      else [c])"

fun esc :: "string \<Rightarrow> string" where
  "esc [] = []"
| "esc (c # cs) =
     (if c = CHR 0xE2 \<and> take 2 cs = [CHR 0x80, CHR 0xA8] then CHR 0x5C # ''u2028'' @ esc (drop 2 cs)
      else if c = CHR 0xE2 \<and> take 2 cs = [CHR 0x80, CHR 0xA9] then CHR 0x5C # ''u2029'' @ esc (drop 2 cs)
      else esc_char c @ esc cs)"

definition json_str :: "string \<Rightarrow> string" where
  "json_str s = CHR 0x22 # esc s @ [CHR 0x22]"

section \<open>Values\<close>

datatype json = JNum int | JStr string | JBool bool | JArr "json list" | JObj "(string \<times> json) list"

fun jprint :: "json \<Rightarrow> string"
  and jelems :: "json list \<Rightarrow> string"
  and jfields :: "(string \<times> json) list \<Rightarrow> string" where
  "jprint (JNum n) = itoa n"
| "jprint (JStr s) = json_str s"
| "jprint (JBool b) = (if b then ''true'' else ''false'')"
| "jprint (JArr js) = CHR ''['' # jelems js @ '']''"
| "jprint (JObj kvs) = CHR ''{'' # jfields kvs @ ''}''"
| "jelems [] = []"
| "jelems (j # js) = jprint j @ (if js = [] then [] else CHR '','' # jelems js)"
| "jfields [] = []"
| "jfields ((k, v) # kvs) = json_str k @ CHR '':'' # jprint v @ (if kvs = [] then [] else CHR '','' # jfields kvs)"

section \<open>Hexadecimal text is decodable\<close>

definition unhexd :: "char \<Rightarrow> nat" where
  "unhexd c = (if (of_char c :: nat) < 58 then of_char c - 48 else of_char c - 87)"

lemma unhexd_hexd [simp]: "n < 16 \<Longrightarrow> unhexd (hexd n) = n"
  by (simp add: unhexd_def hexd_def)

definition unhex_byte :: "string \<Rightarrow> char" where
  "unhex_byte s = char_of (16 * unhexd (s ! 0) + unhexd (s ! 1))"

lemma of_char_less [simp]: "of_char c div 16 < (16::nat)"
  using range_nat_of_char by (auto intro: less_mult_imp_div_less)

lemma unhex_byte_hex [simp]: "unhex_byte (hex_byte c) = c"
  by (simp add: unhex_byte_def hex_byte_def)

lemma length_hex_byte [simp]: "length (hex_byte c) = 2"
  by (simp add: hex_byte_def)

lemma hex_byte_inject [simp]: "hex_byte c = hex_byte d \<longleftrightarrow> c = d"
  by (metis unhex_byte_hex)

lemma hex_EncodeToString_inject: "hex_EncodeToString a = hex_EncodeToString b \<longleftrightarrow> a = b"
proof (induction a arbitrary: b)
  case Nil
  then show ?case by (cases b) (simp_all add: hex_EncodeToString_def hex_byte_def)
next
  case (Cons x a)
  have "hex_byte x @ u = hex_byte y @ v \<longleftrightarrow> x = y \<and> u = v" for y u v
    by (simp add: append_eq_append_conv)
  with Cons show ?case
    by (cases b) (simp_all add: hex_EncodeToString_def hex_byte_def [of x])
qed

section \<open>Escaped strings are decodable\<close>

definition unesc1 :: "char \<Rightarrow> char" where
  "unesc1 d = (if d = CHR ''b'' then CHR 0x08 else if d = CHR ''f'' then CHR 0x0C
     else if d = CHR ''n'' then CHR 0x0A else if d = CHR ''r'' then CHR 0x0D
     else if d = CHR ''t'' then CHR 0x09 else d)"

definition unesc4 :: "string \<Rightarrow> string" where
  "unesc4 h = (if h = ''2028'' then [CHR 0xE2, CHR 0x80, CHR 0xA8]
     else if h = ''2029'' then [CHR 0xE2, CHR 0x80, CHR 0xA9] else [unhex_byte (drop 2 h)])"

definition prep :: "string \<Rightarrow> (string \<times> string) option \<Rightarrow> (string \<times> string) option" where
  "prep p = map_option (\<lambda>(s, r). (p @ s, r))"

function unesc :: "string \<Rightarrow> (string \<times> string) option" where
  "unesc [] = None"
| "unesc (c # cs) =
     (if c = CHR 0x22 then Some ([], cs)
      else if c \<noteq> CHR 0x5C then prep [c] (unesc cs)
      else if take 1 cs = ''u'' then prep (unesc4 (take 4 (drop 1 cs))) (unesc (drop 5 cs))
      else prep [unesc1 (hd cs)] (unesc (drop 1 cs)))"
  by pat_completeness auto
termination
  by (relation "measure length") auto

declare unesc.simps(2) [simp del]

lemma unesc_plain: "c \<noteq> CHR 0x22 \<Longrightarrow> c \<noteq> CHR 0x5C \<Longrightarrow> unesc (c # t) = prep [c] (unesc t)"
  by (simp add: unesc.simps(2))

lemma unesc_short: "d \<noteq> CHR ''u'' \<Longrightarrow> unesc (CHR 0x5C # d # t) = prep [unesc1 d] (unesc t)"
  by (simp add: unesc.simps(2))

lemma unesc_long: "length h = 4 \<Longrightarrow> unesc (CHR 0x5C # CHR ''u'' # h @ t) = prep (unesc4 h) (unesc t)"
  by (simp add: unesc.simps(2))

lemma hex_byte_0: "[CHR ''0'', CHR ''0''] @ hex_byte c \<noteq> ''2028''" "[CHR ''0'', CHR ''0''] @ hex_byte c \<noteq> ''2029''"
  by simp_all

lemma unesc_esc_char: "unesc (esc_char c @ t) = prep [c] (unesc t)"
proof (cases "esc_char c = [CHR 0x5C, CHR ''u'', CHR ''0'', CHR ''0''] @ hex_byte c")
  case True
  then have "unesc (esc_char c @ t) = prep (unesc4 ([CHR ''0'', CHR ''0''] @ hex_byte c)) (unesc t)"
    using unesc_long [of "[CHR ''0'', CHR ''0''] @ hex_byte c" t] by simp
  then show ?thesis by (simp add: unesc4_def)
next
  case False
  then show ?thesis
    by (auto simp: esc_char_def unesc_short unesc1_def intro: unesc_plain split: if_splits)
qed

lemma prep_prep: "prep p (prep q x) = prep (p @ q) x"
  by (cases x) (auto simp: prep_def)

lemma unesc_esc: "unesc (esc s @ CHR 0x22 # r) = Some (s, r)"
proof (induction s rule: esc.induct)
  case 1
  show ?case by (simp add: unesc.simps(2))
next
  case (2 c cs)
  have cs: "cs = x # y # drop 2 cs" if "take 2 cs = [x, y]" for x y
    using that append_take_drop_id [of 2 cs] by simp
  have sep: "unesc (CHR 0x5C # ''u2028'' @ t) = prep [CHR 0xE2, CHR 0x80, CHR 0xA8] (unesc t)"
      "unesc (CHR 0x5C # ''u2029'' @ t) = prep [CHR 0xE2, CHR 0x80, CHR 0xA9] (unesc t)" for t
    using unesc_long [of "''2028''" t] unesc_long [of "''2029''" t] by (simp_all add: unesc4_def)
  consider "c = CHR 0xE2" "take 2 cs = [CHR 0x80, CHR 0xA8]" | "c = CHR 0xE2" "take 2 cs = [CHR 0x80, CHR 0xA9]"
    | "esc (c # cs) = esc_char c @ esc cs" "unesc (esc cs @ CHR 0x22 # r) = Some (cs, r)"
    using "2.IH"(3) by (cases "c = CHR 0xE2"; cases "take 2 cs = [CHR 0x80, CHR 0xA8]"; cases "take 2 cs = [CHR 0x80, CHR 0xA9]") auto
  then show ?case
  proof cases
    case 1
    with "2.IH"(1) sep(1) [of "esc (drop 2 cs) @ CHR 0x22 # r"] cs [OF 1(2)] show ?thesis
      by (simp add: prep_def)
  next
    case 2
    with "2.IH"(2) sep(2) [of "esc (drop 2 cs) @ CHR 0x22 # r"] cs [OF 2(2)] show ?thesis
      by (simp add: prep_def)
  next
    case 3
    then show ?thesis by (simp add: unesc_esc_char prep_def)
  qed
qed

lemma json_str_inject: "json_str s @ r = json_str s' @ r' \<longleftrightarrow> s = s' \<and> r = r'"
proof
  assume "json_str s @ r = json_str s' @ r'"
  then have "unesc (esc s @ CHR 0x22 # r) = unesc (esc s' @ CHR 0x22 # r')"
    by (simp add: json_str_def)
  then show "s = s' \<and> r = r'" by (simp add: unesc_esc)
qed simp

section \<open>Printed values are decodable\<close>

definition delim :: "string \<Rightarrow> bool" where
  "delim r \<longleftrightarrow> r = [] \<or> hd r = CHR '','' \<or> hd r = CHR '']'' \<or> hd r = CHR ''}''"

lemma delim_simps [simp]: "delim []" "delim (CHR '','' # r)" "delim (CHR '']'' # r)" "delim (CHR ''}'' # r)"
  by (simp_all add: delim_def)

lemma itoa_chars: "c \<in> set (itoa n) \<Longrightarrow> is_digit c \<or> c = CHR ''-''"
  using nat_dec_digits by (auto simp: itoa_def list_all_iff split: if_splits)

lemma itoa_append_inject:
  assumes "delim r" "delim r'" "itoa m @ r = itoa n @ r'"
  shows "m = n \<and> r = r'"
proof -
  let ?P = "\<lambda>c. is_digit c \<or> c = CHR ''-''"
  have "takeWhile ?P (itoa k @ q) = itoa k" if "delim q" for k q
    using that itoa_chars [of _ k]
    by (cases q) (auto simp: delim_def is_digit_def takeWhile_append)
  then have "itoa m = itoa n" using assms by metis
  with assms(3) show ?thesis by simp
qed

lemma itoa_hd: "itoa n \<noteq> []" "is_digit (hd (itoa n)) \<or> hd (itoa n) = CHR ''-''"
  by (simp_all add: itoa_def hd_nat_dec)

definition num_start :: "char \<Rightarrow> bool" where
  "num_start c \<longleftrightarrow> is_digit c \<or> c = CHR ''-''"

lemma num_start_simps [simp]:
  "\<not> num_start CHR 0x22" "\<not> num_start CHR ''t''" "\<not> num_start CHR ''f''" "\<not> num_start CHR ''[''"
  "\<not> num_start CHR ''{''" "\<not> num_start CHR '']''" "\<not> num_start CHR ''}''"
  by (simp_all add: num_start_def is_digit_def)

lemma itoa_start: obtains c t where "itoa n = c # t" "num_start c"
  using itoa_hd [of n] by (cases "itoa n") (auto simp: num_start_def)

lemma itoa_append_start: "c # t = itoa n @ r \<Longrightarrow> num_start c"
  by (rule itoa_start [of n]) simp

lemma jprint_start:
  obtains c t where "jprint j = c # t" "c \<noteq> CHR '']''" "c \<noteq> CHR ''}''"
proof (cases j)
  case (JNum n)
  obtain c t where "itoa n = c # t" "num_start c" by (rule itoa_start)
  with JNum show ?thesis by (intro that [of c t]) auto
next
  case (JBool b)
  then show ?thesis by (cases b) (auto intro: that)
qed (auto intro: that simp: json_str_def)

lemma jprint_append_start: "c # t = jprint j @ r \<Longrightarrow> c \<noteq> CHR '']'' \<and> c \<noteq> CHR ''}''"
  by (rule jprint_start [of j]) simp

lemma jprint_inject_aux:
  "\<And>j' r r'. delim r \<Longrightarrow> delim r' \<Longrightarrow> jprint j @ r = jprint j' @ r' \<Longrightarrow> j = j' \<and> r = r'"
  "\<And>js' r r'. jelems js @ CHR '']'' # r = jelems js' @ CHR '']'' # r' \<Longrightarrow> js = js' \<and> r = r'"
  "\<And>kvs' r r'. jfields kvs @ CHR ''}'' # r = jfields kvs' @ CHR ''}'' # r' \<Longrightarrow> kvs = kvs' \<and> r = r'"
proof (induction j and js and kvs rule: jprint_jelems_jfields.induct)
  case (1 n)
  obtain c t where c: "itoa n = c # t" "num_start c" by (rule itoa_start)
  with "1.prems"(3) obtain m where "j' = JNum m"
    by (cases j') (auto simp: json_str_def split: if_splits)
  with 1 show ?case using itoa_append_inject by simp
next
  case (2 s)
  then show ?case
    by (cases j') (auto simp: json_str_inject, (auto simp: json_str_def dest: itoa_append_start split: if_splits))
next
  case (3 b)
  then show ?case
    by (cases j') (auto simp: json_str_def dest: itoa_append_start split: if_splits)
next
  case (4 js)
  from "4.prems"(3) obtain js' where "j' = JArr js'" "jelems js @ CHR '']'' # r = jelems js' @ CHR '']'' # r'"
    by (cases j') (auto simp: json_str_def dest: itoa_append_start split: if_splits)
  with "4.IH" show ?case by simp
next
  case (5 kvs)
  from "5.prems"(3) obtain kvs' where "j' = JObj kvs'" "jfields kvs @ CHR ''}'' # r = jfields kvs' @ CHR ''}'' # r'"
    by (cases j') (auto simp: json_str_def dest: itoa_append_start split: if_splits)
  with "5.IH" show ?case by simp
next
  case 6
  then show ?case
    by (cases js') (auto dest: jprint_append_start)
next
  case (7 j js)
  from "7.prems" obtain k ks where js': "js' = k # ks"
    by (cases js') (auto dest: jprint_append_start [OF sym])
  have "j = k \<and> (if js = [] then [] else CHR '','' # jelems js) @ CHR '']'' # r
      = (if ks = [] then [] else CHR '','' # jelems ks) @ CHR '']'' # r'"
    by (rule "7.IH"(1)) (use "7.prems" js' in auto)
  with "7.IH"(2) js' show ?case by (auto split: if_splits)
next
  case 8
  then show ?case
    by (cases kvs') (auto simp: json_str_def)
next
  case (9 k v kvs)
  from "9.prems" obtain k' v' ks where kvs': "kvs' = (k', v') # ks"
    by (cases kvs') (auto simp: json_str_def)
  from "9.prems" kvs' have kk: "k = k'" and
    rest: "jprint v @ (if kvs = [] then [] else CHR '','' # jfields kvs) @ CHR ''}'' # r
      = jprint v' @ (if ks = [] then [] else CHR '','' # jfields ks) @ CHR ''}'' # r'"
    by (auto simp: json_str_inject)
  have "v = v' \<and> (if kvs = [] then [] else CHR '','' # jfields kvs) @ CHR ''}'' # r
      = (if ks = [] then [] else CHR '','' # jfields ks) @ CHR ''}'' # r'"
    by (rule "9.IH"(1)) (use rest in auto)
  with "9.IH"(2) kvs' kk show ?case by (auto split: if_splits)
qed

lemma jprint_inject [simp]: "jprint j = jprint j' \<longleftrightarrow> j = j'"
  using jprint_inject_aux(1) [of "[]" "[]" j j'] by auto

end
