(* ===== verification/Listener_Hash.thy ===== *)
theory Listener_Hash
  imports Provider_Config Json
begin

text \<open>
  The fingerprint of a listener configuration (\<^verbatim>\<open>listenersHashStr\<close> and \<^verbatim>\<open>configChanged\<close> of
  \<^verbatim>\<open>pkg/provider/loadbalancer.go\<close>): what \<^verbatim>\<open>json.Marshal\<close> makes of the generated message
  structs, whose tags all say \<^verbatim>\<open>omitempty\<close>, the SHA-256 of that text, and the comparison with
  the annotation. The main result is that, up to SHA-256 collisions, the fingerprint misses no
  change of any field.
\<close>

section \<open>Encoding with omitempty\<close>

text \<open>
  A struct prints its fields in order, leaving out the empty ones: zero numbers, empty strings,
  \<^verbatim>\<open>false\<close>, nil pointers and empty slices.
\<close>

definition present :: "(string \<times> json option) list \<Rightarrow> (string \<times> json) list" where
  "present fs = concat (map (\<lambda>(k, v). case v of None \<Rightarrow> [] | Some j \<Rightarrow> [(k, j)]) fs)"

definition jint :: "int \<Rightarrow> json option" where
  "jint i = (if i = 0 then None else Some (JNum i))"

definition jstr :: "string \<Rightarrow> json option" where
  "jstr s = (if s = '''' then None else Some (JStr s))"

definition jbool :: "bool \<Rightarrow> json option" where
  "jbool b = (if b then Some (JBool True) else None)"

definition jarr :: "('a \<Rightarrow> json) \<Rightarrow> 'a list \<Rightarrow> json option" where
  "jarr f xs = (if xs = [] then None else Some (JArr (map f xs)))"

lemma present_Cons:
  "present ((k, v) # fs) = (case v of None \<Rightarrow> present fs | Some j \<Rightarrow> (k, j) # present fs)"
  by (simp add: present_def split: option.split)

lemma present_keys: "(k, j) \<in> set (present fs) \<Longrightarrow> k \<in> set (map fst fs)"
  by (force simp: present_def split: option.splits)

text \<open>With the field names fixed and different, the printed fields determine all values.\<close>

lemma present_inject:
  assumes "map fst fs = map fst gs" "distinct (map fst fs)"
  shows "present fs = present gs \<longleftrightarrow> map snd fs = map snd gs"
  using assms
proof (induction fs gs rule: list_induct2')
  case (4 f fs g gs)
  obtain k v w where fg: "f = (k, v)" "g = (k, w)" using 4 by (cases f, cases g) auto
  have no: "(k, j) # rest \<noteq> present fs" "(k, j) # rest \<noteq> present gs" for j rest
    using 4 fg present_keys [of k j fs] present_keys [of k j gs] by (metis list.set_intros(1) distinct.simps(2) fst_conv list.map(2))+
  show ?case
    using 4 fg no no [THEN not_sym] by (auto simp: present_Cons split: option.split)
qed simp_all

lemma j_inject [simp]:
  "jint i = jint i' \<longleftrightarrow> i = i'" "jstr s = jstr s' \<longleftrightarrow> s = s'" "jbool b = jbool b' \<longleftrightarrow> b = b'"
  by (auto simp: jint_def jstr_def jbool_def)

lemma jarr_inject:
  assumes "\<And>x y. x \<in> set xs \<Longrightarrow> y \<in> set ys \<Longrightarrow> f x = f y \<Longrightarrow> x = y"
  shows "jarr f xs = jarr f ys \<longleftrightarrow> xs = ys"
proof
  assume "jarr f xs = jarr f ys"
  then have "map f xs = map f ys" by (simp add: jarr_def split: if_splits)
  then show "xs = ys" using assms by (rule list.inj_map_strong [rotated])
qed simp

section \<open>Enumeration numbers\<close>

text \<open>Enumerations are \<^verbatim>\<open>int32\<close> values without a \<^verbatim>\<open>MarshalJSON\<close> method, so they print as numbers.\<close>

fun Algorithm_num :: "Algorithm \<Rightarrow> int" where
  "Algorithm_num ALGORITHM_UNSPECIFIED = 0"
| "Algorithm_num ALGORITHM_ROUND_ROBIN = 1"
| "Algorithm_num ALGORITHM_LEAST_REQUEST = 2"
| "Algorithm_num ALGORITHM_RANDOM = 3"
| "Algorithm_num ALGORITHM_CONSISTENT_HASH = 4"

fun Protocol_num :: "Protocol \<Rightarrow> int" where
  "Protocol_num PROTOCOL_UNSPECIFIED = 0"
| "Protocol_num PROTOCOL_TCP = 1"
| "Protocol_num PROTOCOL_UDP = 2"
| "Protocol_num PROTOCOL_HTTP = 3"
| "Protocol_num (PROTOCOL_unrecognized n) = n"

fun HttpPathType_num :: "HttpPathType \<Rightarrow> int" where
  "HttpPathType_num HTTP_PATH_TYPE_UNSPECIFIED = 0"
| "HttpPathType_num HTTP_PATH_TYPE_EXACT = 1"
| "HttpPathType_num HTTP_PATH_TYPE_PREFIX = 2"
| "HttpPathType_num HTTP_PATH_TYPE_REGEX = 3"

fun HttpMethod_num :: "HttpMethod \<Rightarrow> int" where
  "HttpMethod_num HTTP_METHOD_UNSPECIFIED = 0"
| "HttpMethod_num HTTP_METHOD_GET = 1"
| "HttpMethod_num HTTP_METHOD_POST = 2"
| "HttpMethod_num HTTP_METHOD_PUT = 3"
| "HttpMethod_num HTTP_METHOD_DELETE = 4"
| "HttpMethod_num HTTP_METHOD_PATCH = 5"
| "HttpMethod_num HTTP_METHOD_HEAD = 6"
| "HttpMethod_num HTTP_METHOD_OPTIONS = 7"

fun HeaderMatchType_num :: "HeaderMatchType \<Rightarrow> int" where
  "HeaderMatchType_num HEADER_MATCH_TYPE_UNSPECIFIED = 0"
| "HeaderMatchType_num HEADER_MATCH_TYPE_EXACT = 1"
| "HeaderMatchType_num HEADER_MATCH_TYPE_REGEX = 2"

fun QueryParamMatchType_num :: "QueryParamMatchType \<Rightarrow> int" where
  "QueryParamMatchType_num QUERY_PARAM_MATCH_TYPE_UNSPECIFIED = 0"
| "QueryParamMatchType_num QUERY_PARAM_MATCH_TYPE_EXACT = 1"
| "QueryParamMatchType_num QUERY_PARAM_MATCH_TYPE_REGEX = 2"

lemma enum_num_inject [simp]:
  "Algorithm_num a = Algorithm_num a' \<longleftrightarrow> a = a'"
  "HttpPathType_num t = HttpPathType_num t' \<longleftrightarrow> t = t'"
  "HttpMethod_num m = HttpMethod_num m' \<longleftrightarrow> m = m'"
  "HeaderMatchType_num h = HeaderMatchType_num h' \<longleftrightarrow> h = h'"
  "QueryParamMatchType_num q = QueryParamMatchType_num q' \<longleftrightarrow> q = q'"
      apply (cases a; cases a'; simp)
     apply (cases t; cases t'; simp)
    apply (cases m; cases m'; simp)
   apply (cases h; cases h'; simp)
  apply (cases q; cases q'; simp)
  done

definition known_protocol :: "Listener \<Rightarrow> bool" where
  "known_protocol l = (case l_Protocol l of PROTOCOL_unrecognized _ \<Rightarrow> False | _ \<Rightarrow> True)"

lemma Protocol_num_inject:
  "known_protocol l \<Longrightarrow> known_protocol l' \<Longrightarrow>
   Protocol_num (l_Protocol l) = Protocol_num (l_Protocol l') \<longleftrightarrow> l_Protocol l = l_Protocol l'"
  by (cases "l_Protocol l"; cases "l_Protocol l'"; simp add: known_protocol_def)

section \<open>Messages\<close>

definition json_BackendRef :: "BackendRef \<Rightarrow> json" where
  "json_BackendRef b = JObj (present [(''ip'', jstr (br_Ip b)), (''port'', jint (br_Port b))])"

definition json_HttpPathMatch :: "HttpPathMatch \<Rightarrow> json" where
  "json_HttpPathMatch p = JObj (present [
     (''type'', jint (HttpPathType_num (pm_Type p))), (''value'', jstr (pm_Value p))])"

definition json_HttpHeaderMatch :: "HttpHeaderMatch \<Rightarrow> json" where
  "json_HttpHeaderMatch h = JObj (present [
     (''name'', jstr (hm_Name h)), (''value'', jstr (hm_Value h)),
     (''type'', jint (HeaderMatchType_num (hm_Type h)))])"

definition json_HttpQueryParamMatch :: "HttpQueryParamMatch \<Rightarrow> json" where
  "json_HttpQueryParamMatch q = JObj (present [
     (''name'', jstr (qm_Name q)), (''value'', jstr (qm_Value q)),
     (''type'', jint (QueryParamMatchType_num (qm_Type q)))])"

definition json_HttpRouteMatch :: "HttpRouteMatch \<Rightarrow> json" where
  "json_HttpRouteMatch m = JObj (present [
     (''path'', map_option json_HttpPathMatch (rm_Path m)),
     (''headers'', jarr json_HttpHeaderMatch (rm_Headers m)),
     (''query_params'', jarr json_HttpQueryParamMatch (rm_QueryParams m)),
     (''method'', jint (HttpMethod_num (rm_Method m)))])"

definition json_RuleBackend :: "RuleBackend \<Rightarrow> json" where
  "json_RuleBackend b = JObj (present [
     (''id'', jstr (rb_Id b)), (''name'', jstr (rb_Name b)), (''weight'', jint (rb_Weight b)),
     (''endpoints'', jarr json_BackendRef (rb_Endpoints b))])"

definition json_HealthMonitor :: "HealthMonitor \<Rightarrow> json" where
  "json_HealthMonitor h = JObj (present [
     (''interval'', jint (mon_Interval h)), (''timeout'', jint (mon_Timeout h)),
     (''unhealthy_threshold'', jint (mon_UnhealthyThreshold h)),
     (''healthy_threshold'', jint (mon_HealthyThreshold h)),
     (''http_health_check_path'', jstr (mon_HttpHealthCheckPath h)),
     (''http_health_check_method'', jint (HttpMethod_num (mon_HttpHealthCheckMethod h))),
     (''expected_status_codes'', jarr JNum (mon_ExpectedStatusCodes h))])"

definition json_ListenerRule :: "ListenerRule \<Rightarrow> json" where
  "json_ListenerRule r = JObj (present [
     (''id'', jstr (lr_Id r)), (''listener_id'', jstr (lr_ListenerId r)),
     (''priority'', jint (lr_Priority r)),
     (''matches'', jarr json_HttpRouteMatch (lr_Matches r)),
     (''backends'', jarr json_RuleBackend (lr_Backends r)),
     (''algorithm'', jint (Algorithm_num (lr_Algorithm r))),
     (''health_monitor'', map_option json_HealthMonitor (lr_HealthMonitor r))])"

definition json_Listener :: "Listener \<Rightarrow> json" where
  "json_Listener l = JObj (present [
     (''port'', jint (l_Port l)), (''protocol'', jint (Protocol_num (l_Protocol l))),
     (''id'', jstr (l_Id l)), (''tls_enabled'', jbool (l_TlsEnabled l)),
     (''tls_cert'', jstr (l_TlsCert l)), (''tls_key'', jstr (l_TlsKey l)),
     (''rules'', jarr json_ListenerRule (l_Rules l)),
     (''hostnames'', jarr JStr (l_Hostnames l)),
     (''load_balancer_id'', jstr (l_LoadBalancerId l))])"

lemmas json_message_defs = json_BackendRef_def json_HttpPathMatch_def json_HttpHeaderMatch_def
  json_HttpQueryParamMatch_def json_HttpRouteMatch_def json_RuleBackend_def json_HealthMonitor_def
  json_ListenerRule_def json_Listener_def

definition json_listeners :: "Listener list \<Rightarrow> string" where
  "json_listeners ls = jprint (JArr (map json_Listener ls))"

definition listenersHashStr :: "env \<Rightarrow> Listener list \<Rightarrow> string" where
  "listenersHashStr e listeners = hex_EncodeToString (env_sha256 e (json_listeners listeners))"

definition configChanged :: "env \<Rightarrow> Service \<Rightarrow> Listener list \<Rightarrow> bool" where
  "configChanged e service listeners \<longleftrightarrow>
     annot service LoadBalancerListenerHashAnnotationKey \<noteq> listenersHashStr e listeners"

section \<open>The encoding is injective\<close>

lemma jarr_inject_all [simp]:
  assumes "\<And>x y. f x = f y \<longleftrightarrow> x = y"
  shows "jarr f xs = jarr f ys \<longleftrightarrow> xs = ys"
  using assms by (intro jarr_inject) blast

lemma map_option_inject: "(\<And>x y. f x = f y \<longleftrightarrow> x = y) \<Longrightarrow> map_option f a = map_option f b \<longleftrightarrow> a = b"
  by (cases a; cases b) auto

lemma json_leaf_inject [simp]:
  "json_BackendRef b = json_BackendRef b' \<longleftrightarrow> b = b'"
  "json_HttpPathMatch p = json_HttpPathMatch p' \<longleftrightarrow> p = p'"
  "json_HttpHeaderMatch h = json_HttpHeaderMatch h' \<longleftrightarrow> h = h'"
  "json_HttpQueryParamMatch q = json_HttpQueryParamMatch q' \<longleftrightarrow> q = q'"
  "json_HealthMonitor m = json_HealthMonitor m' \<longleftrightarrow> m = m'"
  by (auto simp: json_message_defs present_inject intro!: BackendRef.equality HttpPathMatch.equality
      HttpHeaderMatch.equality HttpQueryParamMatch.equality HealthMonitor.equality)

lemma json_inner_inject [simp]:
  "json_HttpRouteMatch r = json_HttpRouteMatch r' \<longleftrightarrow> r = r'"
  "json_RuleBackend b = json_RuleBackend b' \<longleftrightarrow> b = b'"
  by (auto simp: json_HttpRouteMatch_def json_RuleBackend_def present_inject map_option_inject
      intro!: HttpRouteMatch.equality RuleBackend.equality)

lemma json_ListenerRule_inject [simp]: "json_ListenerRule r = json_ListenerRule r' \<longleftrightarrow> r = r'"
  by (auto simp: json_ListenerRule_def present_inject map_option_inject intro!: ListenerRule.equality)

lemma json_Listener_inject:
  "known_protocol l \<Longrightarrow> known_protocol l' \<Longrightarrow> json_Listener l = json_Listener l' \<longleftrightarrow> l = l'"
  by (auto simp: json_Listener_def present_inject Protocol_num_inject intro!: Listener.equality)

lemma json_listeners_inject:
  assumes "list_all known_protocol ls" "list_all known_protocol ls'"
  shows "json_listeners ls = json_listeners ls' \<longleftrightarrow> ls = ls'"
proof
  assume "json_listeners ls = json_listeners ls'"
  then have "map json_Listener ls = map json_Listener ls'"
    unfolding json_listeners_def jprint_inject json.inject .
  then show "ls = ls'"
    using assms json_Listener_inject
    by (intro list.inj_map_strong [of ls ls' json_Listener json_Listener]) (auto simp: list_all_iff)
qed simp

lemma listenersHashStr_inject:
  assumes "list_all known_protocol ls" "list_all known_protocol ls'"
    and "env_sha256 e (json_listeners ls) = env_sha256 e (json_listeners ls') \<Longrightarrow>
         json_listeners ls = json_listeners ls'"
  shows "listenersHashStr e ls = listenersHashStr e ls' \<longleftrightarrow> ls = ls'"
  using assms json_listeners_inject by (auto simp: listenersHashStr_def hex_EncodeToString_inject)

end
