(* ===== verification/LB_Listeners.thy ===== *)
theory LB_Listeners
  imports Listener_Hash "HOL-Library.Product_Lexorder"
begin

text \<open>
  From a Service and a node list to the listeners of a load balancer (\<^verbatim>\<open>buildListeners\<close>,
  \<^verbatim>\<open>buildEndpoints\<close> and what they call in \<^verbatim>\<open>pkg/provider/loadbalancer.go\<close>), the check before
  sending them (\<^verbatim>\<open>validateListeners\<close>) and the grafting of server identifiers onto an update
  (\<^verbatim>\<open>mergeListenerIDs\<close>). The properties: the result does not depend on the order of nodes, is
  what the API accepts, and an update keeps the identity of everything that stays.
\<close>

section \<open>Constants\<close>

definition defaultHealthMonitorInterval :: int where "defaultHealthMonitorInterval = 10"
definition defaultHealthMonitorTimeout :: int where "defaultHealthMonitorTimeout = 5"
definition defaultHealthMonitorUnhealthy :: int where "defaultHealthMonitorUnhealthy = 3"
definition defaultHealthMonitorHealthy :: int where "defaultHealthMonitorHealthy = 2"
definition defaultHealthCheckPath :: string where "defaultHealthCheckPath = ''/''"
definition defaultClientConnLimit :: int where "defaultClientConnLimit = 0"
definition defaultAlgorithm :: Algorithm where "defaultAlgorithm = ALGORITHM_ROUND_ROBIN"
definition defaultBackendName :: string where "defaultBackendName = ''default''"
definition defaultBackendWeight :: int where "defaultBackendWeight = 1"

lemmas listener_defaults = defaultHealthMonitorInterval_def defaultHealthMonitorTimeout_def
  defaultHealthMonitorUnhealthy_def defaultHealthMonitorHealthy_def defaultHealthCheckPath_def
  defaultAlgorithm_def defaultBackendName_def defaultBackendWeight_def

section \<open>Endpoints\<close>

fun defaultInterfaceIP :: "NetworkInterface list \<Rightarrow> string" where
  "defaultInterfaceIP [] = ''''"
| "defaultInterfaceIP (iface # ifs) =
     (if if_Name iface \<noteq> ''default'' then defaultInterfaceIP ifs
      else case find isUsableNodeIP (if_IPs iface) of
             Some ip \<Rightarrow> ip
           | None \<Rightarrow> if isUsableNodeIP (if_IP iface) then if_IP iface else '''')"

definition vmi_refs :: "ServicePort \<Rightarrow> VirtualMachineInstance list \<Rightarrow> BackendRef list" where
  "vmi_refs port items =
     concat (map (\<lambda>vmi. let ip = defaultInterfaceIP (vmi_Interfaces vmi)
                        in if ip \<noteq> '''' then [\<lparr>br_Ip = ip, br_Port = port_NodePort port\<rparr>] else []) items)"

definition buildEndpointsFromVMI ::
  "env \<Rightarrow> loadbalancer \<Rightarrow> ServicePort \<Rightarrow> string \<Rightarrow> (st, BackendRef list) go" where
  "buildEndpointsFromVMI e lb port clusterName =
     (let vmiLabels = [(TenantNodeRoleLabelKey, ''worker''), (TenantClusterNameLabelKey, clusterName)]
      in go_bind (ask_call (\<lambda>s. env_ListVMIs e s (lb_namespace lb) vmiLabels)
                           (CListVMIs (lb_namespace lb) vmiLabels)) (\<lambda>r.
           case r of
             Inl err \<Rightarrow> go_ret []
           | Inr items \<Rightarrow> go_ret (vmi_refs port items)))"

text \<open>
  \<^verbatim>\<open>normalizeEndpoints\<close>: the first occurrence of each \<^verbatim>\<open>ip:port\<close> text is kept. The keys of
  what is left differ, so \<^verbatim>\<open>sort.Slice\<close>, which is not stable, has only one possible result.
\<close>

definition endpointKey :: "BackendRef \<Rightarrow> string" where
  "endpointKey b = br_Ip b @ CHR '':'' # itoa (br_Port b)"

fun uniqueEndpoints :: "string set \<Rightarrow> BackendRef list \<Rightarrow> BackendRef list" where
  "uniqueEndpoints seen [] = []"
| "uniqueEndpoints seen (b # bs) =
     (if endpointKey b \<in> seen then uniqueEndpoints seen bs
      else b # uniqueEndpoints (insert (endpointKey b) seen) bs)"

definition endpointOrder :: "BackendRef \<Rightarrow> string \<times> int" where
  "endpointOrder b = (br_Ip b, br_Port b)"

definition normalizeEndpoints :: "BackendRef list \<Rightarrow> BackendRef list" where
  "normalizeEndpoints endpoints = sort_key endpointOrder (uniqueEndpoints {} endpoints)"

definition nodeEndpoints :: "string \<Rightarrow> ServicePort \<Rightarrow> Node list \<Rightarrow> BackendRef list" where
  "nodeEndpoints addrType port nodes =
     concat (map (\<lambda>node. map (\<lambda>addr. \<lparr>br_Ip = addr_Address addr, br_Port = port_NodePort port\<rparr>)
       (filter (\<lambda>addr. addr_Type addr = addrType \<and> isUsableNodeIP (addr_Address addr)) (node_Addresses node))) nodes)"

definition buildEndpoints ::
  "env \<Rightarrow> loadbalancer \<Rightarrow> ServicePort \<Rightarrow> Node list \<Rightarrow> string \<Rightarrow> (st, BackendRef list) go" where
  "buildEndpoints e lb port nodes clusterName =
     (let internal = nodeEndpoints ''InternalIP'' port nodes;
          fromNodes = (if internal = [] then nodeEndpoints ''ExternalIP'' port nodes else internal)
      in go_bind (if fromNodes = [] \<and> clusterName \<noteq> '''' then buildEndpointsFromVMI e lb port clusterName
                  else go_ret fromNodes)
           (\<lambda>endpoints. go_ret (normalizeEndpoints endpoints)))"

section \<open>Listeners\<close>

definition listenerProtocol :: "Service \<Rightarrow> ServicePort \<Rightarrow> Protocol" where
  "listenerProtocol service port =
     (if port_Protocol port = ''UDP'' then PROTOCOL_UDP
      else if annots service HTTPRoutePathAnnotationKey \<noteq> None then PROTOCOL_HTTP
      else PROTOCOL_TCP)"

definition parseHTTPMethod :: "string \<Rightarrow> HttpMethod" where
  "parseHTTPMethod method =
     (let m = to_upper method
      in if m = ''GET'' then HTTP_METHOD_GET
         else if m = ''POST'' then HTTP_METHOD_POST
         else if m = ''PUT'' then HTTP_METHOD_PUT
         else if m = ''DELETE'' then HTTP_METHOD_DELETE
         else if m = ''PATCH'' then HTTP_METHOD_PATCH
         else if m = ''HEAD'' then HTTP_METHOD_HEAD
         else if m = ''OPTIONS'' then HTTP_METHOD_OPTIONS
         else HTTP_METHOD_GET)"

text \<open>The rule of one listener, given its endpoints; the HTTP branch reads the two route annotations.\<close>

definition httpMatches :: "Service \<Rightarrow> HttpRouteMatch list" where
  "httpMatches service =
     (let path = annot service HTTPRoutePathAnnotationKey;
          httpMethod = annot service HTTPRouteMethodAnnotationKey
      in if path = '''' \<and> httpMethod = '''' then []
         else [\<lparr>rm_Path = (if path = '''' then None
                           else Some \<lparr>pm_Type = HTTP_PATH_TYPE_PREFIX, pm_Value = path\<rparr>),
                rm_Headers = [], rm_QueryParams = [],
                rm_Method = (if httpMethod = '''' then HTTP_METHOD_UNSPECIFIED else parseHTTPMethod httpMethod)\<rparr>])"

definition httpMonitor :: "Service \<Rightarrow> HealthMonitor" where
  "httpMonitor service =
     (let path = annot service HTTPRoutePathAnnotationKey;
          httpMethod = annot service HTTPRouteMethodAnnotationKey
      in \<lparr>mon_Interval = defaultHealthMonitorInterval, mon_Timeout = defaultHealthMonitorTimeout,
          mon_UnhealthyThreshold = defaultHealthMonitorUnhealthy, mon_HealthyThreshold = defaultHealthMonitorHealthy,
          mon_HttpHealthCheckPath = (if path = '''' then defaultHealthCheckPath else path),
          mon_HttpHealthCheckMethod = (if httpMethod = '''' then HTTP_METHOD_GET else parseHTTPMethod httpMethod),
          mon_ExpectedStatusCodes = [200]\<rparr>)"

definition streamMonitor :: HealthMonitor where
  "streamMonitor =
     \<lparr>mon_Interval = defaultHealthMonitorInterval, mon_Timeout = defaultHealthMonitorTimeout,
      mon_UnhealthyThreshold = defaultHealthMonitorUnhealthy, mon_HealthyThreshold = defaultHealthMonitorHealthy,
      mon_HttpHealthCheckPath = '''', mon_HttpHealthCheckMethod = HTTP_METHOD_UNSPECIFIED,
      mon_ExpectedStatusCodes = []\<rparr>"

definition buildRule :: "Service \<Rightarrow> Protocol \<Rightarrow> BackendRef list \<Rightarrow> ListenerRule" where
  "buildRule service protocol endpoints =
     \<lparr>lr_Id = '''', lr_ListenerId = '''', lr_Priority = 0,
      lr_Matches = (if protocol = PROTOCOL_HTTP then httpMatches service else []),
      lr_Backends = [\<lparr>rb_Id = '''', rb_Name = defaultBackendName, rb_Weight = defaultBackendWeight,
                      rb_Endpoints = endpoints\<rparr>],
      lr_Algorithm = defaultAlgorithm,
      lr_HealthMonitor = Some (if protocol = PROTOCOL_HTTP then httpMonitor service else streamMonitor)\<rparr>"

definition buildListener :: "Service \<Rightarrow> ServicePort \<Rightarrow> BackendRef list \<Rightarrow> Listener" where
  "buildListener service port endpoints =
     (let protocol = listenerProtocol service port
      in \<lparr>l_Port = port_Port port, l_Protocol = protocol, l_Id = '''', l_TlsEnabled = False,
          l_TlsCert = '''', l_TlsKey = '''', l_Rules = [buildRule service protocol endpoints],
          l_Hostnames = [], l_LoadBalancerId = ''''\<rparr>)"

primrec buildPorts ::
  "env \<Rightarrow> loadbalancer \<Rightarrow> Service \<Rightarrow> Node list \<Rightarrow> string \<Rightarrow> ServicePort list \<Rightarrow> (st, Listener list) go" where
  "buildPorts e lb service nodes clusterName [] = go_ret []"
| "buildPorts e lb service nodes clusterName (port # ports) =
     go_bind (buildEndpoints e lb port nodes clusterName) (\<lambda>endpoints.
     go_bind (buildPorts e lb service nodes clusterName ports) (\<lambda>listeners.
       go_ret (buildListener service port endpoints # listeners)))"

definition buildListeners ::
  "env \<Rightarrow> loadbalancer \<Rightarrow> Service \<Rightarrow> Node list \<Rightarrow> string \<Rightarrow> (st, Listener list) go" where
  "buildListeners e lb service nodes clusterName =
     buildPorts e lb service nodes clusterName (svc_Ports service)"

definition lacksEndpoints :: "Listener \<Rightarrow> bool" where
  "lacksEndpoints l = list_ex (\<lambda>rule. list_ex (\<lambda>backend. rb_Endpoints backend = []) (lr_Backends rule)) (l_Rules l)"

definition validateListeners :: "Listener list \<Rightarrow> goerror option" where
  "validateListeners listeners =
     (if listeners = [] then Some (ErrText ''service has no ports to load balance'')
      else case find lacksEndpoints listeners of
             None \<Rightarrow> None
           | Some l \<Rightarrow> Some (ErrText (''no backend endpoints available for port '' @ itoa (l_Port l)
               @ ''; no node addresses and no matching VMI IPs were found'')))"

section \<open>Merging identifiers\<close>

definition listenerKey :: "Listener \<Rightarrow> string" where
  "listenerKey l = itoa (l_Port l) @ CHR ''/'' # Protocol_String (l_Protocol l)"

definition existingListeners :: "Listener option list \<Rightarrow> (string \<rightharpoonup> Listener)" where
  "existingListeners current =
     foldl (\<lambda>m l. case l of None \<Rightarrow> m | Some x \<Rightarrow> m(listenerKey x \<mapsto> x)) Map.empty current"

definition mergeOne :: "Listener option \<Rightarrow> Listener \<Rightarrow> Listener" where
  "mergeOne have want =
     (case have of
        None \<Rightarrow> want
      | Some h \<Rightarrow>
          let clone = want\<lparr>l_Id := l_Id h\<rparr>
          in (case (l_Rules want, l_Rules h) of
                ([wantRule], [haveRule]) \<Rightarrow>
                  let rule = wantRule\<lparr>lr_Id := lr_Id haveRule\<rparr>
                  in (case (lr_Backends wantRule, lr_Backends haveRule) of
                        ([wb], [hb]) \<Rightarrow> clone\<lparr>l_Rules := [rule\<lparr>lr_Backends := [wb\<lparr>rb_Id := rb_Id hb\<rparr>]\<rparr>]\<rparr>
                      | _ \<Rightarrow> clone\<lparr>l_Rules := [rule]\<rparr>)
              | _ \<Rightarrow> clone))"

definition mergeListenerIDs :: "Listener list \<Rightarrow> Listener option list \<Rightarrow> Listener list" where
  "mergeListenerIDs desired current =
     (if desired = [] then desired
      else let existing = existingListeners current
           in map (\<lambda>want. mergeOne (existing (listenerKey want)) want) desired)"

section \<open>Endpoints are a canonical form\<close>

lemma endpointKey_inject [simp]: "endpointKey b = endpointKey b' \<longleftrightarrow> b = b'"
  by (auto simp: endpointKey_def dest!: sep_key_inject intro!: BackendRef.equality)

lemma endpointOrder_inject [simp]: "endpointOrder b = endpointOrder b' \<longleftrightarrow> b = b'"
  by (auto simp: endpointOrder_def intro!: BackendRef.equality)

lemma inj_endpointOrder: "inj_on endpointOrder A"
  by (simp add: inj_on_def)

lemma uniqueEndpoints_set: "set (uniqueEndpoints seen bs) = {b \<in> set bs. endpointKey b \<notin> seen}"
  by (induction bs arbitrary: seen) auto

lemma uniqueEndpoints_distinct: "distinct (uniqueEndpoints seen bs)"
  by (induction bs arbitrary: seen) (auto simp: uniqueEndpoints_set)

lemma normalizeEndpoints_set [simp]: "set (normalizeEndpoints bs) = set bs"
  by (simp add: normalizeEndpoints_def uniqueEndpoints_set)

lemma normalizeEndpoints_distinct: "distinct (map endpointOrder (normalizeEndpoints bs))"
  by (simp add: normalizeEndpoints_def distinct_map uniqueEndpoints_distinct inj_endpointOrder)

lemma normalizeEndpoints_sorted: "sorted (map endpointOrder (normalizeEndpoints bs))"
  by (simp add: normalizeEndpoints_def)

lemma normalizeEndpoints_canonical:
  assumes "set bs = set bs'"
  shows "normalizeEndpoints bs = normalizeEndpoints bs'"
proof -
  have "map endpointOrder (normalizeEndpoints bs) = map endpointOrder (normalizeEndpoints bs')"
    using assms by (intro sorted_distinct_set_unique normalizeEndpoints_sorted normalizeEndpoints_distinct) simp
  then show ?thesis by (rule map_injective) (simp add: inj_def)
qed

lemma normalizeEndpoints_length: "length (normalizeEndpoints bs) \<le> length bs"
proof -
  have "length (uniqueEndpoints seen bs) \<le> length bs" for seen
    by (induction bs arbitrary: seen) (auto intro: le_SucI)
  then show ?thesis by (simp add: normalizeEndpoints_def)
qed

section \<open>What the endpoints are\<close>

definition nodeAddresses :: "Node list \<Rightarrow> NodeAddress set" where
  "nodeAddresses nodes = (\<Union>n \<in> set nodes. set (node_Addresses n))"

lemma nodeEndpoints_set:
  "set (nodeEndpoints ty port nodes) =
     (\<lambda>addr. \<lparr>br_Ip = addr_Address addr, br_Port = port_NodePort port\<rparr>) `
       {addr \<in> nodeAddresses nodes. addr_Type addr = ty \<and> isUsableNodeIP (addr_Address addr)}"
  by (auto simp: nodeEndpoints_def nodeAddresses_def)

lemma nodeEndpoints_cong:
  assumes "nodeAddresses nodes = nodeAddresses nodes'"
  shows "set (nodeEndpoints ty port nodes) = set (nodeEndpoints ty port nodes')"
    and "nodeEndpoints ty port nodes = [] \<longleftrightarrow> nodeEndpoints ty port nodes' = []"
proof -
  show "set (nodeEndpoints ty port nodes) = set (nodeEndpoints ty port nodes')"
    by (simp add: nodeEndpoints_set assms)
  then show "nodeEndpoints ty port nodes = [] \<longleftrightarrow> nodeEndpoints ty port nodes' = []"
    by (metis set_empty)
qed

lemma buildEndpoints_cong:
  assumes eq: "nodeAddresses nodes = nodeAddresses nodes'"
  shows "buildEndpoints e lb port nodes clusterName = buildEndpoints e lb port nodes' clusterName"
proof -
  define f where "f = (\<lambda>ns. if nodeEndpoints ''InternalIP'' port ns = [] then nodeEndpoints ''ExternalIP'' port ns
    else nodeEndpoints ''InternalIP'' port ns)"
  have "set (f nodes) = set (f nodes')" "f nodes = [] \<longleftrightarrow> f nodes' = []"
    using nodeEndpoints_cong [OF eq] by (auto simp: f_def)
  moreover from this have "normalizeEndpoints (f nodes) = normalizeEndpoints (f nodes')"
    by (intro normalizeEndpoints_canonical)
  moreover have "buildEndpoints e lb port ns clusterName =
      go_bind (if f ns = [] \<and> clusterName \<noteq> '''' then buildEndpointsFromVMI e lb port clusterName else go_ret (f ns))
        (\<lambda>endpoints. go_ret (normalizeEndpoints endpoints))" for ns
    by (simp add: buildEndpoints_def f_def Let_def)
  ultimately show ?thesis by (simp add: fun_eq_iff)
qed

lemma buildPorts_cong:
  assumes "nodeAddresses nodes = nodeAddresses nodes'"
  shows "buildPorts e lb service nodes clusterName ports = buildPorts e lb service nodes' clusterName ports"
  by (induction ports) (simp_all only: buildPorts.simps buildEndpoints_cong [OF assms])

lemma defaultInterfaceIP_usable: "defaultInterfaceIP ifs \<noteq> '''' \<Longrightarrow> isUsableNodeIP (defaultInterfaceIP ifs)"
proof (induction ifs)
  case (Cons iface ifs)
  have "isUsableNodeIP ip" if "find isUsableNodeIP (if_IPs iface) = Some ip" for ip
    using that by (auto simp: find_Some_iff)
  with Cons show ?case by (auto split: option.splits if_splits)
qed simp

text \<open>Endpoints on a port: usable addresses with the node port, duplicate free, at most as many as allowed.\<close>

definition good_endpoints :: "int \<Rightarrow> BackendRef list \<Rightarrow> bool" where
  "good_endpoints nodePort bs \<longleftrightarrow>
     list_all (\<lambda>b. isUsableNodeIP (br_Ip b) \<and> br_Port b = nodePort) bs \<and>
     sorted (map endpointOrder bs) \<and> distinct (map endpointOrder bs)"

lemma good_normalize:
  "list_all (\<lambda>b. isUsableNodeIP (br_Ip b) \<and> br_Port b = p) bs \<Longrightarrow> good_endpoints p (normalizeEndpoints bs)"
  by (simp add: good_endpoints_def normalizeEndpoints_sorted normalizeEndpoints_distinct list_all_iff)

lemma nodeEndpoints_usable:
  "list_all (\<lambda>b. isUsableNodeIP (br_Ip b) \<and> br_Port b = port_NodePort port) (nodeEndpoints ty port nodes)"
  by (auto simp: list_all_iff nodeEndpoints_set)

lemma vmi_refs_usable:
  "list_all (\<lambda>b. isUsableNodeIP (br_Ip b) \<and> br_Port b = port_NodePort port) (vmi_refs port items)"
  by (auto simp: list_all_iff vmi_refs_def Let_def defaultInterfaceIP_usable split: if_splits)

lemma buildEndpoints_good:
  "wp (buildEndpoints e lb port nodes clusterName)
      (\<lambda>r s'. \<exists>bs. r = Val bs \<and> good_endpoints (port_NodePort port) bs) s"
  unfolding buildEndpoints_def buildEndpointsFromVMI_def Let_def
  by (auto simp: go_wp intro!: good_normalize nodeEndpoints_usable vmi_refs_usable split: sum.split)

section \<open>The shape of built listeners\<close>

text \<open>
  \<open>built_for service P port l\<close>: the listener \<open>l\<close> is the one for \<open>port\<close> on endpoints with the
  property \<open>P\<close>. Every property of the endpoints of a port lifts to the listeners of a Service.
\<close>

definition built_for :: "Service \<Rightarrow> (ServicePort \<Rightarrow> BackendRef list \<Rightarrow> bool) \<Rightarrow> ServicePort \<Rightarrow> Listener \<Rightarrow> bool" where
  "built_for service P port l \<longleftrightarrow> (\<exists>bs. l = buildListener service port bs \<and> P port bs)"

lemma built_forI: "P port bs \<Longrightarrow> built_for service P port (buildListener service port bs)"
  by (auto simp: built_for_def)

lemma buildPorts_rule:
  assumes "\<And>port s. wp (buildEndpoints e lb port nodes clusterName) (\<lambda>r s'. \<exists>bs. r = Val bs \<and> P port bs) s"
  shows "wp (buildPorts e lb service nodes clusterName ports)
      (\<lambda>r s'. \<exists>ls. r = Val ls \<and> list_all2 (built_for service P) ports ls) s"
proof (induction ports arbitrary: s)
  case Nil
  show ?case unfolding buildPorts.simps go_wp by simp
next
  case (Cons port ports)
  show ?case
    unfolding buildPorts.simps go_wp
    by (rule wp_conseq [OF assms]) (auto simp: go_wp built_forI intro!: wp_conseq [OF Cons.IH])
qed

lemma buildListeners_built:
  "wp (buildListeners e lb service nodes clusterName) (\<lambda>r s'. \<exists>ls. r = Val ls \<and>
     list_all2 (built_for service (\<lambda>port. good_endpoints (port_NodePort port))) (svc_Ports service) ls) s"
  unfolding buildListeners_def by (rule buildPorts_rule [OF buildEndpoints_good])

lemma buildEndpoints_total: "\<exists>bs s'. buildEndpoints e lb port nodes clusterName s = Some (Val bs, s')"
  by (auto simp: buildEndpoints_def buildEndpointsFromVMI_def go_bind_def ask_call_def Let_def split: sum.split)

lemma buildPorts_total: "\<exists>ls s'. buildPorts e lb service nodes clusterName ports s = Some (Val ls, s')"
proof (induction ports arbitrary: s)
  case (Cons port ports)
  obtain bs s1 where "buildEndpoints e lb port nodes clusterName s = Some (Val bs, s1)"
    using buildEndpoints_total by blast
  with Cons [of s1] show ?case by (auto simp: go_bind_Some)
qed (simp add: go_ret_def)

lemma buildListener_known [simp]: "known_protocol (buildListener service port bs)"
  by (simp add: known_protocol_def buildListener_def listenerProtocol_def Let_def)

lemma built_for_known: "list_all2 (built_for service P) ports ls \<Longrightarrow> list_all known_protocol ls"
  by (induction rule: list_all2_induct) (auto simp: built_for_def)

lemma validateListeners_None:
  "validateListeners ls = None \<longleftrightarrow> ls \<noteq> [] \<and> list_all (\<lambda>l. \<not> lacksEndpoints l) ls"
  by (auto simp: validateListeners_def list_all_iff find_None_iff find_Some_iff split: option.split)

lemma lacks_buildListener [simp]: "lacksEndpoints (buildListener service port bs) \<longleftrightarrow> bs = []"
  by (simp add: lacksEndpoints_def buildListener_def buildRule_def Let_def)

section \<open>Acceptance by the API\<close>

lemma isUsable_parses: "isUsableNodeIP a \<Longrightarrow> ParseIP a \<noteq> None"
  by (auto simp: isUsableNodeIP_def split: option.splits)

definition ok_path_annotation :: "Service \<Rightarrow> bool" where
  "ok_path_annotation service \<longleftrightarrow>
     (let path = annot service HTTPRoutePathAnnotationKey
      in path = '''' \<or> take 1 path = ''/'' \<and> length path \<le> 1024)"

lemma parseHTTPMethod_specified [simp]: "parseHTTPMethod m \<noteq> HTTP_METHOD_UNSPECIFIED"
  by (simp add: parseHTTPMethod_def Let_def)

lemma ok_httpMatches: "ok_path_annotation service \<Longrightarrow> list_all ok_HttpRouteMatch (httpMatches service)"
  by (auto simp: httpMatches_def ok_HttpRouteMatch_def ok_HttpPathMatch_def ok_path_annotation_def Let_def Suc_le_eq)

lemma length_httpMatches: "length (httpMatches service) \<le> 1"
  by (simp add: httpMatches_def Let_def)

lemma ok_backend:
  assumes "good_endpoints p bs" "bs \<noteq> []" "length bs \<le> 256" "1 \<le> p" "p \<le> 65535"
  shows "ok_RuleBackend \<lparr>rb_Id = '''', rb_Name = defaultBackendName, rb_Weight = defaultBackendWeight, rb_Endpoints = bs\<rparr>"
  using assms isUsable_parses
  by (auto simp: ok_RuleBackend_def good_endpoints_def ok_BackendRef_def list_all_iff endpointOrder_def [abs_def]
      listener_defaults Suc_le_eq)

lemma ok_buildRule:
  assumes "good_endpoints p bs" "bs \<noteq> []" "length bs \<le> 256" "1 \<le> p" "p \<le> 65535" "ok_path_annotation service"
  shows "ok_ListenerRule (buildRule service protocol bs)"
    and "protocol = PROTOCOL_HTTP \<Longrightarrow> ok_http_monitor (buildRule service protocol bs)"
    and "protocol \<noteq> PROTOCOL_HTTP \<Longrightarrow> lr_Matches (buildRule service protocol bs) = []"
proof -
  show "ok_ListenerRule (buildRule service protocol bs)"
    using ok_backend [OF assms(1-5)] ok_httpMatches [OF assms(6)] length_httpMatches [of service]
    by (simp add: ok_ListenerRule_def buildRule_def ok_HealthMonitor_def httpMonitor_def streamMonitor_def
        Let_def listener_defaults)
  show "ok_http_monitor (buildRule service protocol bs)" if "protocol = PROTOCOL_HTTP"
    using assms(6) that
    by (auto simp: ok_http_monitor_def buildRule_def httpMonitor_def Let_def listener_defaults ok_path_annotation_def)
  show "lr_Matches (buildRule service protocol bs) = []" if "protocol \<noteq> PROTOCOL_HTTP"
    using that by (simp add: buildRule_def)
qed

definition ok_ServicePort :: "ServicePort \<Rightarrow> bool" where
  "ok_ServicePort port \<longleftrightarrow> 1 \<le> port_Port port \<and> port_Port port \<le> 65535 \<and>
     1 \<le> port_NodePort port \<and> port_NodePort port \<le> 65535"

lemma ok_buildListener:
  assumes "ok_ServicePort port" "ok_path_annotation service"
    and "good_endpoints (port_NodePort port) bs" "bs \<noteq> []" "length bs \<le> 256"
  shows "ok_Listener (buildListener service port bs)"
  using assms ok_buildRule [OF assms(3-5) _ _ assms(2)]
  by (auto simp: ok_Listener_def buildListener_def ok_ServicePort_def Let_def listenerProtocol_def)

text \<open>How many endpoints a port can get: one per node address, or one per VMI.\<close>

definition few_endpoints :: "env \<Rightarrow> Node list \<Rightarrow> bool" where
  "few_endpoints e nodes \<longleftrightarrow> length (concat (map node_Addresses nodes)) \<le> 256 \<and>
     (\<forall>s ns labels items. env_ListVMIs e s ns labels = Inr items \<longrightarrow> length items \<le> 256)"

lemma length_nodeEndpoints: "length (nodeEndpoints ty port nodes) \<le> length (concat (map node_Addresses nodes))"
  unfolding nodeEndpoints_def by (induction nodes) (auto intro: add_mono order_trans [OF length_filter_le])

lemma length_vmi_refs: "length (vmi_refs port items) \<le> length items"
  unfolding vmi_refs_def by (induction items) (auto simp: Let_def)

lemma buildEndpoints_few:
  assumes "few_endpoints e nodes"
  shows "wp (buildEndpoints e lb port nodes clusterName) (\<lambda>r s'. \<forall>bs. r = Val bs \<longrightarrow> length bs \<le> 256) s"
proof -
  have "length (normalizeEndpoints (nodeEndpoints ty port nodes)) \<le> 256" for ty
    using assms order_trans [OF normalizeEndpoints_length length_nodeEndpoints] order_trans
    unfolding few_endpoints_def by blast
  moreover have "length (normalizeEndpoints (vmi_refs port items)) \<le> 256"
    if "env_ListVMIs e s' ns labels = Inr items" for s' ns labels items
    using assms that order_trans [OF normalizeEndpoints_length length_vmi_refs] order_trans
    unfolding few_endpoints_def by blast
  moreover have "normalizeEndpoints [] = []" by (simp add: normalizeEndpoints_def)
  ultimately show ?thesis
    unfolding buildEndpoints_def buildEndpointsFromVMI_def Let_def
    by (auto simp: go_wp split: sum.split)
qed

section \<open>Merging by key\<close>

lemma itoa_no_slash [simp]: "CHR ''/'' \<notin> set (itoa i)"
  using itoa_chars [of "CHR ''/''" i] by (auto simp: is_digit_def)

lemma Protocol_String_inject: "Protocol_String p = Protocol_String q \<longleftrightarrow> p = q"
proof -
  have "hd (itoa n) \<noteq> CHR ''P''" for n
    using itoa_hd [of n] by (auto simp: is_digit_def)
  then have no: "itoa n \<noteq> CHR ''P'' # t" "CHR ''P'' # t \<noteq> itoa n" for n t
    by (metis list.sel(1))+
  show ?thesis by (cases p; cases q) (simp_all add: no)
qed

lemma listenerKey_iff: "listenerKey l = listenerKey l' \<longleftrightarrow> l_Port l = l_Port l' \<and> l_Protocol l = l_Protocol l'"
proof
  assume "listenerKey l = listenerKey l'"
  then have "takeWhile ((\<noteq>) CHR ''/'') (listenerKey l) = takeWhile ((\<noteq>) CHR ''/'') (listenerKey l')"
    and eq: "listenerKey l = listenerKey l'" by simp_all
  moreover have "takeWhile ((\<noteq>) CHR ''/'') (itoa i) = itoa i" for i
    unfolding takeWhile_eq_all_conv by (metis itoa_no_slash)
  ultimately have "itoa (l_Port l) = itoa (l_Port l')"
    by (simp add: listenerKey_def takeWhile_tail)
  with eq show "l_Port l = l_Port l' \<and> l_Protocol l = l_Protocol l'"
    by (simp add: listenerKey_def Protocol_String_inject)
qed (simp add: listenerKey_def)

text \<open>The last listener with a key wins, as in the Go map.\<close>

definition lastWithKey :: "Listener \<Rightarrow> Listener option list \<Rightarrow> Listener option" where
  "lastWithKey want current =
     find (\<lambda>l. l_Port l = l_Port want \<and> l_Protocol l = l_Protocol want) (rev (concat (map (case_option [] (\<lambda>l. [l])) current)))"

lemma existingListeners_snoc:
  "existingListeners (current @ [l]) = (case l of None \<Rightarrow> existingListeners current
     | Some x \<Rightarrow> (existingListeners current)(listenerKey x \<mapsto> x))"
  by (simp add: existingListeners_def split: option.split)

lemma existingListeners_eq: "existingListeners current (listenerKey want) = lastWithKey want current"
proof (induction current rule: rev_induct)
  case (snoc l current)
  then show ?case
    by (cases l) (auto simp: existingListeners_snoc lastWithKey_def listenerKey_iff)
qed (simp add: existingListeners_def lastWithKey_def)

lemma mergeListenerIDs_map: "mergeListenerIDs desired current = map (\<lambda>want. mergeOne (lastWithKey want current) want) desired"
  by (simp add: mergeListenerIDs_def existingListeners_eq Let_def)

text \<open>A listener without the three kinds of identifiers that are grafted, and those identifiers alone.\<close>

definition strip_ids :: "Listener \<Rightarrow> Listener" where
  "strip_ids l = l\<lparr>l_Id := '''', l_Rules := map (\<lambda>r. r\<lparr>lr_Id := '''',
     lr_Backends := map (\<lambda>b. b\<lparr>rb_Id := ''''\<rparr>) (lr_Backends r)\<rparr>) (l_Rules l)\<rparr>"

definition ids_of :: "Listener \<Rightarrow> string \<times> (string \<times> string list) list" where
  "ids_of l = (l_Id l, map (\<lambda>r. (lr_Id r, map rb_Id (lr_Backends r))) (l_Rules l))"

definition single_backend :: "Listener \<Rightarrow> bool" where
  "single_backend l = (case l_Rules l of [r] \<Rightarrow> length (lr_Backends r) = 1 | _ \<Rightarrow> False)"

lemma mergeOne_strip: "strip_ids (mergeOne have want) = strip_ids want"
  by (simp add: mergeOne_def strip_ids_def Let_def split: option.split list.split)

lemma mergeOne_ids:
  "single_backend want \<Longrightarrow> single_backend h \<Longrightarrow> ids_of (mergeOne (Some h) want) = ids_of h"
  by (auto simp: mergeOne_def single_backend_def ids_of_def Let_def length_Suc_conv split: list.splits)

lemma buildListener_single [simp]: "single_backend (buildListener service port bs)"
  by (simp add: single_backend_def buildListener_def buildRule_def Let_def)

lemma find_unique:
  assumes "x \<in> set xs" "distinct (map f xs)"
  shows "find (\<lambda>y. f y = f x) (rev xs) = Some x"
proof -
  have "find (\<lambda>y. f y = f x) (rev xs) \<noteq> None" using assms(1) by (auto simp: find_None_iff)
  then obtain y where y: "find (\<lambda>y. f y = f x) (rev xs) = Some y" by blast
  then have "y \<in> set (rev xs)" "f y = f x" unfolding find_Some_iff by (metis nth_mem)+
  with assms have "y = x" by (auto simp: distinct_map dest: inj_onD)
  with y show ?thesis by simp
qed

lemma lastWithKey_same:
  assumes "have \<in> set cur" "distinct (map (\<lambda>l. (l_Port l, l_Protocol l)) cur)"
    and "l_Port want = l_Port have" "l_Protocol want = l_Protocol have"
  shows "lastWithKey want (map Some cur) = Some have"
  using find_unique [OF assms(1,2)] assms(3,4) by (simp add: lastWithKey_def comp_def)

section \<open>Concrete instances\<close>

definition demo_port :: ServicePort where
  "demo_port = \<lparr>port_Name = ''web'', port_Protocol = ''TCP'', port_Port = 80, port_TargetPort = 8080, port_NodePort = 30080\<rparr>"

definition demo_service :: Service where
  "demo_service = \<lparr>svc_Name = ''web'', svc_Namespace = ''shop'', svc_UID = ''u-1'', svc_Labels = Map.empty,
     svc_Annotations = Some [HTTPRoutePathAnnotationKey \<mapsto> ''/api''], svc_DeletionTimestamp = None,
     svc_Ports = [demo_port]\<rparr>"

definition demo_node :: "string \<Rightarrow> string \<Rightarrow> Node" where
  "demo_node name ip = \<lparr>node_Name = name, node_Labels = Map.empty, node_ProviderID = '''',
     node_Addresses = [\<lparr>addr_Type = ''InternalIP'', addr_Address = ip\<rparr>]\<rparr>"

definition demo_listeners :: "Listener list" where
  "demo_listeners = [buildListener demo_service demo_port [\<lparr>br_Ip = ''10.0.0.2'', br_Port = 30080\<rparr>]]"

definition demo_hashed :: Service where
  "demo_hashed = demo_service\<lparr>svc_Annotations := Some [HTTPRoutePathAnnotationKey \<mapsto> ''/api'',
     LoadBalancerListenerHashAnnotationKey \<mapsto> listenersHashStr quiet_env demo_listeners]\<rparr>"

lemmas demo_defs = demo_port_def demo_service_def demo_node_def

lemma demo_usable: "isUsableNodeIP ''10.0.0.2''"
  by code_simp

lemma demo_listeners_built:
  "buildListeners e lb demo_service [demo_node ''a'' ''10.0.0.2''] clusterName s = Some (Val demo_listeners, s)"
  by (simp add: buildListeners_def buildEndpoints_def nodeEndpoints_def normalizeEndpoints_def endpointKey_def
      demo_listeners_def demo_defs demo_usable go_bind_def)

section \<open>Properties\<close>

text \<open>
  Endpoints are a canonical form: \<^verbatim>\<open>normalizeEndpoints\<close> keeps exactly the endpoints it was
  given, lists each \<^verbatim>\<open>ip:port\<close> once, sorts by address and port, and its result depends only on
  which endpoints there are, not on their order or multiplicity.
\<close>

lemma normalizeEndpoints_correct:
  "set (normalizeEndpoints bs) = set bs \<and>
   distinct (map (\<lambda>b. (br_Ip b, br_Port b)) (normalizeEndpoints bs)) \<and>
   sorted (map (\<lambda>b. (br_Ip b, br_Port b)) (normalizeEndpoints bs)) \<and>
   (normalizeEndpoints bs = normalizeEndpoints bs' \<longleftrightarrow> set bs = set bs')"
  using normalizeEndpoints_sorted [of bs] normalizeEndpoints_distinct [of bs] normalizeEndpoints_canonical [of bs bs']
  by (auto simp: endpointOrder_def [abs_def] dest: arg_cong [where f = set])

text \<open>
  C18. Node order does not matter: node lists that carry the same addresses, in any order and on
  any nodes, give the same computation of listeners, and so the same listener hash.
\<close>

theorem buildListeners_node_order:
  assumes "(\<Union>n \<in> set nodes. set (node_Addresses n)) = (\<Union>n \<in> set nodes'. set (node_Addresses n))"
  shows "buildListeners e lb service nodes clusterName = buildListeners e lb service nodes' clusterName"
  using assms unfolding buildListeners_def by (intro buildPorts_cong) (simp add: nodeAddresses_def)

theorem buildListeners_node_order_witness:
  "buildListeners quiet_env (demo_lb None) demo_service [demo_node ''a'' ''10.0.0.1'', demo_node ''b'' ''10.0.0.2''] '''' =
   buildListeners quiet_env (demo_lb None) demo_service [demo_node ''b'' ''10.0.0.2'', demo_node ''a'' ''10.0.0.1''] ''''"
  by (rule buildListeners_node_order) (auto simp: demo_node_def)

text \<open>
  C19. What is built: \<^verbatim>\<open>buildListeners\<close> always returns, one listener per Service port in the order
  of the ports, each with the port's number and protocol and one rule with one backend, whose
  endpoints are usable addresses on the port's node port, sorted and without duplicates.
\<close>

theorem buildListeners_shape:
  "\<exists>ls s'. buildListeners e lb service nodes clusterName s = Some (Val ls, s') \<and>
     list_all2 (\<lambda>port l. l_Port l = port_Port port \<and> l_Protocol l = listenerProtocol service port \<and>
       (\<exists>rule backend. l_Rules l = [rule] \<and> lr_Backends rule = [backend] \<and> rb_Weight backend = 1 \<and>
         good_endpoints (port_NodePort port) (rb_Endpoints backend))) (svc_Ports service) ls"
proof -
  obtain ls s' where ret: "buildListeners e lb service nodes clusterName s = Some (Val ls, s')"
    using buildPorts_total unfolding buildListeners_def by blast
  with wpD [OF buildListeners_built] have
    "list_all2 (built_for service (\<lambda>port. good_endpoints (port_NodePort port))) (svc_Ports service) ls" by blast
  with ret show ?thesis
    by (auto simp: built_for_def buildListener_def buildRule_def Let_def listener_defaults elim!: list_all2_mono)
qed

text \<open>
  The API accepts what passes the check: with ports in range, a route path that starts with a
  slash and fits the limit, and at most 256 addresses, listeners that \<^verbatim>\<open>validateListeners\<close> lets
  through satisfy every validation rule of the API schema.
\<close>

lemma validated_listeners_accepted:
  assumes "list_all ok_ServicePort (svc_Ports service)" "ok_path_annotation service" "few_endpoints e nodes"
    and "buildListeners e lb service nodes clusterName s = Some (Val ls, s')" "validateListeners ls = None"
  shows "ls \<noteq> [] \<and> list_all ok_Listener ls"
proof -
  let ?P = "\<lambda>port bs. good_endpoints (port_NodePort port) bs \<and> length bs \<le> 256"
  have "wp (buildEndpoints e lb port nodes clusterName) (\<lambda>r s'. \<exists>bs. r = Val bs \<and> ?P port bs) s" for port s
    by (rule wp_conseq [OF wp_conj [OF buildEndpoints_good buildEndpoints_few [OF assms(3)]]]) auto
  then have "list_all2 (built_for service ?P) (svc_Ports service) ls"
    using buildPorts_rule [where P = ?P, of e lb nodes clusterName, THEN wpD] assms(4)
    unfolding buildListeners_def by blast
  then show ?thesis
    using assms(1,2,5) ok_buildListener
    by (fastforce simp: validateListeners_None list_all2_conv_all_nth list_all_length built_for_def)
qed

text \<open>
  The check itself: \<^verbatim>\<open>validateListeners\<close> accepts exactly the non-empty lists in which every
  backend of every rule has an endpoint, and otherwise names the first port that lacks one.
\<close>

lemma validateListeners_correct:
  "(validateListeners ls = None \<longleftrightarrow>
      ls \<noteq> [] \<and> (\<forall>l \<in> set ls. \<forall>rule \<in> set (l_Rules l). \<forall>backend \<in> set (lr_Backends rule). rb_Endpoints backend \<noteq> [])) \<and>
   (list_all (\<lambda>l. \<not> lacksEndpoints l) before \<and> lacksEndpoints l \<longrightarrow>
      validateListeners (before @ l # after) =
        Some (ErrText (''no backend endpoints available for port '' @ itoa (l_Port l)
               @ ''; no node addresses and no matching VMI IPs were found'')))"
proof (intro conjI impI)
  show "validateListeners ls = None \<longleftrightarrow>
      ls \<noteq> [] \<and> (\<forall>l \<in> set ls. \<forall>rule \<in> set (l_Rules l). \<forall>backend \<in> set (lr_Backends rule). rb_Endpoints backend \<noteq> [])"
    by (auto simp: validateListeners_None list_all_iff lacksEndpoints_def list_ex_iff)
  assume "list_all (\<lambda>l. \<not> lacksEndpoints l) before \<and> lacksEndpoints l"
  then have "find lacksEndpoints (before @ l # after) = Some l"
    by (induction before) auto
  then show "validateListeners (before @ l # after) =
        Some (ErrText (''no backend endpoints available for port '' @ itoa (l_Port l)
               @ ''; no node addresses and no matching VMI IPs were found''))"
    by (simp add: validateListeners_def)
qed

text \<open>
  C12. Change detection is exact: when the annotation holds the hash of the listeners of an earlier
  sync, \<^verbatim>\<open>configChanged\<close> answers true for the listeners of a later sync exactly when the two
  differ in any field, provided SHA-256 does not map the two texts to the same digest.
\<close>

theorem configChanged_exact:
  assumes "buildListeners e lb service nodes clusterName s = Some (Val old, s1)"
    and "buildListeners e lb' service' nodes' clusterName' s' = Some (Val new, s2)"
    and "annot service' LoadBalancerListenerHashAnnotationKey = listenersHashStr e old"
    and "env_sha256 e (json_listeners old) = env_sha256 e (json_listeners new) \<Longrightarrow> json_listeners old = json_listeners new"
  shows "configChanged e service' new \<longleftrightarrow> new \<noteq> old"
proof -
  have "list_all known_protocol old" "list_all known_protocol new"
    using wpD [OF buildListeners_built assms(1)] wpD [OF buildListeners_built assms(2)] built_for_known by blast+
  then have "listenersHashStr e old = listenersHashStr e new \<longleftrightarrow> old = new"
    using assms(4) by (rule listenersHashStr_inject)
  then show ?thesis using assms(3) by (auto simp: configChanged_def)
qed

theorem configChanged_exact_witness:
  "configChanged quiet_env demo_hashed [buildListener demo_hashed demo_port []]"
proof -
  have "buildListeners quiet_env (demo_lb None) demo_hashed [] '''' init_st =
      Some (Val [buildListener demo_hashed demo_port []], init_st)"
    by (simp add: buildListeners_def buildEndpoints_def nodeEndpoints_def normalizeEndpoints_def go_bind_def
        demo_hashed_def demo_service_def)
  then have "configChanged quiet_env demo_hashed [buildListener demo_hashed demo_port []] \<longleftrightarrow>
      [buildListener demo_hashed demo_port []] \<noteq> demo_listeners"
    by (rule configChanged_exact [OF demo_listeners_built [where s = init_st and clusterName = "''''" and lb = "demo_lb None"]])
       (simp_all add: demo_hashed_def annots_def mget_def quiet_env_def)
  then show ?thesis
    by (simp add: demo_listeners_def buildListener_def buildRule_def Let_def)
qed

text \<open>
  C13. An update keeps the identity of what stays: \<^verbatim>\<open>mergeListenerIDs\<close> changes nothing of the
  desired listeners but their identifiers, and when the server's listeners have different ports or
  protocols and one rule with one backend each, every desired listener that the server already has
  gets the server's identifiers for the listener, its rule and its backend.
\<close>

theorem mergeListenerIDs_correct:
  assumes "list_all single_backend desired" "list_all single_backend cur"
    and "distinct (map (\<lambda>l. (l_Port l, l_Protocol l)) cur)"
  shows "map strip_ids (mergeListenerIDs desired (map Some cur)) = map strip_ids desired \<and>
    (\<forall>i < length desired. \<forall>have \<in> set cur.
       l_Port have = l_Port (desired ! i) \<and> l_Protocol have = l_Protocol (desired ! i) \<longrightarrow>
       ids_of (mergeListenerIDs desired (map Some cur) ! i) = ids_of have) \<and>
    (\<forall>i < length desired. (\<forall>have \<in> set cur.
       l_Port have \<noteq> l_Port (desired ! i) \<or> l_Protocol have \<noteq> l_Protocol (desired ! i)) \<longrightarrow>
       mergeListenerIDs desired (map Some cur) ! i = desired ! i)"
proof (intro conjI allI ballI impI)
  show "map strip_ids (mergeListenerIDs desired (map Some cur)) = map strip_ids desired"
    by (simp add: mergeListenerIDs_map mergeOne_strip)
next
  fix i "have" assume i: "i < length desired" and h: "have \<in> set cur"
    and key: "l_Port have = l_Port (desired ! i) \<and> l_Protocol have = l_Protocol (desired ! i)"
  then have "lastWithKey (desired ! i) (map Some cur) = Some have"
    by (intro lastWithKey_same assms(3)) simp_all
  moreover have "single_backend (desired ! i)" "single_backend have"
    using assms(1,2) i h by (simp_all add: list_all_iff)
  ultimately show "ids_of (mergeListenerIDs desired (map Some cur) ! i) = ids_of have"
    using i by (simp add: mergeListenerIDs_map mergeOne_ids)
next
  fix i assume i: "i < length desired" and none: "\<forall>have \<in> set cur.
       l_Port have \<noteq> l_Port (desired ! i) \<or> l_Protocol have \<noteq> l_Protocol (desired ! i)"
  then have "lastWithKey (desired ! i) (map Some cur) = None"
    by (auto simp: lastWithKey_def find_None_iff)
  then show "mergeListenerIDs desired (map Some cur) ! i = desired ! i"
    using i by (simp add: mergeListenerIDs_map mergeOne_def)
qed

theorem mergeListenerIDs_correct_witness:
  "ids_of (mergeListenerIDs demo_listeners (map Some [(hd demo_listeners)\<lparr>l_Id := ''l-7''\<rparr>]) ! 0) =
     (''l-7'', [('''', [''''])])"
  using mergeListenerIDs_correct [of demo_listeners "[(hd demo_listeners)\<lparr>l_Id := ''l-7''\<rparr>]"]
  by (simp add: demo_listeners_def single_backend_def buildListener_def buildRule_def Let_def ids_of_def)

end
