(* ===== verification/LB_Identity.thy ===== *)
theory LB_Identity
  imports Provider_Config Json
begin

text \<open>
  How a Service names its load balancer: \<^verbatim>\<open>GetLoadBalancerName\<close>, the create counter, and
  \<^verbatim>\<open>createIdempotencyKey\<close> of \<^verbatim>\<open>pkg/provider/loadbalancer.go\<close> with the parts of the vendored
  \<^verbatim>\<open>github.com/google/uuid\<close> it calls. A UUID is the string of its 16 bytes; SHA-1 is a parameter.
\<close>

unbundle bit_operations_syntax

section \<open>Names\<close>

definition GetLoadBalancerName :: "Service \<Rightarrow> string" where
  "GetLoadBalancerName service = take 32 (filter ((\<noteq>) CHR ''-'') (''a'' @ svc_UID service))"

definition getCreateCount :: "Service \<Rightarrow> int" where
  "getCreateCount service =
     (case annots service LoadBalancerCreateCountAnnotationKey of
        None \<Rightarrow> 0
      | Some countStr \<Rightarrow> if countStr = '''' then 0
                        else (case atoi countStr of None \<Rightarrow> 0 | Some n \<Rightarrow> n))"

section \<open>UUIDs\<close>

definition xtob :: "char \<Rightarrow> char \<Rightarrow> char option" where
  "xtob x1 x2 =
     (if is_hex x1 \<and> is_hex x2 then Some (char_of (16 * hex_digit_val x1 + hex_digit_val x2)) else None)"

definition parse_at :: "string \<Rightarrow> nat list \<Rightarrow> string option" where
  "parse_at s xs = those (map (\<lambda>x. xtob (s ! x) (s ! Suc x)) xs)"

definition parse_dashed :: "string \<Rightarrow> string option" where
  "parse_dashed s =
     (if s ! 8 \<noteq> CHR ''-'' \<or> s ! 13 \<noteq> CHR ''-'' \<or> s ! 18 \<noteq> CHR ''-'' \<or> s ! 23 \<noteq> CHR ''-'' then None
      else parse_at s [0, 2, 4, 6, 9, 11, 14, 16, 19, 21, 24, 26, 28, 30, 32, 34])"

definition uuid_Parse :: "string \<Rightarrow> string option" where
  "uuid_Parse s =
     (if length s = 36 then parse_dashed s
      else if length s = 45 then
        (if map char_lower (take 9 s) = ''urn:uuid:'' then parse_dashed (drop 9 s) else None)
      else if length s = 38 then parse_dashed (drop 1 s)
      else if length s = 32 then parse_at s (map (\<lambda>i. i * 2) [0..<16])
      else None)"

definition uuid_Nil :: string where
  "uuid_Nil = replicate 16 (char_of (0 :: nat))"

text \<open>\<^verbatim>\<open>NewHash\<close> with version 5: the first 16 bytes of the digest with version and variant set.\<close>

definition stamp :: "string \<Rightarrow> string" where
  "stamp u = u[6 := char_of ((of_char (u ! 6) AND 0x0f) OR 0x50 :: nat),
               8 := char_of ((of_char (u ! 8) AND 0x3f) OR 0x80 :: nat)]"

definition NewSHA1 :: "env \<Rightarrow> string \<Rightarrow> string \<Rightarrow> string" where
  "NewSHA1 e space data = stamp (take 16 (env_sha1 e (space @ data)))"

definition UUID_String :: "string \<Rightarrow> string" where
  "UUID_String u =
     hex_EncodeToString (take 4 u) @ ''-'' @ hex_EncodeToString (take 2 (drop 4 u)) @ ''-'' @
     hex_EncodeToString (take 2 (drop 6 u)) @ ''-'' @ hex_EncodeToString (take 2 (drop 8 u)) @ ''-'' @
     hex_EncodeToString (drop 10 u)"

definition key_space :: "Service \<Rightarrow> string" where
  "key_space service = (case uuid_Parse (svc_UID service) of Some u \<Rightarrow> u | None \<Rightarrow> uuid_Nil)"

definition createIdempotencyKey :: "env \<Rightarrow> Service \<Rightarrow> int \<Rightarrow> string" where
  "createIdempotencyKey e service createAttempt =
     (if createAttempt \<le> 0 then svc_UID service
      else UUID_String (NewSHA1 e (key_space service) (itoa createAttempt)))"

section \<open>Text of a UUID\<close>

lemma length_hex [simp]: "length (hex_EncodeToString s) = 2 * length s"
  by (induction s) (simp_all add: hex_EncodeToString_def)

lemma hex_append: "hex_EncodeToString (a @ b) = hex_EncodeToString a @ hex_EncodeToString b"
  by (simp add: hex_EncodeToString_def)

lemma UUID_String_length: "length u = 16 \<Longrightarrow> length (UUID_String u) = 36"
  by (simp add: UUID_String_def)

lemma split_5: "u = take 4 u @ take 2 (drop 4 u) @ take 2 (drop 6 u) @ take 2 (drop 8 u) @ drop 10 u"
  by (metis add_2_eq_Suc' append_take_drop_id drop_drop numeral_plus_numeral semiring_norm(2,3,4,5,6))

lemma UUID_String_inject:
  assumes "length u = 16" "length v = 16" "UUID_String u = UUID_String v"
  shows "u = v"
proof -
  have "take 4 u = take 4 v \<and> take 2 (drop 4 u) = take 2 (drop 4 v) \<and> take 2 (drop 6 u) = take 2 (drop 6 v)
      \<and> take 2 (drop 8 u) = take 2 (drop 8 v) \<and> drop 10 u = drop 10 v"
    using assms by (simp add: UUID_String_def append_eq_append_conv hex_EncodeToString_inject)
  then show ?thesis by (metis split_5)
qed

lemma length_stamp [simp]: "length (stamp u) = length u"
  by (simp add: stamp_def)

lemma length_uuid_Nil:
  "length uuid_Nil = 16"
  by (simp add: uuid_Nil_def)

lemma hexd_is_hex: "n < 16 \<Longrightarrow> is_hex (hexd n) \<and> hex_digit_val (hexd n) = n"
  by (auto simp: hexd_def is_hex_def hex_digit_val_def is_digit_def digit_val_def)

lemma xtob_hex [simp]: "xtob (hexd (of_char c div 16)) (hexd (of_char c mod 16)) = Some c"
  using hexd_is_hex [of "of_char c div 16"] hexd_is_hex [of "of_char c mod 16"]
  by (simp add: xtob_def)

lemma length_16: "length u = 16 \<Longrightarrow> \<exists>c0 c1 c2 c3 c4 c5 c6 c7 c8 c9 c10 c11 c12 c13 c14 c15.
    u = [c0, c1, c2, c3, c4, c5, c6, c7, c8, c9, c10, c11, c12, c13, c14, c15]"
  by (auto simp: eval_nat_numeral length_Suc_conv)

text \<open>The printed form of any 16 bytes parses back to them.\<close>

lemma uuid_roundtrip:
  assumes "length u = 16"
  shows "uuid_Parse (UUID_String u) = Some u"
proof -
  obtain c0 c1 c2 c3 c4 c5 c6 c7 c8 c9 c10 c11 c12 c13 c14 c15 where
    "u = [c0, c1, c2, c3, c4, c5, c6, c7, c8, c9, c10, c11, c12, c13, c14, c15]"
    using length_16 [OF assms] by blast
  then show ?thesis
    by (simp add: uuid_Parse_def parse_dashed_def parse_at_def UUID_String_def hex_EncodeToString_def hex_byte_def)
qed

definition uuid_version :: "string \<Rightarrow> nat" where
  "uuid_version u = of_char (u ! 6) div 16"

definition uuid_variant :: "string \<Rightarrow> nat" where
  "uuid_variant u = of_char (u ! 8) div 64"

lemma stamp_bits:
  "((n AND 0x0f) OR 0x50) div 16 = (5::nat)" "((n AND 0x3f) OR 0x80) div 64 = (2::nat)"
proof -
  have "drop_bit 4 ((n AND 0x0f) OR 0x50) = (5::nat)" "drop_bit 6 ((n AND 0x3f) OR 0x80) = (2::nat)"
    unfolding drop_bit_or drop_bit_and by simp_all
  then show "((n AND 0x0f) OR 0x50) div 16 = (5::nat)" "((n AND 0x3f) OR 0x80) div 64 = (2::nat)"
    by (simp_all add: drop_bit_eq_div)
qed

lemma div_less_256: "n div 16 = (5::nat) \<Longrightarrow> n mod 256 = n" "n div 64 = (2::nat) \<Longrightarrow> n mod 256 = n"
  by (simp_all add: mod_less)

lemma stamp_version:
  assumes "length u = 16"
  shows "uuid_version (stamp u) = 5" "uuid_variant (stamp u) = 2"
  using assms stamp_bits [of "of_char (u ! 6)"] stamp_bits [of "of_char (u ! 8)"] div_less_256
  by (simp_all add: uuid_version_def uuid_variant_def stamp_def)

lemma key_version_char:
  assumes "length u = 16"
  shows "UUID_String (stamp u) ! 14 = CHR ''5''"
proof -
  obtain c0 c1 c2 c3 c4 c5 c6 c7 c8 c9 c10 c11 c12 c13 c14 c15 where
    "u = [c0, c1, c2, c3, c4, c5, c6, c7, c8, c9, c10, c11, c12, c13, c14, c15]"
    using length_16 [OF assms] by blast
  moreover from this have "of_char (stamp u ! 6) div 16 = (5::nat)"
    using stamp_version(1) [OF assms] by (simp add: uuid_version_def)
  moreover have "char_of (53 :: nat) = CHR ''5''" by code_simp
  ultimately show ?thesis
    by (simp add: UUID_String_def hex_EncodeToString_def hex_byte_def stamp_def hexd_def)
qed

text \<open>
  The 122 bits of a SHA-1 digest that a version 5 UUID carries: the first 16 bytes without the four
  bits of the version and the two bits of the variant.
\<close>

definition digest_bits :: "string \<Rightarrow> nat list" where
  "digest_bits d = map (\<lambda>k. of_char (d ! k) mod (if k = 6 then 16 else if k = 8 then 64 else 256)) [0..<16]"

lemma stamp_low_bits: "((n AND 0x0f) OR 0x50) mod 16 = (n mod 16 :: nat)" "((n AND 0x3f) OR 0x80) mod 64 = (n mod 64 :: nat)"
proof -
  have "n AND 0x0f = take_bit 4 n" "n AND 0x3f = take_bit 6 n"
    by (simp_all add: take_bit_eq_mask mask_eq_exp_minus_1)
  then have "take_bit 4 ((n AND 0x0f) OR 0x50) = take_bit 4 n" "take_bit 6 ((n AND 0x3f) OR 0x80) = take_bit 6 n"
    unfolding take_bit_or by simp_all
  then show "((n AND 0x0f) OR 0x50) mod 16 = n mod 16" "((n AND 0x3f) OR 0x80) mod 64 = n mod 64"
    by (simp_all add: take_bit_eq_mod)
qed

lemma stamp_keeps_bits:
  assumes "length d = 20"
  shows "digest_bits (stamp (take 16 d)) = digest_bits d"
proof -
  have "of_char (char_of n :: char) mod 16 = (n mod 16 :: nat)" "of_char (char_of n :: char) mod 64 = (n mod 64 :: nat)" for n :: nat
    by (simp_all add: mod_mod_cancel)
  with assms stamp_low_bits show ?thesis
    by (auto simp: digest_bits_def stamp_def nth_list_update)
qed

section \<open>Concrete instances\<close>

definition uid_service :: Service where
  "uid_service = \<lparr>svc_Name = ''web'', svc_Namespace = ''shop'', svc_UID = ''6ba7b810-9dad-41d1-80b4-00c04fd430c8'',
     svc_Labels = Map.empty, svc_Annotations = None, svc_DeletionTimestamp = None, svc_Ports = []\<rparr>"

definition sha1_env :: env where
  "sha1_env = quiet_env\<lparr>env_sha1 := \<lambda>x. take 20 (last x # x @ replicate 20 CHR ''0'')\<rparr>"

section \<open>Properties\<close>

text \<open>
  C31. Idempotency keys of a Service: for different create attempts the keys differ, when the UID is
  a version 4 UUID and the SHA-1 digests of the two different inputs (the bytes of the UID followed
  by the attempt number) differ in one of the 122 bits that a version 5 UUID keeps of a digest; and
  the key of every attempt after the first is the text of a UUID of version 5 and RFC 4122 variant.
\<close>

theorem createIdempotencyKey_correct:
  assumes sha: "\<And>x. length (env_sha1 e x) = 20" and uid: "svc_UID service ! 14 = CHR ''4''"
    and ij: "0 \<le> i" "0 < j" "i \<noteq> j"
    and nocoll: "\<And>x y. x = key_space service @ itoa i \<Longrightarrow> y = key_space service @ itoa j \<Longrightarrow> x \<noteq> y \<Longrightarrow>
      digest_bits (env_sha1 e x) \<noteq> digest_bits (env_sha1 e y)"
  shows "createIdempotencyKey e service i \<noteq> createIdempotencyKey e service j \<and>
    (\<exists>u. uuid_Parse (createIdempotencyKey e service j) = Some u \<and> uuid_version u = 5 \<and> uuid_variant u = 2)"
proof
  have len: "length (take 16 (env_sha1 e x)) = 16" for x using sha by simp
  have pos: "createIdempotencyKey e service k = UUID_String (NewSHA1 e (key_space service) (itoa k))"
    "length (NewSHA1 e (key_space service) (itoa k)) = 16" if "0 < k" for k
    using that len by (simp_all add: createIdempotencyKey_def NewSHA1_def)
  have "digest_bits (NewSHA1 e (key_space service) (itoa i)) \<noteq> digest_bits (NewSHA1 e (key_space service) (itoa j))"
    unfolding NewSHA1_def stamp_keeps_bits [OF sha] by (rule nocoll [OF refl refl]) (simp add: ij(3))
  then have differ: "NewSHA1 e (key_space service) (itoa i) \<noteq> NewSHA1 e (key_space service) (itoa j)" by metis
  show "createIdempotencyKey e service i \<noteq> createIdempotencyKey e service j"
  proof (cases "0 < i")
    case True
    with pos ij differ show ?thesis using UUID_String_inject by metis
  next
    case False
    then have "createIdempotencyKey e service i ! 14 = CHR ''4''" using uid by (simp add: createIdempotencyKey_def)
    moreover have "createIdempotencyKey e service j ! 14 = CHR ''5''"
      unfolding pos(1) [OF ij(2)] NewSHA1_def by (rule key_version_char [OF len])
    ultimately show ?thesis by force
  qed
  show "\<exists>u. uuid_Parse (createIdempotencyKey e service j) = Some u \<and> uuid_version u = 5 \<and> uuid_variant u = 2"
    unfolding pos(1) [OF ij(2)]
    using uuid_roundtrip [OF pos(2) [OF ij(2)]] stamp_version [OF len] by (auto simp: NewSHA1_def)
qed

theorem createIdempotencyKey_correct_witness:
  "createIdempotencyKey sha1_env uid_service 2 \<noteq> createIdempotencyKey sha1_env uid_service 3 \<and>
    (\<exists>u. uuid_Parse (createIdempotencyKey sha1_env uid_service 3) = Some u \<and> uuid_version u = 5 \<and> uuid_variant u = 2)"
proof (rule createIdempotencyKey_correct)
  have texts: "itoa 2 = ''2''" "itoa 3 = ''3''" by code_simp+
  have "env_sha1 sha1_env (sp @ itoa 2) ! 0 = CHR ''2''" "env_sha1 sha1_env (sp @ itoa 3) ! 0 = CHR ''3''" for sp
    by (simp_all add: sha1_env_def texts)
  then have "digest_bits (env_sha1 sha1_env (sp @ itoa 2)) ! 0 \<noteq> digest_bits (env_sha1 sha1_env (sp @ itoa 3)) ! 0" for sp
    by (simp add: digest_bits_def)
  then show "x = key_space uid_service @ itoa 2 \<Longrightarrow> y = key_space uid_service @ itoa 3 \<Longrightarrow> x \<noteq> y \<Longrightarrow>
      digest_bits (env_sha1 sha1_env x) \<noteq> digest_bits (env_sha1 sha1_env y)" for x y
    by metis
qed (simp_all add: sha1_env_def uid_service_def)

end
