(* ===== verification/Rpc_Client.thy ===== *)
theory Rpc_Client
  imports World
begin

text \<open>
  The gRPC client wrapper of \<^verbatim>\<open>pkg/rpc/loadbalancer/client.go\<close>: waiting for the connection,
  retrying with backoff, the seven RPC methods, and the classification of errors. Durations are
  nanoseconds; the backoff arithmetic is on signed 64-bit words, where it can overflow. The
  methods take the receiver as an option, because a nil \<^verbatim>\<open>*Client\<close> can end up in the interface
  value the load balancer code holds.
\<close>

section \<open>Configuration\<close>

record Config =
  cfg_ServerAddr :: string
  cfg_Timeout :: int
  cfg_RetryMax :: int
  cfg_RetryDelay :: int
  cfg_DialOpts :: "string list option"
  cfg_ApiKey :: string

record Client =
  cl_conn :: bool
  cl_config :: Config

definition second :: int where
  "second = 1000000000"

text \<open>The defaulting that \<^verbatim>\<open>NewClient\<close> applies to the configuration before it dials.\<close>

definition NewClient_config :: "Config \<Rightarrow> Config" where
  "NewClient_config c =
     (let c1 = (if cfg_Timeout c = 0 then c\<lparr>cfg_Timeout := 30 * second\<rparr> else c);
          c2 = (if cfg_RetryMax c1 = 0 then c1\<lparr>cfg_RetryMax := 3\<rparr> else c1);
          c3 = (if cfg_RetryDelay c2 = 0 then c2\<lparr>cfg_RetryDelay := 100000000\<rparr> else c2);
          c4 = (if cfg_DialOpts c3 = None then c3\<lparr>cfg_DialOpts := Some [''defaultServiceConfig'']\<rparr> else c3)
      in if cfg_ApiKey c4 \<noteq> ''''
         then c4\<lparr>cfg_DialOpts := map_option (\<lambda>os. os @ [''perRPCCredentials'']) (cfg_DialOpts c4)\<rparr>
         else c4)"

definition GetRequestMetadata :: "string \<Rightarrow> (string \<rightharpoonup> string)" where
  "GetRequestMetadata apiKey = [''authorization'' \<mapsto> ''Bearer '' @ apiKey]"

section \<open>Waiting for the connection\<close>

definition conn_GetState :: "env \<Rightarrow> (st, connectivity) go" where
  "conn_GetState e = ask_wire (env_GetState e) WState"

definition ctx_Err :: "env \<Rightarrow> (st, goerror option) go" where
  "ctx_Err e = ask_wire (env_ctx_Err e) (\<lambda>r. WCtx (r \<noteq> None))"

definition isConnectionReady :: "env \<Rightarrow> Client \<Rightarrow> (st, bool) go" where
  "isConnectionReady e c =
     (if \<not> cl_conn c then go_ret False
      else go_bind (conn_GetState e) (\<lambda>state. go_ret (state = Ready)))"

text \<open>
  \<^verbatim>\<open>WaitForStateChange\<close> answers \<^term>\<open>None\<close> when the state changed and the error of the
  attempt's context when that ended first. \<^verbatim>\<open>ResetConnectBackoff\<close>, called before it, only hastens the
  next dial and has no answer.
\<close>

partial_function (option) waitForReady_loop :: "env \<Rightarrow> st \<Rightarrow> (goerror option outcome \<times> st) option" where
  "waitForReady_loop e s0 =
     go_bind (conn_GetState e) (\<lambda>state s1.
       if state = Ready \<or> state = Idle then go_ret None s1
       else if state = Shutdown then go_ret (Some (ErrText ''connection is shutdown'')) s1
       else go_bind (ask_wire (\<lambda>s. env_WaitForStateChange e s state) (\<lambda>r. WWait (r = None)))
         (\<lambda>ended s2. case ended of
             Some err \<Rightarrow> go_ret (Some err) s2
           | None \<Rightarrow> waitForReady_loop e s2) s1) s0"

definition waitForReady :: "env \<Rightarrow> Client \<Rightarrow> (st, goerror option) go" where
  "waitForReady e c =
     (if \<not> cl_conn c then go_ret (Some (ErrText ''connection is not initialized''))
      else waitForReady_loop e)"

section \<open>Backoff\<close>

text \<open>
  \<^verbatim>\<open>calculateBackoff\<close>: \<^verbatim>\<open>base * time.Duration(1<<uint(attempt))\<close> wraps in 64 bits, the division
  truncates towards zero, and \<^verbatim>\<open>rand.Int63n\<close> panics on an argument that is not positive; its
  result is an arbitrary number below the argument.
\<close>

definition backoff_word :: "int \<Rightarrow> int \<Rightarrow> 64 word" where
  "backoff_word base attempt = word_of_int base * push_bit (nat attempt) 1"

definition trunc_half :: "int \<Rightarrow> int" where
  "trunc_half i = (if 0 \<le> i then i div 2 else - ((- i) div 2))"

definition maxDelay :: int where
  "maxDelay = 5 * second"

definition calculateBackoff :: "env \<Rightarrow> Client \<Rightarrow> int \<Rightarrow> (st, int) go" where
  "calculateBackoff e c attempt =
     (let backoff = backoff_word (cfg_RetryDelay (cl_config c)) attempt;
          half = trunc_half (sint backoff)
      in if half \<le> 0 then go_panic Int63nArgument
         else go_bind (ask_wire (\<lambda>s. env_rand e s mod half) WBackoff) (\<lambda>jitter.
           let delay = sint (backoff + word_of_int jitter)
           in go_ret (if delay > maxDelay then maxDelay else delay)))"

section \<open>Retrying\<close>

definition retryable_code :: "grpc_code \<Rightarrow> bool" where
  "retryable_code c \<longleftrightarrow> c \<in> {Unavailable, Canceled, DeadlineExceeded}"

definition final_code :: "grpc_code \<Rightarrow> bool" where
  "final_code c \<longleftrightarrow> c \<in> {NotFound, AlreadyExists, InvalidArgument, PermissionDenied}"

text \<open>
  What the loop does with the error of one attempt: stop with a result, or go on with the error
  as the last one seen.
\<close>

datatype 'r verdict = Stop "goerror + 'r option" | Continue goerror

definition judge :: "string \<Rightarrow> goerror option \<Rightarrow> goerror \<Rightarrow> 'r verdict" where
  "judge operation ctxErr err =
     (case ctxErr of
        Some ce \<Rightarrow> Stop (Inl ce)
      | None \<Rightarrow>
          (case FromError err of
             None \<Rightarrow> Continue (ErrWrap (operation @ '': unknown error type: '') err)
           | Some (code, _) \<Rightarrow>
               if code = OK then Stop (Inr None)
               else if retryable_code code then Continue err
               else if final_code code then Stop (Inl err)
               else Continue err))"

text \<open>One attempt: connection check, call, and the verdict on a failure.\<close>

definition attempt_once ::
  "env \<Rightarrow> Client \<Rightarrow> string \<Rightarrow> (st, goerror + 'r) go \<Rightarrow> (st, 'r verdict) go" where
  "attempt_once e c operation fn =
     go_bind (isConnectionReady e c) (\<lambda>ready.
     go_bind (if ready then go_ret None else waitForReady e c) (\<lambda>notReady.
       case notReady of
         Some err \<Rightarrow>
           go_bind (ctx_Err e) (\<lambda>ce. case ce of
               Some x \<Rightarrow> go_ret (Stop (Inl x))
             | None \<Rightarrow> go_ret (Continue (ErrWrap ''connection not ready: '' err)))
       | None \<Rightarrow>
           go_bind fn (\<lambda>r. case r of
               Inr resp \<Rightarrow> go_ret (Stop (Inr (Some resp)))
             | Inl err \<Rightarrow> go_bind (ctx_Err e) (\<lambda>ce. go_ret (judge operation ce err)))))"

text \<open>
  The loop over the attempts: the number of attempts left, the number of the next attempt and
  the last error. \<^verbatim>\<open>retryOnFailure\<close> starts it with \<^verbatim>\<open>RetryMax+1\<close> attempts left. (For the largest \<^verbatim>\<open>int\<close>
  the Go loop has no end, but no run gets there: the backoff of the 64th retry is 0, which panics.)
\<close>

definition exhausted :: "Client \<Rightarrow> string \<Rightarrow> goerror option \<Rightarrow> goerror" where
  "exhausted c operation lastErr =
     (let text = operation @ '' failed after '' @ itoa (cfg_RetryMax (cl_config c) + 1) @ '' attempts: ''
      in case lastErr of None \<Rightarrow> ErrWrapNil text | Some x \<Rightarrow> ErrWrap text x)"

primrec retry_loop ::
  "env \<Rightarrow> Client \<Rightarrow> string \<Rightarrow> (st, goerror + 'r) go \<Rightarrow> nat \<Rightarrow> int \<Rightarrow> goerror option
   \<Rightarrow> (st, goerror + 'r option) go" where
  "retry_loop e c operation fn 0 attempt lastErr =
     go_ret (Inl (exhausted c operation lastErr))"
| "retry_loop e c operation fn (Suc n) attempt lastErr =
     go_bind (if 0 < attempt
              then go_bind (calculateBackoff e c attempt) (\<lambda>delay.
                     ask_wire (\<lambda>s. env_select e s delay) (\<lambda>r. WCtx (r \<noteq> None)))
              else go_ret None) (\<lambda>done.
       case done of
         Some ce \<Rightarrow> go_ret (Inl ce)
       | None \<Rightarrow>
           go_bind (attempt_once e c operation fn) (\<lambda>v. case v of
               Stop r \<Rightarrow> go_ret r
             | Continue err \<Rightarrow> retry_loop e c operation fn n (attempt + 1) (Some err)))"

definition retryOnFailure ::
  "env \<Rightarrow> Client option \<Rightarrow> string \<Rightarrow> (st, goerror + 'r) go \<Rightarrow> (st, goerror + 'r option) go" where
  "retryOnFailure e c operation fn =
     (case c of
        None \<Rightarrow> go_panic NilDereference
      | Some cl \<Rightarrow> retry_loop e cl operation fn (nat (cfg_RetryMax (cl_config cl) + 1)) 0 None)"

section \<open>The RPC methods\<close>

definition sent :: "string \<Rightarrow> (goerror + 'r) \<Rightarrow> wire" where
  "sent operation r = WSend operation (case r of Inr _ \<Rightarrow> Some OK | Inl err \<Rightarrow> status_code err)"

definition Client_CreateLoadBalancer ::
  "env \<Rightarrow> Client option \<Rightarrow> CreateLoadBalancerRequest \<Rightarrow> (st, goerror + CreateLoadBalancerResponse option) go" where
  "Client_CreateLoadBalancer e c req = retryOnFailure e c ''CreateLoadBalancer''
     (ask_wire (\<lambda>s. env_Create e s req) (sent ''CreateLoadBalancer''))"

definition Client_GetLoadBalancer ::
  "env \<Rightarrow> Client option \<Rightarrow> GetLoadBalancerRequest \<Rightarrow> (st, goerror + GetLoadBalancerResponse option) go" where
  "Client_GetLoadBalancer e c req = retryOnFailure e c ''GetLoadBalancer''
     (ask_wire (\<lambda>s. env_Get e s req) (sent ''GetLoadBalancer''))"

definition Client_ListLoadBalancers ::
  "env \<Rightarrow> Client option \<Rightarrow> ListLoadBalancersRequest \<Rightarrow> (st, goerror + ListLoadBalancersResponse option) go" where
  "Client_ListLoadBalancers e c req = retryOnFailure e c ''ListLoadBalancers''
     (ask_wire (\<lambda>s. env_List e s req) (sent ''ListLoadBalancers''))"

definition Client_DeleteLoadBalancer ::
  "env \<Rightarrow> Client option \<Rightarrow> DeleteLoadBalancerRequest \<Rightarrow> (st, goerror + DeleteLoadBalancerResponse option) go" where
  "Client_DeleteLoadBalancer e c req = retryOnFailure e c ''DeleteLoadBalancer''
     (ask_wire (\<lambda>s. env_Delete e s req) (sent ''DeleteLoadBalancer''))"

definition Client_UpdateLoadBalancer ::
  "env \<Rightarrow> Client option \<Rightarrow> UpdateLoadBalancerRequest \<Rightarrow> (st, goerror + UpdateLoadBalancerResponse option) go" where
  "Client_UpdateLoadBalancer e c req = retryOnFailure e c ''UpdateLoadBalancer''
     (ask_wire (\<lambda>s. env_Update e s req) (sent ''UpdateLoadBalancer''))"

definition Client_AllocateFloatingIp ::
  "env \<Rightarrow> Client option \<Rightarrow> AllocateFloatingIpRequest \<Rightarrow> (st, goerror + AllocateFloatingIpResponse option) go" where
  "Client_AllocateFloatingIp e c req = retryOnFailure e c ''AllocateFloatingIp''
     (ask_wire (\<lambda>s. env_AllocateFip e s req) (sent ''AllocateFloatingIp''))"

definition Client_ReleaseFloatingIp ::
  "env \<Rightarrow> Client option \<Rightarrow> ReleaseFloatingIpRequest \<Rightarrow> (st, goerror + ReleaseFloatingIpResponse option) go" where
  "Client_ReleaseFloatingIp e c req = retryOnFailure e c ''ReleaseFloatingIp''
     (ask_wire (\<lambda>s. env_ReleaseFip e s req) (sent ''ReleaseFloatingIp''))"

text \<open>The \<^verbatim>\<open>*Client\<close> as a value of the interface \<^verbatim>\<open>rpcLBClient\<close>.\<close>

definition client_iface :: "env \<Rightarrow> Client option \<Rightarrow> rpcLBClient" where
  "client_iface e c =
     \<lparr>rpc_Create = Client_CreateLoadBalancer e c,
      rpc_Get = Client_GetLoadBalancer e c,
      rpc_Update = Client_UpdateLoadBalancer e c,
      rpc_Delete = Client_DeleteLoadBalancer e c,
      rpc_List = Client_ListLoadBalancers e c\<rparr>"

section \<open>Error classification\<close>

definition ToRPCError :: "goerror option \<Rightarrow> string" where
  "ToRPCError err =
     (case err of
        None \<Rightarrow> ''''
      | Some x \<Rightarrow>
          (case FromError x of
             None \<Rightarrow> Error x
           | Some (code, message) \<Rightarrow>
               if code = Unavailable then ''Load balancer service temporarily unavailable''
               else if code = DeadlineExceeded then ''Load balancer operation timed out''
               else if code = NotFound then ''Load balancer not found''
               else if code = AlreadyExists then ''Load balancer already exists''
               else if code = InvalidArgument then ''Invalid load balancer configuration''
               else if code = PermissionDenied then ''Permission denied to manage load balancer''
               else message))"

definition IsRetryable :: "goerror option \<Rightarrow> bool" where
  "IsRetryable err =
     (case err of
        None \<Rightarrow> False
      | Some x \<Rightarrow> (case FromError x of None \<Rightarrow> True | Some (code, _) \<Rightarrow> retryable_code code))"

section \<open>The client implements the interface\<close>

text \<open>Everything but the sending of a request leaves a view alone that ignores connection events.\<close>

fun is_WSend :: "wire \<Rightarrow> bool" where
  "is_WSend (WSend n c) = True"
| "is_WSend _ = False"

definition ignores_conn :: "(st \<Rightarrow> 'v) \<Rightarrow> bool" where
  "ignores_conn g \<longleftrightarrow> (\<forall>s xs. list_all (\<lambda>x. \<not> is_WSend x) xs \<longrightarrow> g (s\<lparr>wire := wire s @ xs\<rparr>) = g s)"

lemma ignores_connD [simp]:
  "ignores_conn g \<Longrightarrow> list_all (\<lambda>x. \<not> is_WSend x) xs \<Longrightarrow> g (s\<lparr>wire := wire s @ xs\<rparr>) = g s"
  by (simp add: ignores_conn_def)

lemma ignores_conn_caller [simp]: "ignores_conn caller_view"
  by (simp add: ignores_conn_def)

lemma waitForReady_loop_frame [go_frame]:
  assumes g: "ignores_conn g"
  shows "preserves g (waitForReady_loop e)"
proof (rule preservesI)
  fix s r s'
  assume ret: "waitForReady_loop e s = Some (r, s')"
  let ?P = "\<lambda>(e :: env) s (p :: goerror option outcome \<times> st). g (snd p) = g s"
  have "?P e s (r, s')"
  proof (rule waitForReady_loop.raw_induct [where P = ?P, OF _ ret])
    fix f e s p
    assume IH: "\<And>e s p. f e s = Some p \<Longrightarrow> ?P e s p"
      and "go_bind (conn_GetState e) (\<lambda>state s1.
       if state = Ready \<or> state = Idle then go_ret None s1
       else if state = Shutdown then go_ret (Some (ErrText ''connection is shutdown'')) s1
       else go_bind (ask_wire (\<lambda>s. env_WaitForStateChange e s state) (\<lambda>r. WWait (r = None)))
         (\<lambda>ended s2. case ended of None \<Rightarrow> f e s2 | Some err \<Rightarrow> go_ret (Some err) s2) s1) s = Some p"
    then show "?P e s p"
      using g by (auto simp: conn_GetState_def go_bind_def ask_wire_def split: if_splits option.splits dest!: IH)
  qed
  then show "g s' = g s" by simp
qed

lemma conn_frames [go_frame]:
  assumes "ignores_conn g"
  shows "preserves g (conn_GetState e)" "preserves g (ctx_Err e)"
    "preserves g (isConnectionReady e c)" "preserves g (waitForReady e c)"
    "preserves g (calculateBackoff e c n)"
  using assms
  by (auto simp: conn_GetState_def ctx_Err_def isConnectionReady_def waitForReady_def
      calculateBackoff_def Let_def intro!: go_frame)

lemma attempt_once_frame [go_frame]:
  "wire_only fn \<Longrightarrow> wire_only (attempt_once e c operation fn)"
  unfolding attempt_once_def by (auto intro!: go_frame)

lemma retry_loop_frame [go_frame]:
  assumes fn: "wire_only fn"
  shows "wire_only (retry_loop e c operation fn n attempt lastErr)"
proof (induction n arbitrary: attempt lastErr)
  case 0
  show ?case unfolding retry_loop.simps by (rule go_frame)
next
  case (Suc n)
  show ?case
    by (auto intro!: go_frame fn Suc.IH split: verdict.split)
qed

lemma retryOnFailure_frame [go_frame]:
  "wire_only fn \<Longrightarrow> wire_only (retryOnFailure e c operation fn)"
  by (auto simp: retryOnFailure_def intro!: go_frame)

lemmas Client_method_defs = Client_CreateLoadBalancer_def Client_GetLoadBalancer_def
  Client_UpdateLoadBalancer_def Client_DeleteLoadBalancer_def Client_ListLoadBalancers_def
  Client_AllocateFloatingIp_def Client_ReleaseFloatingIp_def

interpretation client: rpc_client "client_iface e c" for e c
  by unfold_locales (auto simp: client_iface_def Client_method_defs intro!: go_frame)

section \<open>How often a request is sent\<close>

definition sends :: "st \<Rightarrow> nat" where
  "sends s = length (filter is_WSend (wire s))"

lemma ignores_conn_sends [simp]: "ignores_conn sends"
  by (auto simp: ignores_conn_def sends_def list_all_iff)

lemma sends_frames:
  "isConnectionReady e c s = Some (r, s') \<Longrightarrow> sends s' = sends s"
  "waitForReady e c s = Some (w, s') \<Longrightarrow> sends s' = sends s"
  "calculateBackoff e c n s = Some (d, s') \<Longrightarrow> sends s' = sends s"
  "ctx_Err e s = Some (x, s') \<Longrightarrow> sends s' = sends s"
  by (auto dest: conn_frames(2,3,4,5) [OF ignores_conn_sends, THEN preservesD])

lemma sends_upd [simp]:
  "sends (s\<lparr>wire := wire s @ [x]\<rparr>) = (if is_WSend x then Suc (sends s) else sends s)"
  by (simp add: sends_def)

lemmas sends_wp = conn_frames [OF ignores_conn_sends, THEN wp_frameI]

lemma attempt_once_sends:
  "wp (attempt_once e c operation (ask_wire f (sent operation))) (\<lambda>_ s'. sends s' \<le> Suc (sends s)) s"
  unfolding attempt_once_def
  by (auto simp: go_wp sent_def intro!: sends_wp split: outcome.split option.split sum.split)

lemma wp_case_verdict [go_wp]:
  "wp (case v of Stop r \<Rightarrow> m r | Continue err \<Rightarrow> k err) Q s =
     (case v of Stop r \<Rightarrow> wp (m r) Q s | Continue err \<Rightarrow> wp (k err) Q s)"
  by (simp split: verdict.split)

lemma retry_loop_sends:
  "wp (retry_loop e c operation (ask_wire f (sent operation)) n attempt lastErr)
      (\<lambda>_ s'. sends s' \<le> sends s + n) s"
proof (induction n arbitrary: attempt lastErr s)
  case 0
  show ?case unfolding retry_loop.simps go_wp by simp
next
  case (Suc n)
  show ?case
    unfolding retry_loop.simps
    by (auto simp: go_wp intro!: sends_wp wp_conseq [OF attempt_once_sends] wp_conseq [OF Suc.IH]
        split: outcome.split option.split verdict.split)
qed

section \<open>Backoff arithmetic\<close>

lemma backoff_word_exact:
  assumes "0 < base" "0 \<le> attempt" "base * 2 ^ nat attempt < 2 ^ 63"
  shows "backoff_word base attempt = word_of_int (base * 2 ^ nat attempt)"
    and "sint (backoff_word base attempt) = base * 2 ^ nat attempt"
proof -
  show eq: "backoff_word base attempt = word_of_int (base * 2 ^ nat attempt)"
    by (simp add: backoff_word_def push_bit_eq_mult)
  have "0 \<le> base * 2 ^ nat attempt" using assms by simp
  with assms(3) show "sint (backoff_word base attempt) = base * 2 ^ nat attempt"
    using int64_id [of "base * 2 ^ nat attempt"] unfolding eq int64_def by linarith
qed

lemma jitter_room: "j < b div 2 \<Longrightarrow> 3 * b < 2 ^ 64 \<Longrightarrow> b + j < 2 ^ 63" for b j :: int
  by simp

text \<open>Without overflow the delay is the exponential backoff plus jitter, capped.\<close>

lemma calculateBackoff_value:
  assumes "0 < cfg_RetryDelay (cl_config c)" "0 < attempt"
    and "3 * (cfg_RetryDelay (cl_config c) * 2 ^ nat attempt) < 2 ^ 64"
  shows "calculateBackoff e c attempt s =
    (let b = cfg_RetryDelay (cl_config c) * 2 ^ nat attempt; j = env_rand e s mod (b div 2)
     in Some (Val (min (b + j) maxDelay), s\<lparr>wire := wire s @ [WBackoff j]\<rparr>))"
proof -
  let ?b = "cfg_RetryDelay (cl_config c) * 2 ^ nat attempt" and ?j = "env_rand e s mod (cfg_RetryDelay (cl_config c) * 2 ^ nat attempt div 2)"
  have two: "2 \<le> ?b"
  proof -
    have "(2::int) ^ 1 \<le> 2 ^ nat attempt" using assms(2) by (intro power_increasing) auto
    then have "1 * 2 \<le> cfg_RetryDelay (cl_config c) * 2 ^ nat attempt"
      using assms(1) by (intro mult_mono) auto
    then show ?thesis by simp
  qed
  have bl: "?b < 2 ^ 63" using assms(3) two by simp
  note exact = backoff_word_exact [OF assms(1) less_imp_le [OF assms(2)] bl]
  have pos: "0 < ?b div 2" using two by linarith
  then have j: "0 \<le> ?j" "?j < ?b div 2" by simp_all
  then have "?b + ?j < 2 ^ 63" using assms(3) by (intro jitter_room) auto
  then have d: "sint (backoff_word (cfg_RetryDelay (cl_config c)) attempt + word_of_int ?j) = ?b + ?j"
    using int64_id [of "?b + ?j"] j two unfolding exact(1) int64_def by simp
  have h: "trunc_half (sint (backoff_word (cfg_RetryDelay (cl_config c)) attempt)) = ?b div 2"
    using two unfolding exact(2) trunc_half_def by simp
  show ?thesis
    unfolding calculateBackoff_def Let_def h
    using pos d by (simp add: go_bind_def ask_wire_def min_def)
qed

lemma calculateBackoff_range:
  assumes "0 < cfg_RetryDelay (cl_config c)" "0 < attempt"
    and "3 * (cfg_RetryDelay (cl_config c) * 2 ^ nat attempt) < 2 ^ 64"
  shows "\<exists>d s'. calculateBackoff e c attempt s = Some (Val d, s') \<and>
    min (cfg_RetryDelay (cl_config c) * 2 ^ nat attempt) maxDelay \<le> d \<and> d \<le> maxDelay"
proof -
  have "2 \<le> cfg_RetryDelay (cl_config c) * 2 ^ nat attempt"
    using mult_mono [of 1 "cfg_RetryDelay (cl_config c)" "2 ^ 1" "(2::int) ^ nat attempt"]
      power_increasing [of 1 "nat attempt" "2::int"] assms(1,2) by simp
  then have "0 < cfg_RetryDelay (cl_config c) * 2 ^ nat attempt div 2" by linarith
  then have "0 \<le> env_rand e s mod (cfg_RetryDelay (cl_config c) * 2 ^ nat attempt div 2)" by simp
  then show ?thesis
    using calculateBackoff_value [OF assms, of e s] by (auto simp: Let_def)
qed

section \<open>Runs on a steady connection\<close>

text \<open>The connection is ready, the caller's context is alive and its timers fire.\<close>

definition steady :: "env \<Rightarrow> bool" where
  "steady e \<longleftrightarrow> (\<forall>s. env_GetState e s = Ready \<and> env_ctx_Err e s = None \<and> (\<forall>d. env_select e s d = None))"

lemma attempt_once_steady:
  assumes "steady e" "cl_conn c"
  shows "attempt_once e c operation (ask_wire f (sent operation)) s =
    (let s1 = s\<lparr>wire := wire s @ [WState Ready]\<rparr>; r = f s1;
         s2 = s1\<lparr>wire := wire s1 @ [sent operation r]\<rparr>
     in case r of
          Inr x \<Rightarrow> Some (Val (Stop (Inr (Some x))), s2)
        | Inl err \<Rightarrow> Some (Val (judge operation None err), s2\<lparr>wire := wire s2 @ [WCtx False]\<rparr>))"
  using assms
  by (auto simp: attempt_once_def isConnectionReady_def conn_GetState_def ctx_Err_def go_bind_def
      ask_wire_def steady_def Let_def split: sum.split)

lemma retry_loop_first:
  assumes "attempt_once e c operation fn s = Some (Val (Stop r), s')"
  shows "retry_loop e c operation fn (Suc n) 0 lastErr s = Some (Val r, s')"
  using assms by (simp add: go_bind_def)

text \<open>The backoff returns as long as the exponential fits into 63 bits, whatever the jitter adds.\<close>

lemma backoff_returns:
  assumes "0 < cfg_RetryDelay (cl_config c)" "0 < attempt"
    and "cfg_RetryDelay (cl_config c) * 2 ^ nat attempt < 2 ^ 63"
  shows "\<exists>d s'. calculateBackoff e c attempt s = Some (Val d, s')"
proof -
  have "(2::int) ^ 1 \<le> 2 ^ nat attempt" using assms(2) by (intro power_increasing) auto
  then have "1 * 2 \<le> cfg_RetryDelay (cl_config c) * 2 ^ nat attempt"
    using assms(1) by (intro mult_mono) auto
  then have "0 < trunc_half (sint (backoff_word (cfg_RetryDelay (cl_config c)) attempt))"
    unfolding backoff_word_exact(2) [OF assms(1) less_imp_le [OF assms(2)] assms(3)] trunc_half_def by simp
  then show ?thesis by (simp add: calculateBackoff_def Let_def go_bind_def ask_wire_def)
qed

text \<open>In the attempt in which it reaches the sign bit, the computation panics.\<close>

lemma backoff_panics:
  assumes "2 ^ 63 \<le> cfg_RetryDelay (cl_config c) * 2 ^ nat attempt"
    and "cfg_RetryDelay (cl_config c) * 2 ^ nat attempt < 2 ^ 64"
  shows "calculateBackoff e c attempt s = Some (Panic Int63nArgument, s)"
proof -
  let ?b = "cfg_RetryDelay (cl_config c) * 2 ^ nat attempt"
  have "backoff_word (cfg_RetryDelay (cl_config c)) attempt = word_of_int (?b - 2 ^ 64)"
    by (simp add: backoff_word_def push_bit_eq_mult word_of_int_2p_len [where 'a = 64, simplified])
  moreover have "sint (word_of_int (?b - 2 ^ 64) :: 64 word) = ?b - 2 ^ 64"
    using int64_id [of "?b - 2 ^ 64"] assms unfolding int64_def by simp
  ultimately have "trunc_half (sint (backoff_word (cfg_RetryDelay (cl_config c)) attempt)) \<le> 0"
    using assms(2) by (simp add: trunc_half_def)
  then show ?thesis by (simp add: calculateBackoff_def Let_def)
qed

lemma backoff_mono:
  assumes "0 < d" "d * 2 ^ nat m < 2 ^ 63" "a \<le> m"
  shows "d * 2 ^ nat a < (2 ^ 63 :: int)"
proof -
  have "(2::int) ^ nat a \<le> 2 ^ nat m" using assms(3) by (intro power_increasing) auto
  then have "d * 2 ^ nat a \<le> d * 2 ^ nat m" using assms(1) by simp
  with assms(2) show ?thesis by linarith
qed

text \<open>
  A stretch of \<open>k\<close> attempts that all fail in a way that is retried: the loop is then \<open>k\<close> attempts
  further and has sent \<open>k\<close> requests.
\<close>

lemma retry_loop_prefix:
  fixes f :: "st \<Rightarrow> goerror + 'r"
  assumes st: "steady e" "cl_conn c" and d: "0 < cfg_RetryDelay (cl_config c)"
    and f: "\<And>s. f s = Inl err" and ju: "judge operation None err = (Continue err' :: 'r verdict)"
  shows "0 \<le> attempt \<Longrightarrow> k = 0 \<or> cfg_RetryDelay (cl_config c) * 2 ^ nat (attempt + int k - 1) < 2 ^ 63 \<Longrightarrow>
    \<exists>s'. retry_loop e c operation (ask_wire f (sent operation)) (k + n) attempt lastErr s =
      retry_loop e c operation (ask_wire f (sent operation)) n (attempt + int k) (if k = 0 then lastErr else Some err') s' \<and>
      sends s' = sends s + k"
proof (induction k arbitrary: attempt lastErr s)
  case 0
  then show ?case by auto
next
  case (Suc k)
  let ?fn = "ask_wire f (sent operation)"
  have room: "cfg_RetryDelay (cl_config c) * 2 ^ nat (attempt + int k) < 2 ^ 63" using Suc.prems(2) by simp
  have "cfg_RetryDelay (cl_config c) * 2 ^ nat attempt < 2 ^ 63" by (rule backoff_mono [OF d room]) simp
  then have bk: "\<exists>s1. sends s1 = sends s \<and> (go_bind (calculateBackoff e c attempt) (\<lambda>delay.
      ask_wire (\<lambda>s. env_select e s delay) (\<lambda>r. WCtx (r \<noteq> None)))) s = Some (Val None, s1)" if pos: "0 < attempt"
  proof -
    obtain x s1 where b: "calculateBackoff e c attempt s = Some (Val x, s1)"
      using backoff_returns [OF d pos] \<open>cfg_RetryDelay (cl_config c) * 2 ^ nat attempt < 2 ^ 63\<close> by blast
    with st(1) sends_frames(3) [OF b] show ?thesis
      by (simp add: go_bind_def ask_wire_def steady_def)
  qed
  obtain s1 where s1: "sends s1 = sends s" and
    step: "retry_loop e c operation ?fn (Suc (k + n)) attempt lastErr s =
       go_bind (attempt_once e c operation ?fn) (\<lambda>v. case v of Stop r \<Rightarrow> go_ret r
         | Continue err \<Rightarrow> retry_loop e c operation ?fn (k + n) (attempt + 1) (Some err)) s1"
    using bk by (cases "0 < attempt") (auto simp: go_bind_Some)
  obtain s2 where s2: "attempt_once e c operation ?fn s1 = Some (Val (Continue err'), s2)" "sends s2 = Suc (sends s1)"
    by (simp add: attempt_once_steady [OF st] f ju Let_def sent_def sends_def)
  have "k = 0 \<or> cfg_RetryDelay (cl_config c) * 2 ^ nat (attempt + 1 + int k - 1) < 2 ^ 63" using room by simp
  from Suc.IH [OF _ this, of "Some err'" s2] Suc.prems(1) obtain s' where
    "retry_loop e c operation ?fn (k + n) (attempt + 1) (Some err') s2 =
       retry_loop e c operation ?fn n (attempt + 1 + int k) (Some err') s'" "sends s' = sends s2 + k" by auto
  then show ?case
    using step s1 s2 by (intro exI [of _ s']) (simp add: go_bind_Some add.assoc)
qed

lemma retryOnFailure_final:
  assumes "steady e" "cl_conn c" "0 \<le> cfg_RetryMax (cl_config c)" "final_code code"
    and "\<And>s. f s = Inl (StatusError code message)"
  shows "\<exists>s'. retryOnFailure e (Some c) operation (ask_wire f (sent operation)) s =
      Some (Val (Inl (StatusError code message)), s') \<and> sends s' = Suc (sends s)"
proof -
  let ?fn = "ask_wire f (sent operation)"
  obtain s' where "attempt_once e c operation ?fn s = Some (Val (Stop (Inl (StatusError code message))), s')"
    "sends s' = Suc (sends s)"
    using assms(4,5)
    by (auto simp: attempt_once_steady [OF assms(1,2)] Let_def judge_def final_code_def retryable_code_def sent_def sends_def)
  moreover have "nat (cfg_RetryMax (cl_config c) + 1) = Suc (nat (cfg_RetryMax (cl_config c)))"
    using assms(3) by simp
  ultimately show ?thesis
    by (simp only: retryOnFailure_def option.case) (simp add: go_bind_Some)
qed

lemma retryOnFailure_steady:
  assumes "steady e" "cl_conn c" "0 \<le> cfg_RetryMax (cl_config c)" "\<And>s. f s = Inr x"
  shows "retryOnFailure e (Some c) operation (ask_wire f (sent operation)) s =
    Some (Val (Inr (Some x)), s\<lparr>wire := wire s @ [WState Ready, sent operation (Inr x :: goerror + 'b)]\<rparr>)"
proof -
  obtain n where n: "nat (cfg_RetryMax (cl_config c) + 1) = Suc n"
    using assms(3) by (cases "nat (cfg_RetryMax (cl_config c) + 1)") auto
  show ?thesis
    unfolding retryOnFailure_def option.case n
    by (rule retry_loop_first) (simp add: attempt_once_steady [OF assms(1,2)] assms(4) Let_def)
qed

section \<open>Concrete instances\<close>

text \<open>A client with the configuration \<^verbatim>\<open>cloud.go\<close> builds.\<close>

definition demo_client :: Client where
  "demo_client = \<lparr>cl_conn = True, cl_config = \<lparr>cfg_ServerAddr = ''lb:80'', cfg_Timeout = 30000000000,
     cfg_RetryMax = 3, cfg_RetryDelay = 100000000, cfg_DialOpts = Some [], cfg_ApiKey = ''''\<rparr>\<rparr>"

lemma steady_quiet: "steady quiet_env"
  by (simp add: steady_def quiet_env_def)

section \<open>Properties\<close>

text \<open>
  Bounded retrying: whatever the connection, the context and the server do, one call of
  \<^verbatim>\<open>retryOnFailure\<close> sends its request at most \<^verbatim>\<open>RetryMax+1\<close> times.
\<close>

lemma retry_attempts_bounded:
  "wp (retryOnFailure e (Some c) operation (ask_wire f (sent operation)))
      (\<lambda>_ s'. sends s' \<le> sends s + nat (cfg_RetryMax (cl_config c) + 1)) s"
  unfolding retryOnFailure_def option.case by (rule retry_loop_sends)

text \<open>
  C39. Which failures are retried: on a ready connection with a live context, when every attempt
  fails with the same gRPC status and the backoff of the last retry fits into 63 bits, the call
  returns an error that carries the code. For \<^verbatim>\<open>NotFound\<close>, \<^verbatim>\<open>AlreadyExists\<close>, \<^verbatim>\<open>InvalidArgument\<close> and
  \<^verbatim>\<open>PermissionDenied\<close> this is the error of the server after a single request; for every other code
  (but \<^verbatim>\<open>OK\<close>) the request is sent exactly \<^verbatim>\<open>RetryMax+1\<close> times and the last error comes back wrapped.
  The codes that are retried include the ones such as \<^verbatim>\<open>Internal\<close> that \<^verbatim>\<open>IsRetryable\<close>, asked about
  the error that comes back, calls not retryable.
\<close>

theorem retried_codes:
  fixes f :: "st \<Rightarrow> goerror + 'r"
  assumes "steady e" "cl_conn c" "0 \<le> cfg_RetryMax (cl_config c)" "0 < cfg_RetryDelay (cl_config c)"
    and "cfg_RetryDelay (cl_config c) * 2 ^ nat (cfg_RetryMax (cl_config c)) < 2 ^ 63"
    and "code \<noteq> OK" and "\<And>s. f s = Inl (StatusError code message)"
  shows "\<exists>s' err. retryOnFailure e (Some c) operation (ask_wire f (sent operation)) s = Some (Val (Inl err), s') \<and>
      status_code err = Some code \<and>
      (if code \<in> {NotFound, AlreadyExists, InvalidArgument, PermissionDenied}
       then err = StatusError code message \<and> sends s' = sends s + 1
       else err = ErrWrap (operation @ '' failed after '' @ itoa (cfg_RetryMax (cl_config c) + 1) @ '' attempts: '')
                          (StatusError code message) \<and>
            sends s' = sends s + nat (cfg_RetryMax (cl_config c) + 1)) \<and>
      (IsRetryable (Some err) \<longleftrightarrow> code \<in> {Unavailable, Canceled, DeadlineExceeded})"
proof (cases "final_code code")
  case True
  with retryOnFailure_final [OF assms(1-3) True assms(7)] show ?thesis
    by (fastforce simp: final_code_def IsRetryable_def retryable_code_def)
next
  case False
  let ?n = "nat (cfg_RetryMax (cl_config c) + 1)"
  have "judge operation None (StatusError code message) = (Continue (StatusError code message) :: 'r verdict)"
    using assms(6) False by (auto simp: judge_def)
  from retry_loop_prefix [where f = f, OF assms(1,2,4,7) this, where attempt = 0 and lastErr = None and s = s and k = ?n and n = 0]
  obtain s' where "retryOnFailure e (Some c) operation (ask_wire f (sent operation)) s =
      Some (Val (Inl (exhausted c operation (Some (StatusError code message)))), s')" "sends s' = sends s + ?n"
    using assms(3,5) by (auto simp: retryOnFailure_def)
  with False show ?thesis
    by (auto simp: exhausted_def Let_def final_code_def IsRetryable_def retryable_code_def)
qed

theorem retried_codes_witness:
  "\<exists>s' err. retryOnFailure quiet_env (Some demo_client) ''GetLoadBalancer''
      (ask_wire (\<lambda>_. Inl (StatusError Internal ''broken'') :: goerror + unit) (sent ''GetLoadBalancer'')) init_st =
      Some (Val (Inl err), s') \<and> status_code err = Some Internal \<and> sends s' = 4 \<and> \<not> IsRetryable (Some err)"
proof -
  have "\<exists>s' err. retryOnFailure quiet_env (Some demo_client) ''GetLoadBalancer''
      (ask_wire (\<lambda>_. Inl (StatusError Internal ''broken'') :: goerror + unit) (sent ''GetLoadBalancer'')) init_st = Some (Val (Inl err), s') \<and>
      status_code err = Some Internal \<and>
      (if Internal \<in> {NotFound, AlreadyExists, InvalidArgument, PermissionDenied}
       then err = StatusError Internal ''broken'' \<and> sends s' = sends init_st + 1
       else err = ErrWrap (''GetLoadBalancer'' @ '' failed after '' @ itoa (cfg_RetryMax (cl_config demo_client) + 1) @ '' attempts: '')
                          (StatusError Internal ''broken'') \<and>
            sends s' = sends init_st + nat (cfg_RetryMax (cl_config demo_client) + 1)) \<and>
      (IsRetryable (Some err) \<longleftrightarrow> Internal \<in> {Unavailable, Canceled, DeadlineExceeded})"
    by (rule retried_codes) (simp_all add: demo_client_def steady_quiet)
  then show ?thesis by (auto simp: sends_def init_st_def demo_client_def)
qed

text \<open>
  Backoff bounds: as long as one and a half times the exponential backoff fits into 63 bits,
  \<^verbatim>\<open>calculateBackoff\<close> does not panic and its delay lies between the exponential backoff (or the
  cap, if that is smaller) and the cap of five seconds.
\<close>

lemma backoff_bounds:
  assumes "0 < cfg_RetryDelay (cl_config c)" "0 < attempt"
    and "3 * (cfg_RetryDelay (cl_config c) * 2 ^ nat attempt) < 2 ^ 64"
  shows "\<exists>d s'. calculateBackoff e c attempt s = Some (Val d, s') \<and>
    min (cfg_RetryDelay (cl_config c) * 2 ^ nat attempt) 5000000000 \<le> d \<and> d \<le> 5000000000"
  using calculateBackoff_range [OF assms, of e s] by (simp add: maxDelay_def second_def)

text \<open>
  C40. Retrying runs into an overflow: let \<open>k\<close> be the first retry whose exponential backoff, the delay
  times \<open>2\<close> to the \<open>k\<close>, no longer fits into 63 bits. With a \<^verbatim>\<open>RetryMax\<close> of at least \<open>k\<close>, a call whose
  attempts all fail with a code that is retried does not return an error: after exactly \<open>k\<close> requests
  the backoff has become negative, \<^verbatim>\<open>rand.Int63n\<close> panics, and the process with it. For the delay of
  100ms that \<^verbatim>\<open>cloud.go\<close> configures \<open>k\<close> is 37.
\<close>

theorem backoff_overflow_panics:
  fixes f :: "st \<Rightarrow> goerror + 'r"
  assumes "steady e" "cl_conn c" "0 < cfg_RetryDelay (cl_config c)"
    and k: "0 < k" "int k \<le> cfg_RetryMax (cl_config c)"
      "cfg_RetryDelay (cl_config c) * 2 ^ (k - 1) < 2 ^ 63" "2 ^ 63 \<le> cfg_RetryDelay (cl_config c) * 2 ^ k"
    and code: "code \<noteq> OK" "code \<notin> {NotFound, AlreadyExists, InvalidArgument, PermissionDenied}"
    and f: "\<And>s. f s = Inl (StatusError code message)"
  shows "\<exists>s'. retryOnFailure e (Some c) operation (ask_wire f (sent operation)) s = Some (Panic Int63nArgument, s') \<and>
    sends s' = sends s + k"
proof -
  have ju: "judge operation None (StatusError code message) = (Continue (StatusError code message) :: 'r verdict)"
    using code by (auto simp: judge_def final_code_def)
  have "Suc k \<le> nat (cfg_RetryMax (cl_config c) + 1)" using k(2) by simp
  then obtain m where "nat (cfg_RetryMax (cl_config c) + 1) = Suc k + m" using le_Suc_ex by blast
  then obtain n where n: "nat (cfg_RetryMax (cl_config c) + 1) = k + Suc n" by simp
  have exp: "nat (0 + int k - 1) = k - 1" using k(1) by simp
  from retry_loop_prefix [where f = f, OF assms(1-3) f ju, where attempt = 0 and lastErr = None and s = s and k = k and n = "Suc n"] k(1,3)
  obtain s' where run: "retryOnFailure e (Some c) operation (ask_wire f (sent operation)) s =
      retry_loop e c operation (ask_wire f (sent operation)) (Suc n) (int k) (Some (StatusError code message)) s'"
    and sends: "sends s' = sends s + k"
    unfolding retryOnFailure_def option.case n exp by auto
  have double: "cfg_RetryDelay (cl_config c) * 2 ^ nat (int k) = 2 * (cfg_RetryDelay (cl_config c) * 2 ^ (k - 1))"
    unfolding nat_int using k(1) by (cases k) simp_all
  have "2 * x < 2 ^ 64" if "x < 2 ^ 63" for x :: int using that by simp
  then have "cfg_RetryDelay (cl_config c) * 2 ^ nat (int k) < 2 ^ 64" unfolding double using k(3) by blast
  with k(4) have "calculateBackoff e c (int k) s' = Some (Panic Int63nArgument, s')" by (intro backoff_panics) simp_all
  with k(1) run sends show ?thesis by (simp add: go_bind_Some)
qed

theorem backoff_overflow_panics_witness:
  "\<exists>s'. retryOnFailure quiet_env (Some (demo_client\<lparr>cl_config := (cl_config demo_client)\<lparr>cfg_RetryMax := 40\<rparr>\<rparr>)) ''GetLoadBalancer''
      (ask_wire (\<lambda>_. Inl (StatusError Unavailable ''down'') :: goerror + unit) (sent ''GetLoadBalancer'')) init_st =
      Some (Panic Int63nArgument, s') \<and> sends s' = sends init_st + 37"
  by (rule backoff_overflow_panics [where code = Unavailable and message = "''down''"]) (simp_all add: demo_client_def steady_quiet)

text \<open>
  Error texts survive retrying: for the six codes that have a message of their own,
  \<^verbatim>\<open>ToRPCError\<close> gives the same text for the error wrapped after the last attempt as for the
  server's answer itself.
\<close>

lemma ToRPCError_wrapped:
  assumes "status_code err = Some code"
    and "code \<in> {Unavailable, DeadlineExceeded, NotFound, AlreadyExists, InvalidArgument, PermissionDenied}"
  shows "ToRPCError (Some (exhausted c operation (Some err))) = ToRPCError (Some (StatusError code message))"
  using assms by (auto simp: ToRPCError_def exhausted_def Let_def)

end
