(* ===== verification/LB_Provider.thy ===== *)
theory LB_Provider
  imports LB_Listeners LB_Identity Rpc_Client
begin

text \<open>
  The load balancer controller of \<^verbatim>\<open>pkg/provider/loadbalancer.go\<close>: the operations that change
  state. A call through the RPC interface is recorded in the call history with the answer the
  controller saw; the retry counters are the part of the state that outlives a call. Errors are
  values (\<^typ>\<open>goerror + 'a\<close>), panics unwind, and a loop that never ends is \<^term>\<open>None\<close>.
\<close>

section \<open>Calls\<close>

definition logged :: "('r \<Rightarrow> call) \<Rightarrow> (st, 'r) go \<Rightarrow> (st, 'r) go" where
  "logged ev m = go_bind m (\<lambda>r. go_bind (log_call (ev r)) (\<lambda>_. go_ret r))"

text \<open>A method call on a nil interface value panics.\<close>

definition lb_Create ::
  "loadbalancer \<Rightarrow> CreateLoadBalancerRequest \<Rightarrow> (st, goerror + CreateLoadBalancerResponse option) go" where
  "lb_Create lb req = (case lb_rpcClient lb of None \<Rightarrow> go_panic NilDereference
     | Some R \<Rightarrow> logged (CCreate req) (rpc_Create R req))"

definition lb_Get :: "loadbalancer \<Rightarrow> string \<Rightarrow> (st, goerror + GetLoadBalancerResponse option) go" where
  "lb_Get lb lbID = (case lb_rpcClient lb of None \<Rightarrow> go_panic NilDereference
     | Some R \<Rightarrow> logged (CGet lbID) (rpc_Get R \<lparr>gr_Id = lbID\<rparr>))"

definition lb_Update ::
  "loadbalancer \<Rightarrow> UpdateLoadBalancerRequest \<Rightarrow> (st, goerror + UpdateLoadBalancerResponse option) go" where
  "lb_Update lb req = (case lb_rpcClient lb of None \<Rightarrow> go_panic NilDereference
     | Some R \<Rightarrow> logged (CUpdate req) (rpc_Update R req))"

definition lb_Delete :: "loadbalancer \<Rightarrow> string \<Rightarrow> (st, goerror + DeleteLoadBalancerResponse option) go" where
  "lb_Delete lb lbID = (case lb_rpcClient lb of None \<Rightarrow> go_panic NilDereference
     | Some R \<Rightarrow> logged (CDelete lbID) (rpc_Delete R \<lparr>dr_Id = lbID\<rparr>))"

definition lb_List ::
  "loadbalancer \<Rightarrow> ListLoadBalancersRequest \<Rightarrow> (st, goerror + ListLoadBalancersResponse option) go" where
  "lb_List lb req = (case lb_rpcClient lb of None \<Rightarrow> go_panic NilDereference
     | Some R \<Rightarrow> logged (CList req) (rpc_List R req))"

definition time_Now :: "env \<Rightarrow> (st, int) go" where
  "time_Now e = ask_call (env_now e) CNow"

text \<open>
  \<^verbatim>\<open>select\<close> on \<^verbatim>\<open>ctx.Done()\<close> and \<^verbatim>\<open>time.After(d)\<close>: the context's error if that branch is
  taken, \<^term>\<open>None\<close> if the timer fired.
\<close>

definition select_after :: "env \<Rightarrow> int \<Rightarrow> (st, goerror option) go" where
  "select_after e d = ask_call (\<lambda>s. env_select e s d) (CSleep d)"

section \<open>Status\<close>

definition pendingStatus :: LoadBalancerStatus where
  "pendingStatus = [\<lparr>ing_IP = '''', ing_Hostname = LoadBalancerPendingHostname, ing_IPMode = None\<rparr>]"

definition loadBalancerStatusFromResponse ::
  "loadbalancer \<Rightarrow> Service \<Rightarrow> LoadBalancer option \<Rightarrow> LoadBalancerStatus option" where
  "loadBalancerStatusFromResponse lb service lbStatus =
     (case lbStatus of
        None \<Rightarrow> None
      | Some l \<Rightarrow>
          let ip = (if isFipEnabled lb service \<and> ld_Fip l \<noteq> '''' then ld_Fip l else ld_Ip l);
              ipMode = (if useAnnotationConfig lb \<and> isInternalMode lb service
                        then LoadBalancerIPModeProxy else LoadBalancerIPModeVIP)
          in if ip = '''' then None
             else Some [\<lparr>ing_IP = ip, ing_Hostname = '''', ing_IPMode = Some ipMode\<rparr>])"

definition lbErrorDetail :: "LoadBalancer option \<Rightarrow> string" where
  "lbErrorDetail lbStatus =
     (case lbStatus of
        None \<Rightarrow> ''''
      | Some l \<Rightarrow> if ld_Error l \<noteq> ''''
                 then '' (state '' @ State_String (ld_State l) @ '': '' @ ld_Error l @ '')''
                 else '' (state '' @ State_String (ld_State l) @ '')'')"

definition not_configured :: goerror where
  "not_configured = ErrText ''load balancer RPC client is not configured''"

definition rpc_error :: "goerror \<Rightarrow> goerror" where
  "rpc_error err = ErrText (ToRPCError (Some err))"

definition GetLoadBalancer ::
  "loadbalancer \<Rightarrow> Service \<Rightarrow> (st, goerror + (LoadBalancerStatus option \<times> bool)) go" where
  "GetLoadBalancer lb service =
     (if lb_rpcClient lb = None then go_ret (Inl not_configured)
      else if shouldSkipService lb service then go_ret (Inr (None, False))
      else let lbID = annot service LoadBalancerIDAnnotationKey
           in if lbID = '''' then go_ret (Inr (None, False))
              else go_bind (lb_Get lb lbID) (\<lambda>resp. case resp of
                  Inl err \<Rightarrow> go_ret (Inl (rpc_error err))
                | Inr r \<Rightarrow> if GetLoadBalancer_of r \<noteq> None
                           then go_ret (Inr (loadBalancerStatusFromResponse lb service (GetLoadBalancer_of r), True))
                           else go_ret (Inr (None, False))))"

section \<open>Waiting until ready\<close>

text \<open>What the loop does with one answer: return, or (\<^term>\<open>None\<close>) wait for the next round.\<close>

definition pollVerdict ::
  "loadbalancer \<Rightarrow> Service \<Rightarrow> string \<Rightarrow> goerror + GetLoadBalancerResponse option \<Rightarrow> (goerror + LoadBalancer) option" where
  "pollVerdict lb service lbID resp =
     (case resp of
        Inl err \<Rightarrow> None
      | Inr r \<Rightarrow>
          (case GetLoadBalancer_of r of
             None \<Rightarrow> None
           | Some l \<Rightarrow>
               if ld_State l = STATE_FAILED
               then Some (Inl (ErrText (''load balancer '' @ lbID @ '' failed'' @ lbErrorDetail (Some l))))
               else if ld_State l = STATE_READY \<and> ld_Ip l \<noteq> ''''
                    \<and> (\<not> isFipEnabled lb service \<or> ld_FipState l = FIP_STATE_ACTIVE)
               then Some (Inr l)
               else None))"

partial_function (option) pollLoop ::
  "env \<Rightarrow> loadbalancer \<Rightarrow> Service \<Rightarrow> string \<Rightarrow> int \<Rightarrow> int \<Rightarrow> int \<Rightarrow> st \<Rightarrow> ((goerror + LoadBalancer) outcome \<times> st) option" where
  "pollLoop e lb service lbID interval timeout deadline s0 =
     go_bind (time_Now e) (\<lambda>now s1.
       if \<not> now < deadline then go_ret (Inl (NotReadyWithin lbID timeout)) s1
       else go_bind (lb_Get lb lbID) (\<lambda>resp s2.
         case pollVerdict lb service lbID resp of
           Some result \<Rightarrow> go_ret result s2
         | None \<Rightarrow> go_bind (select_after e interval) (\<lambda>ended s3.
             case ended of
               Some err \<Rightarrow> go_ret (Inl err) s3
             | None \<Rightarrow> pollLoop e lb service lbID interval timeout deadline s3) s2) s1) s0"

definition poll_interval :: "loadbalancer \<Rightarrow> int" where
  "poll_interval lb = seconds (case lc_CreationPollInterval (lb_config lb) of
     None \<Rightarrow> DefaultLoadBalancerCreatePollInterval | Some n \<Rightarrow> n)"

definition poll_timeout :: "loadbalancer \<Rightarrow> int" where
  "poll_timeout lb = seconds (case lc_CreationPollTimeout (lb_config lb) of
     None \<Rightarrow> DefaultLoadBalancerCreatePollTimeout | Some n \<Rightarrow> n)"

definition pollLoadBalancerReady ::
  "env \<Rightarrow> loadbalancer \<Rightarrow> Service \<Rightarrow> string \<Rightarrow> (st, goerror + LoadBalancer) go" where
  "pollLoadBalancerReady e lb service lbID =
     go_bind (time_Now e) (\<lambda>now.
       pollLoop e lb service lbID (poll_interval lb) (poll_timeout lb) (now + poll_timeout lb))"

section \<open>Annotations\<close>

primrec retryOnConflict :: "nat \<Rightarrow> (st, goerror option) go \<Rightarrow> goerror option \<Rightarrow> (st, goerror option) go" where
  "retryOnConflict 0 fn lastErr = go_ret lastErr"
| "retryOnConflict (Suc steps) fn lastErr =
     go_bind fn (\<lambda>r. case r of
         None \<Rightarrow> go_ret None
       | Some err \<Rightarrow> if IsConflict err then retryOnConflict steps fn (Some err) else go_ret (Some err))"

definition annotate :: "Service \<Rightarrow> string \<Rightarrow> string \<Rightarrow> Service" where
  "annotate svc key val = svc\<lparr>svc_Annotations := Some ((annots svc)(key \<mapsto> val))\<rparr>"

definition annotateOnce :: "env \<Rightarrow> Service \<Rightarrow> string \<Rightarrow> string \<Rightarrow> (st, goerror option) go" where
  "annotateOnce e service key val =
     go_bind (ask_call (\<lambda>s. env_tenant_Get e s (svc_Namespace service) (svc_Name service))
                       (CSvcGet (svc_Namespace service) (svc_Name service))) (\<lambda>r.
       case r of
         Inl err \<Rightarrow> go_ret (Some err)
       | Inr latest \<Rightarrow>
           if svc_Annotations latest \<noteq> None \<and> annot latest key = val then go_ret None
           else let updated = annotate latest key val
                in ask_call (\<lambda>s. env_tenant_Update e s updated) (CSvcUpdate updated))"

definition ensureServiceAnnotation :: "env \<Rightarrow> Service \<Rightarrow> string \<Rightarrow> string \<Rightarrow> (st, goerror option) go" where
  "ensureServiceAnnotation e service key val = retryOnConflict 5 (annotateOnce e service key val) None"

definition recordListenerHash :: "env \<Rightarrow> Service \<Rightarrow> Listener list \<Rightarrow> (st, unit) go" where
  "recordListenerHash e service listeners =
     go_bind (ensureServiceAnnotation e service LoadBalancerListenerHashAnnotationKey (listenersHashStr e listeners))
       (\<lambda>_. go_ret ())"

definition storeInternalIpIfBothMode :: "env \<Rightarrow> loadbalancer \<Rightarrow> Service \<Rightarrow> LoadBalancer option \<Rightarrow> (st, unit) go" where
  "storeInternalIpIfBothMode e lb service lbStatus =
     (case lbStatus of
        None \<Rightarrow> go_ret ()
      | Some l \<Rightarrow>
          if isBothMode lb service \<and> ld_Ip l \<noteq> ''''
          then go_bind (ensureServiceAnnotation e service LoadBalancerInternalIPAnnotationKey (ld_Ip l)) (\<lambda>_. go_ret ())
          else go_ret ())"

definition kamajiPatch :: "string \<Rightarrow> string" where
  "kamajiPatch internalIP =
     jprint (JObj [(''spec'', JObj [(''network'', JObj [(''advertiseAddress'', JStr internalIP)])])])"

definition updateKamajiAdvertiseAddress :: "env \<Rightarrow> loadbalancer \<Rightarrow> Service \<Rightarrow> string \<Rightarrow> (st, unit) go" where
  "updateKamajiAdvertiseAddress e lb service internalIP =
     (if \<not> useAnnotationConfig lb \<or> internalIP = '''' then go_ret ()
      else let kcpName = mget (svc_Labels service) KamajiNameLabelKey
           in if kcpName = '''' then go_ret ()
              else go_bind (ask_call (\<lambda>s. env_tenant_Patch e s (svc_Namespace service) kcpName (kamajiPatch internalIP))
                     (CPatchKamaji (svc_Namespace service) kcpName (kamajiPatch internalIP))) (\<lambda>_. go_ret ()))"

section \<open>Retry counters\<close>

definition clearRetryCount :: "string \<Rightarrow> st \<Rightarrow> st" where
  "clearRetryCount uid s = s\<lparr>retryCounts := (retryCounts s)(uid := None)\<rparr>"

definition retryCount :: "st \<Rightarrow> string \<Rightarrow> int" where
  "retryCount s uid = (case retryCounts s uid of None \<Rightarrow> 0 | Some n \<Rightarrow> n)"

definition incrementRetryCount :: "string \<Rightarrow> st \<Rightarrow> st" where
  "incrementRetryCount uid s = s\<lparr>retryCounts := (retryCounts s)(uid \<mapsto> retryCount s uid + 1)\<rparr>"

section \<open>Deletion\<close>

partial_function (option) findLoop ::
  "loadbalancer \<Rightarrow> string \<Rightarrow> string \<Rightarrow> string \<Rightarrow> st \<Rightarrow> ((goerror + string) outcome \<times> st) option" where
  "findLoop lb tenantID lbName pageToken s0 =
     go_bind (lb_List lb \<lparr>lsr_TenantId = tenantID, lsr_PageSize = listLoadBalancersPageSize, lsr_PageToken = pageToken\<rparr>)
       (\<lambda>resp s1. case resp of
           Inl err \<Rightarrow> go_ret (Inl err) s1
         | Inr r \<Rightarrow>
             (case find (\<lambda>summary. sum_Name summary = lbName) (GetLoadBalancers_of r) of
                Some summary \<Rightarrow> go_ret (Inr (sum_Id summary)) s1
              | None \<Rightarrow> if GetNextPageToken_of r = '''' then go_ret (Inr '''') s1
                        else findLoop lb tenantID lbName (GetNextPageToken_of r) s1)) s0"

definition findLoadBalancerByName :: "loadbalancer \<Rightarrow> string \<Rightarrow> string \<Rightarrow> (st, goerror + string) go" where
  "findLoadBalancerByName lb tenantID lbName = findLoop lb tenantID lbName ''''"

definition isRpcNotFound :: "goerror \<Rightarrow> bool" where
  "isRpcNotFound err = (case FromError err of None \<Rightarrow> False | Some (code, _) \<Rightarrow> code = NotFound)"

text \<open>Lines 987 to 1000: delete by identifier, if there is one.\<close>

definition deleteByID :: "loadbalancer \<Rightarrow> string \<Rightarrow> (st, goerror option) go" where
  "deleteByID lb lbID =
     (if lbID = '''' then go_ret None
      else go_bind (lb_Delete lb lbID) (\<lambda>resp. case resp of
          Inr _ \<Rightarrow> go_ret None
        | Inl err \<Rightarrow> if \<not> isRpcNotFound err then go_ret (Some (rpc_error err)) else go_ret None))"

definition EnsureLoadBalancerDeleted :: "loadbalancer \<Rightarrow> Service \<Rightarrow> (st, goerror option) go" where
  "EnsureLoadBalancerDeleted lb service =
     (let lbID = annot service LoadBalancerIDAnnotationKey
      in if lb_rpcClient lb = None then go_ret (Some not_configured)
         else if shouldSkipService lb service \<and> lbID = '''' then go_ret None
         else go_defer (clearRetryCount (svc_UID service))
           (if lbID = '''' then
              go_bind (findLoadBalancerByName lb (getTenantID lb service) (GetLoadBalancerName service)) (\<lambda>found.
                case found of
                  Inl err \<Rightarrow> go_ret (Some (rpc_error err))
                | Inr i \<Rightarrow> deleteByID lb i)
            else deleteByID lb lbID))"

section \<open>Creation and update\<close>

definition createRequest :: "env \<Rightarrow> loadbalancer \<Rightarrow> Service \<Rightarrow> Listener list \<Rightarrow> int \<Rightarrow> CreateLoadBalancerRequest" where
  "createRequest e lb service listeners createAttempt =
     (let fip = isFipEnabled lb service \<and> lc_FipNetworkID (lb_config lb) \<noteq> ''''
      in \<lparr>cr_Name = GetLoadBalancerName service,
          cr_Spec = \<lparr>spec_TenantId = getTenantID lb service, spec_NetworkId = getNetworkID lb service,
            spec_SubnetId = getSubnetID lb service, spec_Listeners = map Some listeners,
            spec_ClientConnLimit = defaultClientConnLimit, spec_SecurityGroupDisabled = True,
            spec_SecurityGroupIds = [], spec_QosPolicyDisabled = True, spec_QosPolicyId = ''''\<rparr>,
          cr_Fip = (if fip then Some '''' else None),
          cr_FipNetworkId = (if fip then Some (lc_FipNetworkID (lb_config lb)) else None),
          cr_IdempotencyKey = createIdempotencyKey e service createAttempt\<rparr>)"

definition updateRequest :: "string \<Rightarrow> Listener list \<Rightarrow> LoadBalancer option \<Rightarrow> UpdateLoadBalancerRequest" where
  "updateRequest lbID listeners lbStatus =
     \<lparr>ur_Id = lbID, ur_Listeners = mergeListenerIDs listeners (GetListeners_of lbStatus),
      ur_ClientConnLimit = None, ur_SecurityGroupDisabled = Some True, ur_SecurityGroupIds = [],
      ur_QosPolicyDisabled = Some True, ur_QosPolicyId = None\<rparr>"

type_synonym ensured = "goerror + LoadBalancerStatus option"

text \<open>The tail that every successful branch shares: publish the address and report the status.\<close>

definition publish :: "env \<Rightarrow> loadbalancer \<Rightarrow> Service \<Rightarrow> LoadBalancer \<Rightarrow> (st, ensured) go" where
  "publish e lb service l =
     go_bind (updateKamajiAdvertiseAddress e lb service (ld_Ip l)) (\<lambda>_.
     go_bind (storeInternalIpIfBothMode e lb service (Some l)) (\<lambda>_.
       go_ret (Inr (loadBalancerStatusFromResponse lb service (Some l)))))"

definition waitAndPublish :: "env \<Rightarrow> loadbalancer \<Rightarrow> Service \<Rightarrow> string \<Rightarrow> (st, ensured) go" where
  "waitAndPublish e lb service lbID =
     go_bind (pollLoadBalancerReady e lb service lbID) (\<lambda>polled. case polled of
         Inl err \<Rightarrow> go_ret (Inl err)
       | Inr l \<Rightarrow> publish e lb service l)"

text \<open>
  The part the create and the recreate branch share (lines 237 to 261 and 348 to 370): create,
  remember the identifier, the create count and the hash, reset the counter, wait, publish.
\<close>

definition createAndWait ::
  "env \<Rightarrow> loadbalancer \<Rightarrow> Service \<Rightarrow> Listener list \<Rightarrow> CreateLoadBalancerRequest \<Rightarrow> string \<Rightarrow> (st, ensured) go" where
  "createAndWait e lb service listeners createReq count =
     go_bind (lb_Create lb createReq) (\<lambda>resp. case resp of
         Inl err \<Rightarrow> go_ret (Inl (rpc_error err))
       | Inr None \<Rightarrow> go_panic NilDereference
       | Inr (Some r) \<Rightarrow>
           go_bind (ensureServiceAnnotation e service LoadBalancerIDAnnotationKey (crr_Id r)) (\<lambda>failed. case failed of
               Some err \<Rightarrow> go_ret (Inl err)
             | None \<Rightarrow>
                 go_bind (ensureServiceAnnotation e service LoadBalancerCreateCountAnnotationKey count) (\<lambda>_.
                 go_bind (recordListenerHash e service listeners) (\<lambda>_.
                 go_bind (go_modify (clearRetryCount (svc_UID service))) (\<lambda>_.
                   waitAndPublish e lb service (crr_Id r))))))"

definition ensureNew :: "env \<Rightarrow> loadbalancer \<Rightarrow> Service \<Rightarrow> Listener list \<Rightarrow> (st, ensured) go" where
  "ensureNew e lb service listeners =
     (if isFipEnabled lb service \<and> lc_FipNetworkID (lb_config lb) = ''''
      then go_ret (Inl (ErrText ''FIP network ID is not configured; load balancer creation requires floating IP support''))
      else createAndWait e lb service listeners (createRequest e lb service listeners (getCreateCount service)) ''1'')"

definition ensureReady :: "env \<Rightarrow> loadbalancer \<Rightarrow> Service \<Rightarrow> string \<Rightarrow> Listener list \<Rightarrow> LoadBalancer \<Rightarrow> (st, ensured) go" where
  "ensureReady e lb service lbID listeners lbStatus =
     (if configChanged e service listeners then
        go_bind (lb_Update lb (updateRequest lbID listeners (Some lbStatus))) (\<lambda>resp. case resp of
            Inl err \<Rightarrow> go_ret (Inl (rpc_error err))
          | Inr _ \<Rightarrow> go_bind (recordListenerHash e service listeners) (\<lambda>_. waitAndPublish e lb service lbID))
      else if isFipEnabled lb service \<and> ld_FipState lbStatus \<noteq> FIP_STATE_ACTIVE then waitAndPublish e lb service lbID
      else go_bind (go_modify (clearRetryCount (svc_UID service))) (\<lambda>_.
             go_ret (Inr (loadBalancerStatusFromResponse lb service (Some lbStatus)))))"

definition ensureRecreate :: "env \<Rightarrow> loadbalancer \<Rightarrow> Service \<Rightarrow> string \<Rightarrow> Listener list \<Rightarrow> (st, ensured) go" where
  "ensureRecreate e lb service lbID listeners =
     (let createCount = getCreateCount service
      in if createCount \<ge> maxLoadBalancerCreateCount
         then go_ret (Inl (ErrText (''load balancer '' @ lbID @ '' failed to provision after ''
                @ itoa maxLoadBalancerCreateCount @ '' create attempts'')))
         else if isFipEnabled lb service \<and> lc_FipNetworkID (lb_config lb) = ''''
         then go_ret (Inl (ErrText ''FIP network ID is not configured; load balancer recreation requires floating IP support''))
         else go_bind (lb_Delete lb lbID) (\<lambda>_.
                createAndWait e lb service listeners (createRequest e lb service listeners (createCount + 1))
                  (itoa (createCount + 1))))"

definition ensureNotReady ::
  "env \<Rightarrow> loadbalancer \<Rightarrow> Service \<Rightarrow> string \<Rightarrow> Listener list \<Rightarrow> LoadBalancer option \<Rightarrow> (st, ensured) go" where
  "ensureNotReady e lb service lbID listeners lbStatus =
     (if configChanged e service listeners then
        go_bind (lb_Update lb (updateRequest lbID listeners lbStatus)) (\<lambda>resp. case resp of
            Inl err \<Rightarrow> go_bind (go_modify (incrementRetryCount (svc_UID service))) (\<lambda>_. go_ret (Inl (rpc_error err)))
          | Inr _ \<Rightarrow>
              go_bind (recordListenerHash e service listeners) (\<lambda>_.
              go_bind (pollLoadBalancerReady e lb service lbID) (\<lambda>polled. case polled of
                  Inl err \<Rightarrow> go_bind (go_modify (incrementRetryCount (svc_UID service))) (\<lambda>_. go_ret (Inl err))
                | Inr l \<Rightarrow> go_bind (go_modify (clearRetryCount (svc_UID service))) (\<lambda>_. publish e lb service l))))
      else go_bind (go_modify (incrementRetryCount (svc_UID service))) (\<lambda>_.
             go_ret (Inl (ErrText (''load balancer '' @ lbID @ '' not ready'' @ lbErrorDetail lbStatus @ '', will retry'')))))"

text \<open>Lines 309 to 405: the load balancer is not ready; the retry counter decides.\<close>

definition ensureStale ::
  "env \<Rightarrow> loadbalancer \<Rightarrow> Service \<Rightarrow> string \<Rightarrow> Listener list \<Rightarrow> LoadBalancer option \<Rightarrow> (st, ensured) go" where
  "ensureStale e lb service lbID listeners lbStatus =
     go_bind (go_read (\<lambda>s. retryCount s (svc_UID service))) (\<lambda>retries.
       if retries \<ge> maxLoadBalancerRetries then ensureRecreate e lb service lbID listeners
       else ensureNotReady e lb service lbID listeners lbStatus)"

definition isReady :: "LoadBalancer option \<Rightarrow> bool" where
  "isReady lbStatus = (case lbStatus of None \<Rightarrow> False | Some l \<Rightarrow> ld_State l = STATE_READY \<and> ld_Ip l \<noteq> '''')"

definition ensureExisting :: "env \<Rightarrow> loadbalancer \<Rightarrow> Service \<Rightarrow> string \<Rightarrow> Listener list \<Rightarrow> (st, ensured) go" where
  "ensureExisting e lb service lbID listeners =
     go_bind (lb_Get lb lbID) (\<lambda>getResp. case getResp of
         Inl err \<Rightarrow> go_ret (Inl (rpc_error err))
       | Inr r \<Rightarrow>
           let lbStatus = GetLoadBalancer_of r
           in if isReady lbStatus then ensureReady e lb service lbID listeners (the lbStatus)
              else ensureStale e lb service lbID listeners lbStatus)"

definition EnsureLoadBalancer :: "env \<Rightarrow> loadbalancer \<Rightarrow> string \<Rightarrow> Service \<Rightarrow> Node list \<Rightarrow> (st, ensured) go" where
  "EnsureLoadBalancer e lb clusterName service nodes =
     (if lb_rpcClient lb = None then go_ret (Inl not_configured)
      else if shouldSkipService lb service then go_ret (Inl ImplementedElsewhere)
      else if svc_DeletionTimestamp service \<noteq> None then
        go_bind (EnsureLoadBalancerDeleted lb service) (\<lambda>_. go_ret (Inr None))
      else let lbID = annot service LoadBalancerIDAnnotationKey
           in go_bind (buildListeners e lb service nodes clusterName) (\<lambda>listeners.
                case validateListeners listeners of
                  Some err \<Rightarrow> go_ret (Inl err)
                | None \<Rightarrow> if lbID = '''' then ensureNew e lb service listeners
                          else ensureExisting e lb service lbID listeners))"

definition UpdateLoadBalancer :: "env \<Rightarrow> loadbalancer \<Rightarrow> string \<Rightarrow> Service \<Rightarrow> Node list \<Rightarrow> (st, goerror option) go" where
  "UpdateLoadBalancer e lb clusterName service nodes =
     (let lbID = annot service LoadBalancerIDAnnotationKey
      in if lb_rpcClient lb = None then go_ret (Some not_configured)
         else if shouldSkipService lb service \<and> lbID = '''' then go_ret None
         else if lbID = '''' then go_ret (Some (ErrText ''load balancer ID not found in service annotations''))
         else go_bind (buildListeners e lb service nodes clusterName) (\<lambda>listeners.
           case validateListeners listeners of
             Some err \<Rightarrow> go_ret (Some err)
           | None \<Rightarrow>
               if \<not> configChanged e service listeners then go_ret None
               else go_bind (lb_Get lb lbID) (\<lambda>getResp. case getResp of
                   Inl err \<Rightarrow> go_ret (Some (rpc_error err))
                 | Inr r \<Rightarrow> go_bind (lb_Update lb (updateRequest lbID listeners (GetLoadBalancer_of r))) (\<lambda>resp. case resp of
                     Inl err \<Rightarrow> go_ret (Some (rpc_error err))
                   | Inr _ \<Rightarrow> go_bind (ensureServiceAnnotation e service LoadBalancerListenerHashAnnotationKey
                                (listenersHashStr e listeners)) (\<lambda>_. go_ret None)))))"

end
