(* ===== verification/LB_Ensure.thy ===== *)
theory LB_Ensure
  imports LB_Provider
begin

text \<open>
  Properties of the load balancer controller. The two unbounded loops get proof rules, the state
  is viewed through its mutating RPC calls and its retry counters, and the lemmas on one Ensure,
  Update or Delete call are proved once in the locale \<open>lb_client\<close>, for any RPC client that leaves
  the caller's state alone; the interpretation on the gRPC client wrapper of \<^verbatim>\<open>client.go\<close> gives the
  properties of the program.
\<close>

section \<open>Loop rules\<close>

text \<open>
  Partial correctness of the two unbounded loops: an invariant that every round keeps, and a
  postcondition that every exit establishes.
\<close>

lemma pollLoop_rule:
  assumes init: "I s"
    and now: "\<And>s n. I s \<Longrightarrow> I (s\<lparr>calls := calls s @ [CNow n]\<rparr>)"
    and expired: "\<And>s. I s \<Longrightarrow> Q (Val (Inl (NotReadyWithin lbID timeout))) s"
    and get: "\<And>s. I s \<Longrightarrow> wp (lb_Get lb lbID) (\<lambda>r s'. case r of
        Val resp \<Rightarrow> (case pollVerdict lb service lbID resp of Some x \<Rightarrow> Q (Val x) s' | None \<Rightarrow> I s')
      | Panic p \<Rightarrow> Q (Panic p) s') s"
    and ended: "\<And>s err. I s \<Longrightarrow> Q (Val (Inl err)) (s\<lparr>calls := calls s @ [CSleep interval (Some err)]\<rparr>)"
    and slept: "\<And>s. I s \<Longrightarrow> I (s\<lparr>calls := calls s @ [CSleep interval None]\<rparr>)"
  shows "wp (pollLoop e lb service lbID interval timeout deadline) Q s"
proof (rule wpI)
  fix r s'
  assume ret: "pollLoop e lb service lbID interval timeout deadline s = Some (r, s')"
  let ?P = "\<lambda>e' lb' service' lbID' interval' timeout' deadline' s (p :: (goerror + LoadBalancer) outcome \<times> st).
    e' = e \<and> lb' = lb \<and> service' = service \<and> lbID' = lbID \<and> interval' = interval \<and> timeout' = timeout \<and>
    I s \<longrightarrow> Q (fst p) (snd p)"
  have "?P e lb service lbID interval timeout deadline s (r, s')"
  proof (rule pollLoop.raw_induct [where P = ?P, OF _ ret], intro impI, elim conjE)
    fix f e' lb' service' lbID' interval' timeout' deadline' s p
    assume IH: "\<And>e' lb' service' lbID' interval' timeout' deadline' s p.
        f e' lb' service' lbID' interval' timeout' deadline' s = Some p \<Longrightarrow> ?P e' lb' service' lbID' interval' timeout' deadline' s p"
      and run: "go_bind (time_Now e') (\<lambda>now s1.
       if \<not> now < deadline' then go_ret (Inl (NotReadyWithin lbID' timeout')) s1
       else go_bind (lb_Get lb' lbID') (\<lambda>resp s2.
         case pollVerdict lb' service' lbID' resp of
           None \<Rightarrow> go_bind (select_after e' interval') (\<lambda>ended s3.
             case ended of None \<Rightarrow> f e' lb' service' lbID' interval' timeout' deadline' s3 | Some err \<Rightarrow> go_ret (Inl err) s3) s2
         | Some result \<Rightarrow> go_ret result s2) s1) s = Some p"
      and eqs: "e' = e" "lb' = lb" "service' = service" "lbID' = lbID" "interval' = interval" "timeout' = timeout"
      and "I s"
    let ?s1 = "s\<lparr>calls := calls s @ [CNow (env_now e s)]\<rparr>"
    have s1: "I ?s1" using \<open>I s\<close> by (rule now)
    show "Q (fst p) (snd p)"
    proof (cases "env_now e s < deadline'")
      case False
      with run eqs expired [OF s1] show ?thesis by (auto simp: time_Now_def go_bind_def ask_simps)
    next
      case True
      with run [unfolded eqs] have "go_bind (lb_Get lb lbID) (\<lambda>resp s2.
         case pollVerdict lb service lbID resp of
           None \<Rightarrow> go_bind (select_after e interval) (\<lambda>ended s3.
             case ended of None \<Rightarrow> f e lb service lbID interval timeout deadline' s3 | Some err \<Rightarrow> go_ret (Inl err) s3) s2
         | Some result \<Rightarrow> go_ret result s2) ?s1 = Some p"
        by (simp add: time_Now_def go_bind_def ask_simps)
      with get [OF s1] show ?thesis
        by (auto simp: wp_def go_bind_def select_after_def ask_simps dest!: IH split: option.splits outcome.splits)
           (erule notE slept ended)+
    qed
  qed
  with init show "Q r s'" by simp
qed

lemma findLoop_rule:
  assumes init: "I pageToken s"
    and list: "\<And>tok s. I tok s \<Longrightarrow>
      wp (lb_List lb \<lparr>lsr_TenantId = tenantID, lsr_PageSize = listLoadBalancersPageSize, lsr_PageToken = tok\<rparr>)
        (\<lambda>r s'. case r of
           Val (Inl err) \<Rightarrow> Q (Val (Inl err)) s'
         | Val (Inr resp) \<Rightarrow> (case find (\<lambda>x. sum_Name x = lbName) (GetLoadBalancers_of resp) of
               Some x \<Rightarrow> Q (Val (Inr (sum_Id x))) s'
             | None \<Rightarrow> if GetNextPageToken_of resp = '''' then Q (Val (Inr '''')) s'
                       else I (GetNextPageToken_of resp) s')
         | Panic p \<Rightarrow> Q (Panic p) s') s"
  shows "wp (findLoop lb tenantID lbName pageToken) Q s"
proof (rule wpI)
  fix r s'
  assume ret: "findLoop lb tenantID lbName pageToken s = Some (r, s')"
  let ?P = "\<lambda>lb' tenantID' lbName' tok s (p :: (goerror + string) outcome \<times> st).
    lb' = lb \<and> tenantID' = tenantID \<and> lbName' = lbName \<and> I tok s \<longrightarrow> Q (fst p) (snd p)"
  have "?P lb tenantID lbName pageToken s (r, s')"
  proof (rule findLoop.raw_induct [where P = ?P, OF _ ret], intro impI, elim conjE)
    fix f lb' tenantID' lbName' tok s p
    assume IH: "\<And>lb' tenantID' lbName' tok s p. f lb' tenantID' lbName' tok s = Some p \<Longrightarrow> ?P lb' tenantID' lbName' tok s p"
      and run: "go_bind (lb_List lb' \<lparr>lsr_TenantId = tenantID', lsr_PageSize = listLoadBalancersPageSize, lsr_PageToken = tok\<rparr>)
       (\<lambda>resp s1. case resp of
           Inl err \<Rightarrow> go_ret (Inl err) s1
         | Inr r \<Rightarrow>
             (case find (\<lambda>summary. sum_Name summary = lbName') (GetLoadBalancers_of r) of
                None \<Rightarrow> if GetNextPageToken_of r = '''' then go_ret (Inr '''') s1
                        else f lb' tenantID' lbName' (GetNextPageToken_of r) s1
              | Some summary \<Rightarrow> go_ret (Inr (sum_Id summary)) s1)) s = Some p"
      and eqs: "lb' = lb" "tenantID' = tenantID" "lbName' = lbName" and "I tok s"
    let ?list = "lb_List lb \<lparr>lsr_TenantId = tenantID, lsr_PageSize = listLoadBalancersPageSize, lsr_PageToken = tok\<rparr>"
    note run = run [unfolded eqs go_bind_def] and post = list [OF \<open>I tok s\<close>, unfolded wp_def]
    from run obtain r2 s2 where ret: "?list s = Some (r2, s2)"
      by (cases "?list s") auto
    show "Q (fst p) (snd p)"
    proof (cases r2)
      case (Val resp)
      with run post ret show ?thesis
        by (cases resp) (auto dest!: IH split: option.splits if_splits)
    qed (use run post ret in auto)
  qed
  with init show "Q r s'" by simp
qed

section \<open>Views of the state\<close>

text \<open>The RPC calls that change load balancers, in order, and the retry counters beside them.\<close>

fun is_mut :: "call \<Rightarrow> bool" where
  "is_mut (CCreate req resp) = True"
| "is_mut (CUpdate req resp) = True"
| "is_mut (CDelete i resp) = True"
| "is_mut _ = False"

definition muts :: "st \<Rightarrow> call list" where
  "muts s = filter is_mut (calls s)"

definition mview :: "st \<Rightarrow> call list \<times> (string \<rightharpoonup> int)" where
  "mview s = (muts s, retryCounts s)"

lemma muts_upd [simp]:
  "muts (s\<lparr>calls := calls s @ [c]\<rparr>) = (if is_mut c then muts s @ [c] else muts s)"
  "muts (s\<lparr>retryCounts := m\<rparr>) = muts s"
  by (simp_all add: muts_def)

lemma mview_upd [simp]: "\<not> is_mut c \<Longrightarrow> mview (s\<lparr>calls := calls s @ [c]\<rparr>) = mview s"
  by (simp add: mview_def)

lemma mview_iff: "mview s' = mview s \<longleftrightarrow> muts s' = muts s \<and> retryCounts s' = retryCounts s"
  by (simp add: mview_def)

lemma preserves_coarser: "preserves g m \<Longrightarrow> (\<And>s s'. g s' = g s \<Longrightarrow> h s' = h s) \<Longrightarrow> preserves h m"
  by (meson preservesD preservesI)

lemma wire_only_mview: "wire_only m \<Longrightarrow> preserves mview m"
  by (erule preserves_coarser) (simp add: caller_view_def mview_def muts_def)

lemma preserves_logged [go_frame]:
  "preserves g m \<Longrightarrow> (\<And>s r. g (s\<lparr>calls := calls s @ [ev r]\<rparr>) = g s) \<Longrightarrow> preserves g (logged ev m)"
  by (auto simp: logged_def intro!: go_frame)

text \<open>Annotations, patches and VMI lists change no load balancer and no counter.\<close>

lemma retryOnConflict_frame [go_frame]:
  "preserves g fn \<Longrightarrow> preserves g (retryOnConflict n fn lastErr)"
proof (induction n arbitrary: lastErr)
  case 0
  show ?case unfolding retryOnConflict.simps by (rule go_frame)
qed (auto intro!: go_frame)

lemma annotation_frames [go_frame]:
  "preserves mview (ensureServiceAnnotation e service key val)"
  "preserves mview (recordListenerHash e service listeners)"
  "preserves mview (storeInternalIpIfBothMode e lb service lbStatus)"
  "preserves mview (updateKamajiAdvertiseAddress e lb service ip)"
  by (auto simp: ensureServiceAnnotation_def annotateOnce_def recordListenerHash_def Let_def
      storeInternalIpIfBothMode_def updateKamajiAdvertiseAddress_def intro!: go_frame)

lemma publish_frame [go_frame]: "preserves mview (publish e lb service l)"
  unfolding publish_def by (intro go_frame)

lemma buildEndpoints_frame [go_frame]: "preserves mview (buildEndpoints e lb port nodes clusterName)"
  by (auto simp: buildEndpoints_def buildEndpointsFromVMI_def Let_def intro!: go_frame)

lemma buildListeners_frame [go_frame]: "preserves mview (buildListeners e lb service nodes clusterName)"
proof -
  have "preserves mview (buildPorts e lb service nodes clusterName ports)" for ports
  proof (induction ports)
    case Nil
    show ?case unfolding buildPorts.simps by (rule go_frame)
  qed (auto intro!: go_frame)
  then show ?thesis by (simp add: buildListeners_def)
qed

section \<open>The controller on a client that keeps its contract\<close>

locale lb_client = rpc_client R for R +
  fixes lb :: loadbalancer
  assumes client: "lb_rpcClient lb = Some R"
begin

lemma get_view [go_frame]: "preserves mview (lb_Get lb lbID)"
  unfolding lb_Get_def client option.case by (rule preserves_logged [OF wire_only_mview [OF get_frame]]) simp

lemma list_view [go_frame]: "preserves mview (lb_List lb req)"
  unfolding lb_List_def client option.case by (rule preserves_logged [OF wire_only_mview [OF list_frame]]) simp

lemma mutating_calls:
  "wp (lb_Create lb cr) (\<lambda>r s'. retryCounts s' = retryCounts s \<and>
     muts s' = muts s @ (case r of Val a \<Rightarrow> [CCreate cr a] | Panic _ \<Rightarrow> [])) s"
  "wp (lb_Update lb ur) (\<lambda>r s'. retryCounts s' = retryCounts s \<and>
     muts s' = muts s @ (case r of Val a \<Rightarrow> [CUpdate ur a] | Panic _ \<Rightarrow> [])) s"
  "wp (lb_Delete lb i) (\<lambda>r s'. retryCounts s' = retryCounts s \<and>
     muts s' = muts s @ (case r of Val a \<Rightarrow> [CDelete i a] | Panic _ \<Rightarrow> [])) s"
  unfolding lb_Create_def lb_Update_def lb_Delete_def client option.case logged_def go_wp
  by (rule wp_frameI [OF wire_only_mview [OF create_frame]] wp_frameI [OF wire_only_mview [OF update_frame]]
        wp_frameI [OF wire_only_mview [OF delete_frame]], simp add: mview_iff split: outcome.split)+

lemma poll_view [go_frame]: "preserves mview (pollLoadBalancerReady e lb service lbID)"
proof -
  have "wp (pollLoop e lb service lbID interval timeout deadline) (\<lambda>r s'. mview s' = v) s" if "mview s = v"
    for interval timeout deadline s v
    by (rule pollLoop_rule [where I = "\<lambda>s. mview s = v"])
       (use that in \<open>auto intro!: wp_frameI [OF get_view] split: outcome.split option.split\<close>)
  then have "preserves mview (pollLoop e lb service lbID interval timeout deadline)" for interval timeout deadline
    by (simp add: preserves_wp)
  then show ?thesis unfolding pollLoadBalancerReady_def time_Now_def by (auto intro!: go_frame)
qed

lemma find_view [go_frame]: "preserves mview (findLoadBalancerByName lb tenantID lbName)"
proof -
  have "wp (findLoop lb tenantID lbName tok) (\<lambda>r s'. mview s' = v) s" if "mview s = v" for tok s v
    by (rule findLoop_rule [where I = "\<lambda>_ s. mview s = v"])
       (use that in \<open>auto intro!: wp_frameI [OF list_view] split: outcome.split option.split sum.split\<close>)
  then show ?thesis by (simp add: findLoadBalancerByName_def preserves_wp)
qed

end

section \<open>What an Ensure call changes\<close>

lemma counter_upd [simp]:
  "muts (clearRetryCount uid s) = muts s" "muts (incrementRetryCount uid s) = muts s"
  "retryCounts (clearRetryCount uid s) = (retryCounts s)(uid := None)"
  "retryCounts (incrementRetryCount uid s) = (retryCounts s)(uid \<mapsto> retryCount s uid + 1)"
  by (simp_all add: clearRetryCount_def incrementRetryCount_def)

text \<open>
  The effect of a computation on the two views: the calls \<open>ms\<close> it adds, and the counters before
  and after.
\<close>

definition effect :: "(st, 'a) go \<Rightarrow> ('a outcome \<Rightarrow> call list \<Rightarrow> (string \<rightharpoonup> int) \<Rightarrow> bool) \<Rightarrow> st \<Rightarrow> bool" where
  "effect m E s \<longleftrightarrow> wp m (\<lambda>r s'. \<exists>ms. muts s' = muts s @ ms \<and> E r ms (retryCounts s')) s"

lemma effectI: "wp m (\<lambda>r s'. \<exists>ms. muts s' = muts s @ ms \<and> E r ms (retryCounts s')) s \<Longrightarrow> effect m E s"
  by (simp add: effect_def)

lemma effect_wp:
  "effect m E s \<Longrightarrow> (\<And>r s' ms. muts s' = muts s @ ms \<Longrightarrow> E r ms (retryCounts s') \<Longrightarrow> Q r s') \<Longrightarrow> wp m Q s"
  unfolding effect_def by (erule wp_conseq) blast

lemma frame_wp:
  "preserves mview m \<Longrightarrow> (\<And>r s'. muts s' = muts s \<Longrightarrow> retryCounts s' = retryCounts s \<Longrightarrow> Q r s') \<Longrightarrow> wp m Q s"
  by (erule wp_frameI) (simp add: mview_iff)

definition kept_or_cleared :: "string \<Rightarrow> (string \<rightharpoonup> int) \<Rightarrow> (string \<rightharpoonup> int) \<Rightarrow> bool" where
  "kept_or_cleared uid before after \<longleftrightarrow> after = before \<or> after = before(uid := None)"

lemma kept_or_cleared_simps [simp]:
  "kept_or_cleared uid m m" "kept_or_cleared uid m (m(uid := None))"
  by (simp_all add: kept_or_cleared_def)

lemma retryCount_cong: "retryCounts s' = retryCounts s \<Longrightarrow> retryCount s' uid = retryCount s uid"
  by (simp add: retryCount_def)

text \<open>Annotation writes and the tail of a successful Ensure never panic.\<close>

lemma retryOnConflict_returns:
  assumes "\<And>s. wp fn (\<lambda>r _. \<exists>a. r = Val a) s"
  shows "wp (retryOnConflict n fn lastErr) (\<lambda>r _. \<exists>a. r = Val a) s"
proof (induction n arbitrary: lastErr s)
  case 0
  show ?case unfolding retryOnConflict.simps go_wp by simp
next
  case (Suc n)
  show ?case
    unfolding retryOnConflict.simps go_wp
    by (rule wp_conseq [OF assms]) (auto simp: go_wp Suc.IH split: option.split)
qed

lemma annotation_wp:
  assumes "\<And>a s'. muts s' = muts s \<Longrightarrow> retryCounts s' = retryCounts s \<Longrightarrow> Q (Val a) s'"
  shows "wp (ensureServiceAnnotation e service key val) Q s"
proof -
  have "wp (ensureServiceAnnotation e service key val) (\<lambda>r _. \<exists>a. r = Val a) s"
    unfolding ensureServiceAnnotation_def
    by (rule retryOnConflict_returns) (auto simp: annotateOnce_def go_wp Let_def split: sum.split)
  from wp_conj [OF this frame_wp [OF annotation_frames(1), where Q = "\<lambda>_ s'. mview s' = mview s"]]
  show ?thesis by (rule wp_conseq) (use assms in \<open>auto simp: mview_iff\<close>)
qed

lemma publish_wp:
  assumes "\<And>s'. muts s' = muts s \<Longrightarrow> retryCounts s' = retryCounts s \<Longrightarrow>
    Q (Val (Inr (loadBalancerStatusFromResponse lb service (Some l)))) s'"
  shows "wp (publish e lb service l) Q s"
  using assms
  by (auto simp: publish_def updateKamajiAdvertiseAddress_def storeInternalIpIfBothMode_def Let_def go_wp
      intro!: annotation_wp)

definition stale_muts :: "env \<Rightarrow> loadbalancer \<Rightarrow> Service \<Rightarrow> string \<Rightarrow> Listener list \<Rightarrow> int \<Rightarrow> call list \<Rightarrow> bool" where
  "stale_muts e lb service lbID ls retries ms \<longleftrightarrow>
     ms = [] \<or> (\<exists>l a. ms = [CUpdate (updateRequest lbID ls l) a]) \<or>
     (maxLoadBalancerRetries \<le> retries \<and> getCreateCount service < maxLoadBalancerCreateCount \<and>
       (\<exists>a. ms = [CDelete lbID a] \<or>
         (\<exists>b. ms = [CDelete lbID a, CCreate (createRequest e lb service ls (getCreateCount service + 1)) b])))"

lemma stale_muts_simps [simp]:
  "stale_muts e lb service lbID ls n []"
  "stale_muts e lb service lbID ls n [CUpdate (updateRequest lbID ls l) a]"
  "maxLoadBalancerRetries \<le> n \<Longrightarrow> getCreateCount service < maxLoadBalancerCreateCount \<Longrightarrow>
     stale_muts e lb service lbID ls n [CDelete lbID d]"
  "maxLoadBalancerRetries \<le> n \<Longrightarrow> getCreateCount service < maxLoadBalancerCreateCount \<Longrightarrow>
     stale_muts e lb service lbID ls n
       [CDelete lbID d, CCreate (createRequest e lb service ls (getCreateCount service + 1)) b]"
  unfolding stale_muts_def by blast+

text \<open>
  The mutating calls of \<^verbatim>\<open>EnsureLoadBalancer\<close>, by what the Service and the counters say; the
  listeners in them are the ones built for the Service, and passed the check.
\<close>

definition built_listeners :: "env \<Rightarrow> loadbalancer \<Rightarrow> Service \<Rightarrow> Node list \<Rightarrow> string \<Rightarrow> Listener list \<Rightarrow> bool" where
  "built_listeners e lb service nodes clusterName ls \<longleftrightarrow>
     (\<exists>s s'. buildListeners e lb service nodes clusterName s = Some (Val ls, s')) \<and> validateListeners ls = None"

definition allowed_muts :: "env \<Rightarrow> loadbalancer \<Rightarrow> Service \<Rightarrow> (Listener list \<Rightarrow> bool) \<Rightarrow> int \<Rightarrow> call list \<Rightarrow> bool" where
  "allowed_muts e lb service built retries ms \<longleftrightarrow>
     (let lbID = annot service LoadBalancerIDAnnotationKey; k = getCreateCount service
      in ms = [] \<or> \<not> shouldSkipService lb service \<and>
         (if svc_DeletionTimestamp service \<noteq> None
          then \<exists>i a. ms = [CDelete i a] \<and> i \<noteq> '''' \<and> (lbID \<noteq> '''' \<longrightarrow> i = lbID)
          else if lbID = '''' then \<exists>ls a. built ls \<and> ms = [CCreate (createRequest e lb service ls k) a]
          else (\<exists>ls l a. built ls \<and> ms = [CUpdate (updateRequest lbID ls l) a]) \<or>
            (maxLoadBalancerRetries \<le> retries \<and> k < maxLoadBalancerCreateCount \<and>
              (\<exists>a. ms = [CDelete lbID a] \<or>
                (\<exists>ls b. built ls \<and> ms = [CDelete lbID a, CCreate (createRequest e lb service ls (k + 1)) b])))))"

text \<open>How one call may move the retry counters: only its own, which is kept, cleared, or, on an error, incremented.\<close>

definition allowed_counters :: "Service \<Rightarrow> (string \<rightharpoonup> int) \<Rightarrow> int \<Rightarrow> 'a outcome \<Rightarrow> ('a \<Rightarrow> bool) \<Rightarrow> (string \<rightharpoonup> int) \<Rightarrow> bool" where
  "allowed_counters service before retries r isErr after \<longleftrightarrow>
     kept_or_cleared (svc_UID service) before after \<or>
     (retries < maxLoadBalancerRetries \<and> after = before(svc_UID service \<mapsto> retries + 1) \<and>
      (\<exists>a. r = Val a \<and> isErr a))"

lemma allowed_counters_kept [simp]:
  "kept_or_cleared (svc_UID service) before after \<Longrightarrow> allowed_counters service before n r isErr after"
  by (simp add: allowed_counters_def)

lemma allowed_muts_simps [simp]:
  "allowed_muts e lb service B n []"
  "\<not> shouldSkipService lb service \<Longrightarrow> svc_DeletionTimestamp service = None \<Longrightarrow>
     annot service LoadBalancerIDAnnotationKey = '''' \<Longrightarrow> B ls \<Longrightarrow>
     allowed_muts e lb service B n [CCreate (createRequest e lb service ls (getCreateCount service)) a]"
  "\<not> shouldSkipService lb service \<Longrightarrow> svc_DeletionTimestamp service = None \<Longrightarrow>
     annot service LoadBalancerIDAnnotationKey \<noteq> '''' \<Longrightarrow> B ls \<Longrightarrow>
     stale_muts e lb service (annot service LoadBalancerIDAnnotationKey) ls n ms \<Longrightarrow> allowed_muts e lb service B n ms"
  unfolding allowed_muts_def stale_muts_def Let_def by auto blast

lemma buildListeners_run:
  assumes "\<And>r s'. buildListeners e lb service nodes clusterName s = Some (r, s') \<Longrightarrow> muts s' = muts s \<Longrightarrow>
    retryCounts s' = retryCounts s \<Longrightarrow> Q r s'"
  shows "wp (buildListeners e lb service nodes clusterName) Q s"
  by (rule wpI) (use assms preservesD [OF buildListeners_frame] in \<open>auto simp: mview_iff\<close>)

lemma built_listenersI:
  "buildListeners e lb service nodes clusterName s = Some (Val ls, s') \<Longrightarrow> validateListeners ls = None \<Longrightarrow>
   built_listeners e lb service nodes clusterName ls"
  by (auto simp: built_listeners_def)

context lb_client
begin

lemmas view_wps = publish_wp annotation_wp buildListeners_run
  get_view [THEN frame_wp] list_view [THEN frame_wp] poll_view [THEN frame_wp] find_view [THEN frame_wp]
  annotation_frames(2) [THEN frame_wp]

lemmas mutating_wps = mutating_calls [THEN wp_conseq]

lemma createAndWait_effect:
  "effect (createAndWait e lb service listeners createReq count)
     (\<lambda>r ms after. (ms = [] \<or> (\<exists>a. ms = [CCreate createReq a])) \<and>
        kept_or_cleared (svc_UID service) (retryCounts s) after) s"
  unfolding createAndWait_def waitAndPublish_def
  by (rule effectI)
     (auto simp: go_wp intro!: mutating_wps view_wps split: outcome.split sum.split option.split)

lemma ensureNew_effect:
  "effect (ensureNew e lb service listeners)
     (\<lambda>r ms after. (ms = [] \<or> (\<exists>a. ms = [CCreate (createRequest e lb service listeners (getCreateCount service)) a])) \<and>
        kept_or_cleared (svc_UID service) (retryCounts s) after) s"
  using createAndWait_effect
  by (auto simp: ensureNew_def effect_def go_wp)

lemma ensureReady_effect:
  "effect (ensureReady e lb service lbID listeners l)
     (\<lambda>r ms after. (ms = [] \<or> (\<exists>a. ms = [CUpdate (updateRequest lbID listeners (Some l)) a])) \<and>
        kept_or_cleared (svc_UID service) (retryCounts s) after) s"
  unfolding ensureReady_def waitAndPublish_def
  by (rule effectI)
     (auto simp: go_wp intro!: mutating_wps view_wps split: outcome.split sum.split)

lemma ensureRecreate_effect:
  "effect (ensureRecreate e lb service lbID listeners)
     (\<lambda>r ms after. (ms = [] \<or> getCreateCount service < maxLoadBalancerCreateCount \<and>
          (\<exists>a. ms = [CDelete lbID a] \<or>
            (\<exists>b. ms = [CDelete lbID a, CCreate (createRequest e lb service listeners (getCreateCount service + 1)) b]))) \<and>
        kept_or_cleared (svc_UID service) (retryCounts s) after) s"
  unfolding ensureRecreate_def Let_def
  by (rule effectI)
     (fastforce simp: go_wp intro!: mutating_wps effect_wp [OF createAndWait_effect] split: outcome.split)

lemma ensureNotReady_effect:
  "effect (ensureNotReady e lb service lbID listeners lbStatus)
     (\<lambda>r ms after. (ms = [] \<or> (\<exists>a. ms = [CUpdate (updateRequest lbID listeners lbStatus) a])) \<and>
        (case r of
           Val (Inl err) \<Rightarrow> after = (retryCounts s)(svc_UID service \<mapsto> retryCount s (svc_UID service) + 1)
         | Val (Inr _) \<Rightarrow> after = (retryCounts s)(svc_UID service := None)
         | Panic _ \<Rightarrow> kept_or_cleared (svc_UID service) (retryCounts s) after)) s"
  unfolding ensureNotReady_def
  by (rule effectI)
     (auto simp: go_wp retryCount_def intro!: mutating_wps view_wps split: outcome.split sum.split)

lemma deleted_effect:
  "effect (EnsureLoadBalancerDeleted lb service)
     (\<lambda>r ms after. (ms = [] \<or> (\<exists>i a. ms = [CDelete i a] \<and> i \<noteq> '''' \<and>
          (annot service LoadBalancerIDAnnotationKey \<noteq> '''' \<longrightarrow> i = annot service LoadBalancerIDAnnotationKey))) \<and>
        kept_or_cleared (svc_UID service) (retryCounts s) after) s"
  unfolding EnsureLoadBalancerDeleted_def deleteByID_def Let_def
  by (rule effectI)
     (auto simp: go_wp client intro!: mutating_wps view_wps split: outcome.split sum.split)

text \<open>The two conditions on an existing load balancer, as predicates on the added calls and counters.\<close>

lemma ensureStale_effect:
  "effect (ensureStale e lb service lbID listeners lbStatus) (\<lambda>r ms after.
     stale_muts e lb service lbID listeners (retryCount s (svc_UID service)) ms \<and>
     allowed_counters service (retryCounts s) (retryCount s (svc_UID service)) r isl after) s"
proof (cases "maxLoadBalancerRetries \<le> retryCount s (svc_UID service)")
  case True
  then show ?thesis
    unfolding ensureStale_def effect_def go_wp
    by (auto simp: allowed_counters_def intro!: effect_wp [OF ensureRecreate_effect])
next
  case False
  then show ?thesis
    unfolding ensureStale_def effect_def go_wp
    by (auto simp: allowed_counters_def kept_or_cleared_def
        intro!: effect_wp [OF ensureNotReady_effect] split: outcome.splits sum.splits)
qed

lemma ensureExisting_effect:
  "effect (ensureExisting e lb service lbID listeners) (\<lambda>r ms after.
     stale_muts e lb service lbID listeners (retryCount s (svc_UID service)) ms \<and>
     allowed_counters service (retryCounts s) (retryCount s (svc_UID service)) r isl after) s"
proof (rule effectI)
  show "wp (ensureExisting e lb service lbID listeners) (\<lambda>r s'. \<exists>ms. muts s' = muts s @ ms \<and>
     stale_muts e lb service lbID listeners (retryCount s (svc_UID service)) ms \<and>
     allowed_counters service (retryCounts s) (retryCount s (svc_UID service)) r isl (retryCounts s')) s"
    unfolding ensureExisting_def go_wp
  proof (rule frame_wp [OF get_view], goal_cases)
    case (1 r s1)
    then have n: "retryCount s1 (svc_UID service) = retryCount s (svc_UID service)" by (simp add: retryCount_def)
    with 1 show ?case
      by (auto simp: go_wp Let_def isReady_def intro!: effect_wp [OF ensureReady_effect] effect_wp [OF ensureStale_effect]
          split: outcome.split sum.split)
  qed
qed

lemma Ensure_effect:
  "effect (EnsureLoadBalancer e lb clusterName service nodes) (\<lambda>r ms after.
     allowed_muts e lb service (built_listeners e lb service nodes clusterName) (retryCount s (svc_UID service)) ms \<and>
     allowed_counters service (retryCounts s) (retryCount s (svc_UID service)) r isl after) s"
proof (rule effectI)
  show "wp (EnsureLoadBalancer e lb clusterName service nodes) (\<lambda>r s'. \<exists>ms. muts s' = muts s @ ms \<and>
     allowed_muts e lb service (built_listeners e lb service nodes clusterName) (retryCount s (svc_UID service)) ms \<and>
     allowed_counters service (retryCounts s) (retryCount s (svc_UID service)) r isl (retryCounts s')) s"
  proof (cases "shouldSkipService lb service \<or> svc_DeletionTimestamp service \<noteq> None")
    case True
    then show ?thesis
      by (auto simp: EnsureLoadBalancer_def client go_wp allowed_muts_def
          intro!: effect_wp [OF deleted_effect] split: outcome.split)
  next
    case False
    then show ?thesis
      unfolding EnsureLoadBalancer_def client go_wp Let_def
    proof (simp add: go_wp, intro buildListeners_run, goal_cases)
      case (1 r s1)
      then have n: "retryCount s1 (svc_UID service) = retryCount s (svc_UID service)" by (simp add: retryCount_def)
      with 1 show ?case
        by (auto simp: go_wp intro!: effect_wp [OF ensureNew_effect] effect_wp [OF ensureExisting_effect]
            allowed_muts_simps(2,3) [OF _ _ _ built_listenersI] split: outcome.split option.split)
    qed
  qed
qed

end

section \<open>Success means ready\<close>

definition extends :: "(st, 'a) go \<Rightarrow> bool" where
  "extends m \<longleftrightarrow> (\<forall>s r s'. m s = Some (r, s') \<longrightarrow> (\<exists>cs. calls s' = calls s @ cs))"

text \<open>
  \<open>seen n l s\<close>: a GetLoadBalancer answer after the first \<open>n\<close> entries of the history reported the
  load balancer \<open>l\<close>.
\<close>

definition seen :: "nat \<Rightarrow> LoadBalancer \<Rightarrow> st \<Rightarrow> bool" where
  "seen n l s \<longleftrightarrow> (\<exists>i resp. CGet i (Inr resp) \<in> set (drop n (calls s)) \<and> GetLoadBalancer_of resp = Some l)"

lemma extendsI: "(\<And>s. wp m (\<lambda>_ s'. \<exists>cs. calls s' = calls s @ cs) s) \<Longrightarrow> extends m"
  by (auto simp: extends_def dest: wpD)

lemma seen_grows: "seen n l s \<Longrightarrow> calls s' = calls s @ cs \<Longrightarrow> seen n l s'"
  by (auto simp: seen_def)

lemma extends_wp: "extends m \<Longrightarrow> (\<And>r s' cs. calls s' = calls s @ cs \<Longrightarrow> Q r s') \<Longrightarrow> wp m Q s"
  unfolding extends_def by (rule wpI) blast

lemma seen_now: "n \<le> length (calls s) \<Longrightarrow> GetLoadBalancer_of resp = Some l \<Longrightarrow>
    calls s' = calls s @ [CGet i (Inr resp)] \<Longrightarrow> seen n l s'"
  unfolding seen_def by (intro exI [of _ i] exI [of _ resp]) simp

definition ready_for :: "loadbalancer \<Rightarrow> Service \<Rightarrow> LoadBalancer \<Rightarrow> bool" where
  "ready_for lb service l \<longleftrightarrow> ld_State l = STATE_READY \<and> ld_Ip l \<noteq> '''' \<and>
     (isFipEnabled lb service \<longrightarrow> ld_FipState l = FIP_STATE_ACTIVE)"

lemma pollVerdict_ready:
  "pollVerdict lb service lbID resp = Some (Inr l) \<Longrightarrow>
   ready_for lb service l \<and> (\<exists>r. resp = Inr r \<and> GetLoadBalancer_of r = Some l)"
  by (auto simp: pollVerdict_def ready_for_def split: sum.splits option.splits if_splits)

lemma retryOnConflict_extends: "extends fn \<Longrightarrow> extends (retryOnConflict n fn lastErr)"
proof (induction n arbitrary: lastErr)
  case 0
  show ?case unfolding retryOnConflict.simps by (simp add: extends_def)
next
  case (Suc n)
  then show ?case
    by (intro extendsI) (auto simp: go_wp intro!: extends_wp [OF Suc.prems] extends_wp [OF Suc.IH] split: outcome.split option.split)
qed

lemma annotation_extends: "extends (ensureServiceAnnotation e service key val)"
  unfolding ensureServiceAnnotation_def
  by (rule retryOnConflict_extends, rule extendsI)
     (auto simp: annotateOnce_def go_wp Let_def split: sum.split)

lemma publish_result:
  assumes "\<And>s' cs. calls s' = calls s @ cs \<Longrightarrow> Q (Val (Inr (loadBalancerStatusFromResponse lb service (Some l)))) s'"
  shows "wp (publish e lb service l) Q s"
proof -
  have "extends (publish e lb service l)"
    by (rule extendsI)
       (auto simp: publish_def updateKamajiAdvertiseAddress_def storeInternalIpIfBothMode_def Let_def go_wp
        intro!: extends_wp [OF annotation_extends] split: outcome.split)
  moreover have "wp (publish e lb service l) (\<lambda>r s'. r = Val (Inr (loadBalancerStatusFromResponse lb service (Some l)))) s"
    by (rule publish_wp) simp
  ultimately show ?thesis
    by (auto intro!: wpI assms simp: extends_def dest: wpD)
qed

text \<open>A successful result reports a load balancer that was seen ready during the call.\<close>

definition reports_ready :: "loadbalancer \<Rightarrow> Service \<Rightarrow> nat \<Rightarrow> ensured outcome \<Rightarrow> st \<Rightarrow> bool" where
  "reports_ready lb service n r s' \<longleftrightarrow> (\<forall>st. r = Val (Inr st) \<longrightarrow>
     (\<exists>l. ready_for lb service l \<and> seen n l s' \<and> st = loadBalancerStatusFromResponse lb service (Some l)))"

lemma reports_ready_err [simp]: "reports_ready lb service n (Val (Inl err)) s'" "reports_ready lb service n (Panic p) s'"
  by (simp_all add: reports_ready_def)

lemma reports_readyI: "ready_for lb service l \<Longrightarrow> seen n l s' \<Longrightarrow>
    reports_ready lb service n (Val (Inr (loadBalancerStatusFromResponse lb service (Some l)))) s'"
  by (auto simp: reports_ready_def)

lemma buildListeners_extends: "extends (buildListeners e lb service nodes clusterName)"
proof -
  have ends: "extends (buildEndpoints e lb port nodes clusterName)" for port
    by (rule extendsI) (auto simp: buildEndpoints_def buildEndpointsFromVMI_def Let_def go_wp split: sum.split)
  have "extends (buildPorts e lb service nodes clusterName ports)" for ports
  proof (induction ports)
    case Nil
    show ?case unfolding buildPorts.simps by (simp add: extends_def)
  next
    case (Cons port ports)
    show ?case
      by (intro extendsI) (auto simp: go_wp intro!: extends_wp [OF ends] extends_wp [OF Cons.IH] split: outcome.split)
  qed
  then show ?thesis by (simp add: buildListeners_def)
qed

context lb_client
begin

lemma logged_wp:
  assumes "wire_only m" "\<And>r s'. calls s' = calls s @ (case r of Val a \<Rightarrow> [ev a] | Panic _ \<Rightarrow> []) \<Longrightarrow> Q r s'"
  shows "wp (logged ev m) Q s"
  unfolding logged_def go_wp
  by (rule wp_frameI [OF assms(1)]) (auto simp: caller_view_def intro!: assms(2) split: outcome.split)

lemma get_logged:
  assumes "\<And>r s'. calls s' = calls s @ (case r of Val a \<Rightarrow> [CGet i a] | Panic _ \<Rightarrow> []) \<Longrightarrow> Q r s'"
  shows "wp (lb_Get lb i) Q s"
  unfolding lb_Get_def client option.case by (rule logged_wp [OF get_frame assms])

lemma other_logged:
  "extends (lb_Create lb cr)" "extends (lb_Update lb ur)" "extends (lb_Delete lb i)"
  unfolding lb_Create_def lb_Update_def lb_Delete_def client option.case
  by (rule extendsI, rule logged_wp [OF create_frame] logged_wp [OF update_frame] logged_wp [OF delete_frame], blast)+

lemma poll_ready:
  assumes "n \<le> length (calls s)"
  shows "wp (pollLoadBalancerReady e lb service lbID) (\<lambda>r s'. n \<le> length (calls s') \<and>
    (\<forall>l. r = Val (Inr l) \<longrightarrow> ready_for lb service l \<and> seen n l s')) s"
proof -
  have "wp (pollLoop e lb service lbID interval timeout deadline) (\<lambda>r s'. n \<le> length (calls s') \<and>
    (\<forall>l. r = Val (Inr l) \<longrightarrow> ready_for lb service l \<and> seen n l s')) s" if "n \<le> length (calls s)"
    for interval timeout deadline s
    by (rule pollLoop_rule [where I = "\<lambda>s. n \<le> length (calls s)"])
       (use that in \<open>auto intro!: get_logged dest!: pollVerdict_ready intro: seen_now split: outcome.splits option.splits\<close>)
  with assms show ?thesis by (simp add: pollLoadBalancerReady_def time_Now_def go_wp)
qed

lemma waitAndPublish_ready:
  assumes "n \<le> length (calls s)"
  shows "wp (waitAndPublish e lb service lbID) (reports_ready lb service n) s"
  unfolding waitAndPublish_def go_wp
  by (rule wp_conseq [OF poll_ready [OF assms]])
     (auto simp: go_wp intro!: publish_result intro: reports_readyI seen_grows split: outcome.split sum.split)

lemmas ready_wps = waitAndPublish_ready extends_wp [OF annotation_extends] extends_wp [OF other_logged(1)]
  extends_wp [OF other_logged(2)] extends_wp [OF other_logged(3)]

lemma createAndWait_ready:
  "n \<le> length (calls s) \<Longrightarrow> wp (createAndWait e lb service listeners createReq count) (reports_ready lb service n) s"
  unfolding createAndWait_def recordListenerHash_def
  by (auto simp: go_wp clearRetryCount_def intro!: ready_wps split: outcome.split sum.split option.split)

lemma ensureReady_ready:
  assumes "n \<le> length (calls s)" "isReady (Some l)" "seen n l s"
  shows "wp (ensureReady e lb service lbID listeners l) (reports_ready lb service n) s"
  using assms unfolding ensureReady_def recordListenerHash_def
  by (auto simp: go_wp clearRetryCount_def isReady_def ready_for_def intro!: ready_wps reports_readyI
      intro: seen_grows [where cs = "[]"] split: outcome.split sum.split)

lemma ensureRecreate_ready:
  "n \<le> length (calls s) \<Longrightarrow> wp (ensureRecreate e lb service lbID listeners) (reports_ready lb service n) s"
  unfolding ensureRecreate_def Let_def
  by (auto simp: go_wp intro!: ready_wps createAndWait_ready split: outcome.split)

lemma ensureNotReady_ready:
  assumes "n \<le> length (calls s)"
  shows "wp (ensureNotReady e lb service lbID listeners lbStatus) (reports_ready lb service n) s"
proof -
  have pub: "wp (publish e lb service l) (reports_ready lb service n) (clearRetryCount uid s1)"
    if "ready_for lb service l" "seen n l s1" for l uid s1
    by (rule publish_result) (use that in \<open>auto simp: clearRetryCount_def intro: reports_readyI seen_grows\<close>)
  show ?thesis
    using assms unfolding ensureNotReady_def recordListenerHash_def
    by (auto simp: go_wp intro!: ready_wps wp_conseq [OF poll_ready [where n = n]] pub split: outcome.split sum.split)
qed

lemma ensureStale_ready:
  "n \<le> length (calls s) \<Longrightarrow> wp (ensureStale e lb service lbID listeners lbStatus) (reports_ready lb service n) s"
  by (simp add: ensureStale_def go_wp ensureRecreate_ready ensureNotReady_ready)

lemma Ensure_ready:
  assumes "svc_DeletionTimestamp service = None"
  shows "wp (EnsureLoadBalancer e lb clusterName service nodes) (reports_ready lb service (length (calls s))) s"
proof -
  let ?n = "length (calls s)"
  have new: "wp (ensureNew e lb service listeners) (reports_ready lb service ?n) s1" if "?n \<le> length (calls s1)" for s1 listeners
    using that by (auto simp: ensureNew_def go_wp intro!: createAndWait_ready)
  have old: "wp (ensureExisting e lb service lbID listeners) (reports_ready lb service ?n) s1" if "?n \<le> length (calls s1)"
    for s1 lbID listeners
    unfolding ensureExisting_def go_wp
    by (rule get_logged)
       (use that in \<open>auto simp: go_wp Let_def isReady_def intro!: ensureReady_ready ensureStale_ready intro: seen_now
          split: outcome.splits sum.splits option.splits\<close>)
  show ?thesis
    using assms
    by (auto simp: EnsureLoadBalancer_def go_wp Let_def intro!: extends_wp [OF buildListeners_extends] new old
        split: outcome.split option.split)
qed

end

section \<open>Looking up by name\<close>

definition listRequest :: "string \<Rightarrow> string \<Rightarrow> ListLoadBalancersRequest" where
  "listRequest tenantID tok = \<lparr>lsr_TenantId = tenantID, lsr_PageSize = listLoadBalancersPageSize, lsr_PageToken = tok\<rparr>"

definition named :: "string \<Rightarrow> ListLoadBalancersResponse option \<Rightarrow> LoadBalancerSummary option" where
  "named lbName resp = find (\<lambda>x. sum_Name x = lbName) (GetLoadBalancers_of resp)"

text \<open>
  The pages read so far: each was asked for with the token of the one before, none of them has
  the name, and none was the last.
\<close>

inductive walked :: "string \<Rightarrow> string \<Rightarrow> call list \<Rightarrow> string \<Rightarrow> bool" for tenantID lbName where
  walked_first: "walked tenantID lbName [] ''''"
| walked_next: "walked tenantID lbName cs tok \<Longrightarrow> named lbName resp = None \<Longrightarrow> GetNextPageToken_of resp \<noteq> '''' \<Longrightarrow>
    walked tenantID lbName (cs @ [CList (listRequest tenantID tok) (Inr resp)]) (GetNextPageToken_of resp)"

inductive_cases walked_snocE: "walked tenantID lbName (cs @ [c]) tok"

fun summaries :: "call \<Rightarrow> LoadBalancerSummary list" where
  "summaries (CList req (Inr resp)) = GetLoadBalancers_of resp"
| "summaries _ = []"

lemma walked_none: "walked tenantID lbName cs tok \<Longrightarrow> \<forall>x \<in> set (concat (map summaries cs)). sum_Name x \<noteq> lbName"
  by (induction rule: walked.induct) (auto simp: named_def find_None_iff)

definition found_by_walk :: "string \<Rightarrow> string \<Rightarrow> st \<Rightarrow> string \<Rightarrow> st \<Rightarrow> bool" where
  "found_by_walk tenantID lbName s i s' \<longleftrightarrow> (\<exists>cs tok resp. walked tenantID lbName cs tok \<and>
     calls s' = calls s @ cs @ [CList (listRequest tenantID tok) (Inr resp)] \<and>
     (case named lbName resp of Some x \<Rightarrow> i = sum_Id x | None \<Rightarrow> GetNextPageToken_of resp = '''' \<and> i = ''''))"

context lb_client
begin

lemma list_logged:
  assumes "\<And>r s'. calls s' = calls s @ (case r of Val a \<Rightarrow> [CList req a] | Panic _ \<Rightarrow> []) \<Longrightarrow> Q r s'"
  shows "wp (lb_List lb req) Q s"
  unfolding lb_List_def client option.case by (rule logged_wp [OF list_frame assms])

lemma find_walks:
  "wp (findLoadBalancerByName lb tenantID lbName)
      (\<lambda>r s'. (\<exists>cs. calls s' = calls s @ cs) \<and> (\<forall>i. r = Val (Inr i) \<longrightarrow> found_by_walk tenantID lbName s i s')) s"
  unfolding findLoadBalancerByName_def
proof (rule findLoop_rule [where I = "\<lambda>tok s1. \<exists>cs. walked tenantID lbName cs tok \<and> calls s1 = calls s @ cs"],
    goal_cases)
  case 1
  show ?case using walked_first by auto
next
  case (2 tok s1)
  then obtain cs where cs: "walked tenantID lbName cs tok" "calls s1 = calls s @ cs" by blast
  show ?case
    unfolding listRequest_def [symmetric] named_def [symmetric]
  proof (rule list_logged, goal_cases)
    case (1 r s2)
    show ?case
    proof (cases r)
      case (Val x)
      show ?thesis
      proof (cases x)
        case (Inr resp)
        with 1 Val cs(2) have ext: "calls s2 = calls s @ cs @ [CList (listRequest tenantID tok) (Inr resp)]" by simp
        then have fin: "found_by_walk tenantID lbName s i s2"
          if "case named lbName resp of Some x \<Rightarrow> i = sum_Id x | None \<Rightarrow> GetNextPageToken_of resp = '''' \<and> i = ''''" for i
          using that cs(1) unfolding found_by_walk_def by blast
        show ?thesis
          using ext walked_next [OF cs(1), of resp] fin
          unfolding Val Inr by (auto split: option.split)
      qed (use 1 Val cs(2) in simp)
    qed (use 1 cs(2) in simp)
  qed
qed

lemma find_terminates:
  assumes list: "\<And>s tok. \<exists>s'. lb_List lb (listRequest tenantID tok) s = Some (Val (Inr (page tok)), s')"
    and rank: "\<And>tok. GetNextPageToken_of (page tok) \<noteq> '''' \<Longrightarrow> rank (GetNextPageToken_of (page tok)) < (rank tok :: nat)"
  shows "\<exists>i s'. findLoadBalancerByName lb tenantID lbName s = Some (Val (Inr i), s')"
proof -
  have "\<exists>i s'. findLoop lb tenantID lbName tok s = Some (Val (Inr i), s')" for tok s
  proof (induction "rank tok" arbitrary: tok s rule: less_induct)
    case less
    obtain s1 where s1: "lb_List lb (listRequest tenantID tok) s = Some (Val (Inr (page tok)), s1)"
      using list by blast
    then show ?case
      using less rank [of tok]
      by (subst findLoop.simps) (auto simp: go_bind_def listRequest_def split: option.split)
  qed
  then show ?thesis by (simp add: findLoadBalancerByName_def)
qed

end

section \<open>What a successful deletion has established\<close>

definition gone :: "goerror + DeleteLoadBalancerResponse option \<Rightarrow> bool" where
  "gone answer = (case answer of Inr _ \<Rightarrow> True | Inl err \<Rightarrow> status_code err = Some NotFound)"

text \<open>
  How the lookup can end without an identifier: all pages were read, the last one included, and none
  lists the name; or a page lists the name with an empty identifier, which the code cannot tell from
  the former.
\<close>

definition unlisted :: "string \<Rightarrow> string \<Rightarrow> st \<Rightarrow> st \<Rightarrow> bool" where
  "unlisted tenantID lbName s s' \<longleftrightarrow> (\<exists>cs tok resp. walked tenantID lbName cs tok \<and>
     calls s' = calls s @ cs @ [CList (listRequest tenantID tok) (Inr resp)] \<and> GetNextPageToken_of resp = '''' \<and>
     (\<forall>x \<in> set (GetLoadBalancers_of resp). sum_Name x \<noteq> lbName))"

definition listed_blank :: "string \<Rightarrow> string \<Rightarrow> st \<Rightarrow> st \<Rightarrow> bool" where
  "listed_blank tenantID lbName s s' \<longleftrightarrow> (\<exists>cs tok resp x. walked tenantID lbName cs tok \<and>
     calls s' = calls s @ cs @ [CList (listRequest tenantID tok) (Inr resp)] \<and>
     named lbName resp = Some x \<and> sum_Id x = '''')"

lemma found_by_walk_empty:
  "found_by_walk tenantID lbName s '''' s' \<Longrightarrow> unlisted tenantID lbName s s' \<or> listed_blank tenantID lbName s s'"
proof -
  assume "found_by_walk tenantID lbName s '''' s'"
  then obtain cs tok resp where w: "walked tenantID lbName cs tok"
    "calls s' = calls s @ cs @ [CList (listRequest tenantID tok) (Inr resp)]"
    "case named lbName resp of Some x \<Rightarrow> '''' = sum_Id x | None \<Rightarrow> GetNextPageToken_of resp = ''''"
    by (auto simp: found_by_walk_def split: option.splits)
  show ?thesis
  proof (cases "named lbName resp")
    case None
    then have "\<forall>x \<in> set (GetLoadBalancers_of resp). sum_Name x \<noteq> lbName" by (auto simp: named_def find_None_iff)
    with None w show ?thesis unfolding unlisted_def by auto
  next
    case (Some x)
    with w show ?thesis unfolding listed_blank_def by auto
  qed
qed

text \<open>
  Either there was nothing to delete (the Service was declined and has no identifier, or the lookup
  ended without one), or the server confirmed the deletion or the absence of the identifier that the
  Service carries or that was found under the name.
\<close>

definition cleaned_up :: "loadbalancer \<Rightarrow> Service \<Rightarrow> st \<Rightarrow> st \<Rightarrow> bool" where
  "cleaned_up lb service s s' \<longleftrightarrow>
     (let lbID = annot service LoadBalancerIDAnnotationKey; tenantID = getTenantID lb service; name = GetLoadBalancerName service
      in (lbID = '''' \<and> shouldSkipService lb service \<and> calls s' = calls s) \<or>
         (\<exists>a. lbID \<noteq> '''' \<and> calls s' = calls s @ [CDelete lbID a] \<and> gone a) \<or>
         (lbID = '''' \<and> unlisted tenantID name s s') \<or>
         (lbID = '''' \<and> listed_blank tenantID name s s') \<or>
         (\<exists>i a s1. lbID = '''' \<and> i \<noteq> '''' \<and> found_by_walk tenantID name s i s1 \<and> calls s' = calls s1 @ [CDelete i a] \<and> gone a))"

text \<open>
  What a Service under deletion may have deleted: the identifier it carries, or, without one, the
  identifier that the listing made in this call gives for its name.
\<close>

definition deletes_own :: "loadbalancer \<Rightarrow> Service \<Rightarrow> st \<Rightarrow> st \<Rightarrow> call list \<Rightarrow> bool" where
  "deletes_own lb service s s' ms \<longleftrightarrow>
     (let lbID = annot service LoadBalancerIDAnnotationKey
      in ms = [] \<or> (\<exists>i a. ms = [CDelete i a] \<and> i \<noteq> '''' \<and>
           (if lbID \<noteq> '''' then i = lbID
            else \<exists>s1. found_by_walk (getTenantID lb service) (GetLoadBalancerName service) s i s1 \<and> calls s' = calls s1 @ [CDelete i a])))"

lemma deletes_own_calls: "calls s2 = calls s1 \<Longrightarrow> deletes_own lb service s s2 ms = deletes_own lb service s s1 ms"
  by (simp add: deletes_own_def)

lemma isRpcNotFound_iff: "isRpcNotFound err \<longleftrightarrow> status_code err = Some NotFound"
  using FromError_code [of err] by (auto simp: isRpcNotFound_def split: option.splits prod.splits)

lemma clearRetryCount_calls [simp]: "calls (clearRetryCount uid s) = calls s" "calls (incrementRetryCount uid s) = calls s"
  by (simp_all add: clearRetryCount_def incrementRetryCount_def)

lemma cleaned_up_walk:
  assumes "annot service LoadBalancerIDAnnotationKey = ''''"
  shows "found_by_walk (getTenantID lb service) (GetLoadBalancerName service) s '''' s' \<Longrightarrow>
      cleaned_up lb service s (clearRetryCount uid s')"
    and "found_by_walk (getTenantID lb service) (GetLoadBalancerName service) s i s1 \<Longrightarrow> i \<noteq> '''' \<Longrightarrow>
      calls s' = calls s1 @ [CDelete i a] \<Longrightarrow> gone a \<Longrightarrow> cleaned_up lb service s (clearRetryCount uid s')"
proof -
  have "unlisted t n s (clearRetryCount uid s') = unlisted t n s s'"
    "listed_blank t n s (clearRetryCount uid s') = listed_blank t n s s'" for t n s'
    by (simp_all add: unlisted_def listed_blank_def)
  then show "found_by_walk (getTenantID lb service) (GetLoadBalancerName service) s '''' s' \<Longrightarrow>
      cleaned_up lb service s (clearRetryCount uid s')"
    using assms by (auto simp: cleaned_up_def Let_def dest: found_by_walk_empty)
  show "found_by_walk (getTenantID lb service) (GetLoadBalancerName service) s i s1 \<Longrightarrow> i \<noteq> '''' \<Longrightarrow>
      calls s' = calls s1 @ [CDelete i a] \<Longrightarrow> gone a \<Longrightarrow> cleaned_up lb service s (clearRetryCount uid s')"
    using assms unfolding cleaned_up_def Let_def clearRetryCount_calls by blast
qed

context lb_client
begin

lemma delete_logged:
  assumes "\<And>r s'. calls s' = calls s @ (case r of Val a \<Rightarrow> [CDelete i a] | Panic _ \<Rightarrow> []) \<Longrightarrow> Q r s'"
  shows "wp (lb_Delete lb i) Q s"
  unfolding lb_Delete_def client option.case by (rule logged_wp [OF delete_frame assms])

lemma deleteByID_clean:
  assumes "\<And>s'. i = '''' \<Longrightarrow> Q (Val None) s"
    and "\<And>s' a. i \<noteq> '''' \<Longrightarrow> calls s' = calls s @ [CDelete i a] \<Longrightarrow> gone a \<Longrightarrow> Q (Val None) s'"
    and "\<And>r s'. r \<noteq> Val None \<Longrightarrow> Q r s'"
  shows "wp (deleteByID lb i) Q s"
  using assms
  by (auto simp: deleteByID_def go_wp gone_def isRpcNotFound_iff intro!: delete_logged split: outcome.split sum.split)

lemma Deleted_cleans:
  "wp (EnsureLoadBalancerDeleted lb service) (\<lambda>r s'. r = Val None \<longrightarrow> cleaned_up lb service s s') s"
proof (cases "annot service LoadBalancerIDAnnotationKey = ''''")
  case False
  then show ?thesis
    by (auto simp: EnsureLoadBalancerDeleted_def client go_wp cleaned_up_def Let_def intro!: deleteByID_clean)
next
  case True
  show ?thesis
  proof (cases "shouldSkipService lb service")
    case skip: True
    with True show ?thesis
      by (simp add: EnsureLoadBalancerDeleted_def client go_wp cleaned_up_def)
  next
    case False
    with True show ?thesis
      unfolding EnsureLoadBalancerDeleted_def client go_wp Let_def
      by (auto simp: go_wp intro!: wp_conseq [OF find_walks] deleteByID_clean intro: cleaned_up_walk
          split: outcome.split sum.split)
  qed
qed

lemma deleteByID_own:
  assumes "\<And>r s' ms. muts s' = muts s @ ms \<Longrightarrow> ms = [] \<or> (\<exists>a. ms = [CDelete i a] \<and> i \<noteq> '''' \<and> calls s' = calls s @ [CDelete i a]) \<Longrightarrow> Q r s'"
  shows "wp (deleteByID lb i) Q s"
proof (cases "i = ''''")
  case True
  then show ?thesis using assms [of s "[]"] by (simp add: deleteByID_def go_wp)
next
  case False
  have "Q r s'" if "calls s' = calls s @ [CDelete i a]" for r s' a
    using that False by (intro assms [of _ "[CDelete i a]"]) (simp_all add: muts_def)
  moreover have "Q r s'" if "calls s' = calls s" for r s'
    using that by (intro assms [of _ "[]"]) (simp_all add: muts_def)
  ultimately show ?thesis
    using False by (auto simp: deleteByID_def go_wp intro!: delete_logged split: outcome.split sum.split)
qed

lemma Deleted_own:
  "wp (EnsureLoadBalancerDeleted lb service) (\<lambda>r s'. \<exists>ms. muts s' = muts s @ ms \<and> deletes_own lb service s s' ms) s"
proof (cases "annot service LoadBalancerIDAnnotationKey = ''''")
  case False
  then show ?thesis
    by (auto simp: EnsureLoadBalancerDeleted_def client go_wp Let_def deletes_own_def intro!: deleteByID_own)
next
  case True
  have walk: "wp (findLoadBalancerByName lb tenantID lbName) (\<lambda>r s'. muts s' = muts s \<and>
      (\<forall>i. r = Val (Inr i) \<longrightarrow> found_by_walk tenantID lbName s i s')) s" for tenantID lbName
    using wp_conj [OF find_walks frame_wp [OF find_view, where Q = "\<lambda>_ s'. muts s' = muts s"]]
    by (rule wp_conseq) auto
  show ?thesis
    using True
    by (auto simp: EnsureLoadBalancerDeleted_def client go_wp Let_def deletes_own_def
        intro!: wp_conseq [OF walk] deleteByID_own split: outcome.split sum.split)
qed

lemma Ensure_own:
  assumes "svc_DeletionTimestamp service \<noteq> None"
  shows "wp (EnsureLoadBalancer e lb clusterName service nodes) (\<lambda>r s'. \<exists>ms. muts s' = muts s @ ms \<and> deletes_own lb service s s' ms) s"
  using assms
  by (auto simp: EnsureLoadBalancer_def go_wp deletes_own_def [of _ _ s s "[]"] intro!: wp_conseq [OF Deleted_own] split: outcome.split)

end

section \<open>Writing an annotation\<close>






section \<open>The readiness poll ends\<close>

text \<open>
  The clock: over a stretch of history that contains a completed wait of \<open>d\<close>, it advances by at
  least \<open>d\<close>, and it never runs backwards.
\<close>

definition clock_law :: "env \<Rightarrow> int \<Rightarrow> bool" where
  "clock_law e d \<longleftrightarrow> (\<forall>s s' cs. calls s' = calls s @ cs \<longrightarrow>
     env_now e s \<le> env_now e s' \<and> (CSleep d None \<in> set cs \<longrightarrow> env_now e s + d \<le> env_now e s'))"

fun is_get :: "call \<Rightarrow> bool" where
  "is_get (CGet i r) = True"
| "is_get _ = False"

definition gets :: "call list \<Rightarrow> int" where
  "gets cs = int (length (filter is_get cs))"

lemma gets_simps [simp]: "gets [] = 0" "gets (a @ b) = gets a + gets b" "gets (c # cs) = (if is_get c then 1 else 0) + gets cs"
  by (simp_all add: gets_def)

definition update_muts :: "env \<Rightarrow> Service \<Rightarrow> (Listener list \<Rightarrow> bool) \<Rightarrow> call list \<Rightarrow> bool" where
  "update_muts e service built ms \<longleftrightarrow> ms = [] \<or>
     (\<exists>ls l a. ms = [CUpdate (updateRequest (annot service LoadBalancerIDAnnotationKey) ls l) a] \<and>
        annot service LoadBalancerIDAnnotationKey \<noteq> '''' \<and> configChanged e service ls \<and> built ls)"

lemma update_muts_simps [simp]:
  "update_muts e service B []"
  "annot service LoadBalancerIDAnnotationKey \<noteq> '''' \<Longrightarrow> configChanged e service ls \<Longrightarrow> B ls \<Longrightarrow>
     update_muts e service B [CUpdate (updateRequest (annot service LoadBalancerIDAnnotationKey) ls l) a]"
  by (auto simp: update_muts_def)

lemma buildListeners_wp:
  assumes "\<And>ls s'. muts s' = muts s \<Longrightarrow> retryCounts s' = retryCounts s \<Longrightarrow> Q (Val ls) s'"
  shows "wp (buildListeners e lb service nodes clusterName) Q s"
  by (rule wp_conseq [OF wp_conj [OF buildListeners_built
        frame_wp [OF buildListeners_frame, where Q = "\<lambda>_ s'. mview s' = mview s"]]])
     (use assms in \<open>auto simp: mview_iff\<close>)

context lb_client
begin

text \<open>
  While the deadline is \<open>k\<close> intervals away, the loop returns within \<open>k\<close> more requests.
\<close>

lemma pollLoop_total:
  assumes get: "\<And>s. lb_Get lb lbID s \<noteq> None" and clk: "clock_law e interval" and pos: "0 < interval"
  shows "deadline - env_now e s \<le> int k * interval \<Longrightarrow>
    \<exists>r s' cs. pollLoop e lb service lbID interval timeout deadline s = Some (r, s') \<and>
      calls s' = calls s @ cs \<and> gets cs \<le> int k"
proof (induction k arbitrary: s)
  case 0
  then show ?case by (subst pollLoop.simps) (simp add: time_Now_def go_bind_def ask_simps)
next
  case (Suc k)
  let ?s1 = "s\<lparr>calls := calls s @ [CNow (env_now e s)]\<rparr>"
  obtain r s2 where r: "lb_Get lb lbID ?s1 = Some (r, s2)" using get by fastforce
  have s2: "calls s2 = calls ?s1 @ (case r of Val a \<Rightarrow> [CGet lbID a] | Panic _ \<Rightarrow> [])"
    by (rule wpD [OF get_logged r])
  let ?s3 = "\<lambda>x. s2\<lparr>calls := calls s2 @ [CSleep interval x]\<rparr>"
  have "env_now e s + interval \<le> env_now e (?s3 None)"
    using clk s2 unfolding clock_law_def by (auto dest!: spec [of _ s] spec [of _ "?s3 None"])
  then have "deadline - env_now e (?s3 None) \<le> int k * interval"
    using Suc.prems by (simp add: algebra_simps)
  then obtain r' s' cs where rest: "pollLoop e lb service lbID interval timeout deadline (?s3 None) = Some (r', s')"
    "calls s' = calls (?s3 None) @ cs" "gets cs \<le> int k" using Suc.IH by blast
  then show ?case
    using r s2
    by (subst pollLoop.simps)
       (auto simp: time_Now_def select_after_def go_bind_def ask_simps split: outcome.splits option.splits)
qed

lemma poll_total:
  assumes "\<And>s. lb_Get lb lbID s \<noteq> None" "clock_law e (poll_interval lb)" "0 < poll_interval lb"
  shows "\<exists>r s' cs. pollLoadBalancerReady e lb service lbID s = Some (r, s') \<and> calls s' = calls s @ cs \<and>
    gets cs * poll_interval lb < max 0 (poll_timeout lb) + poll_interval lb"
proof -
  let ?s1 = "s\<lparr>calls := calls s @ [CNow (env_now e s)]\<rparr>" and ?i = "poll_interval lb"
  define t where "t = max 0 (poll_timeout lb)"
  define k where "k = nat ((t + ?i - 1) div ?i)"
  have "0 \<le> (t + ?i - 1) div ?i" using assms(3) by (simp add: t_def pos_imp_zdiv_nonneg_iff)
  then have ki: "int k * ?i = (t + ?i - 1) div ?i * ?i" by (simp add: k_def)
  have "(t + ?i - 1) div ?i * ?i = t + ?i - 1 - (t + ?i - 1) mod ?i" by (simp add: minus_mod_eq_div_mult)
  with ki have k: "t \<le> int k * ?i" "int k * ?i < t + ?i"
    using pos_mod_bound [OF assms(3), of "t + ?i - 1"] pos_mod_sign [OF assms(3), of "t + ?i - 1"] by linarith+
  have "env_now e s \<le> env_now e ?s1" using assms(2) unfolding clock_law_def by force
  then have "(env_now e s + poll_timeout lb) - env_now e ?s1 \<le> int k * ?i" using k(1) by (simp add: t_def)
  from pollLoop_total [OF assms this] obtain r s' cs where
    run: "pollLoop e lb service lbID ?i (poll_timeout lb) (env_now e s + poll_timeout lb) ?s1 = Some (r, s')"
      "calls s' = calls ?s1 @ cs" "gets cs \<le> int k" by blast
  have "gets cs * ?i \<le> int k * ?i" using run(3) assms(3) by (intro mult_right_mono) auto
  with k(2) have "gets (CNow (env_now e s) # cs) * ?i < t + ?i" by simp
  moreover have "pollLoadBalancerReady e lb service lbID s = Some (r, s')"
    using run(1) by (simp add: pollLoadBalancerReady_def time_Now_def go_bind_def ask_simps)
  ultimately show ?thesis using run(2) unfolding t_def by (intro exI [of _ r] exI [of _ s']) auto
qed

section \<open>Updates\<close>

lemma Update_effect:
  "effect (UpdateLoadBalancer e lb clusterName service nodes)
     (\<lambda>r ms after. after = retryCounts s \<and> update_muts e service (built_listeners e lb service nodes clusterName) ms) s"
  unfolding UpdateLoadBalancer_def Let_def
  by (rule effectI)
     (auto simp: go_wp client intro!: mutating_wps view_wps update_muts_simps(2) [OF _ _ built_listenersI] split: outcome.split sum.split option.split)

section \<open>A load balancer that is gone\<close>

lemma Ensure_missing:
  assumes "svc_DeletionTimestamp service = None" "annot service LoadBalancerIDAnnotationKey \<noteq> ''''"
    and miss: "\<And>s. wp (lb_Get lb (annot service LoadBalancerIDAnnotationKey)) (\<lambda>r _. \<exists>err. r = Val (Inl err)) s"
  shows "wp (EnsureLoadBalancer e lb clusterName service nodes)
    (\<lambda>r s'. (\<exists>err. r = Val (Inl err)) \<and> muts s' = muts s \<and> retryCounts s' = retryCounts s) s"
proof -
  have "wp (ensureExisting e lb service (annot service LoadBalancerIDAnnotationKey) ls)
    (\<lambda>r s'. (\<exists>err. r = Val (Inl err)) \<and> muts s' = muts s1 \<and> retryCounts s' = retryCounts s1) s1" for ls s1
    unfolding ensureExisting_def go_wp
    by (rule wp_conseq [OF wp_conj [OF miss frame_wp [OF get_view, where Q = "\<lambda>_ s'. mview s' = mview s1"]]])
       (auto simp: go_wp mview_iff)
  from this [THEN wp_conseq] show ?thesis
    using assms(1,2)
    by (auto simp: EnsureLoadBalancer_def client go_wp Let_def intro!: buildListeners_wp split: option.split)
qed

end

section \<open>The controller on the gRPC client\<close>

text \<open>
  \<^verbatim>\<open>cloud.go\<close> stores the \<^verbatim>\<open>*rpc.Client\<close> in the interface field of the load balancer object.
\<close>

definition wired :: "env \<Rightarrow> Client option \<Rightarrow> loadbalancer \<Rightarrow> loadbalancer" where
  "wired e c lb = lb\<lparr>lb_rpcClient := Some (client_iface e c)\<rparr>"

interpretation wired: lb_client "client_iface e c" "wired e c lb" for e c lb
  by unfold_locales (simp add: wired_def)

lemma wired_simps [simp]:
  "lb_config (wired e c lb) = lb_config lb" "lb_namespace (wired e c lb) = lb_namespace lb"
  "lb_rpcClient (wired e c lb) = Some (client_iface e c)"
  by (simp_all add: wired_def)

text \<open>The wiring changes none of the settings a Service sees.\<close>

lemma wired_settings [simp]:
  "useAnnotationConfig (wired e c lb) = useAnnotationConfig lb"
  "shouldSkipService (wired e c lb) = shouldSkipService lb"
  "getEffectiveIpType (wired e c lb) = getEffectiveIpType lb"
  "isFipEnabled (wired e c lb) = isFipEnabled lb"
  "isInternalMode (wired e c lb) = isInternalMode lb"
  "isBothMode (wired e c lb) = isBothMode lb"
  by (simp_all add: fun_eq_iff useAnnotationConfig_def shouldSkipService_def getEffectiveIpType_def
      isFipEnabled_def isInternalMode_def isBothMode_def split: option.split)

text \<open>States the controller can get into by calls of its four operations, in any order.\<close>

inductive reachable :: "env \<Rightarrow> loadbalancer \<Rightarrow> st \<Rightarrow> bool" for e lb where
  reach_init: "retryCounts s = Map.empty \<Longrightarrow> reachable e lb s"
| reach_get: "reachable e lb s \<Longrightarrow> GetLoadBalancer lb service s = Some (r, s') \<Longrightarrow> reachable e lb s'"
| reach_ensure: "reachable e lb s \<Longrightarrow> EnsureLoadBalancer e lb clusterName service nodes s = Some (re, s') \<Longrightarrow> reachable e lb s'"
| reach_update: "reachable e lb s \<Longrightarrow> UpdateLoadBalancer e lb clusterName service nodes s = Some (ru, s') \<Longrightarrow> reachable e lb s'"
| reach_delete: "reachable e lb s \<Longrightarrow> EnsureLoadBalancerDeleted lb service s = Some (rd, s') \<Longrightarrow> reachable e lb s'"

definition counters_ok :: "(string \<rightharpoonup> int) \<Rightarrow> bool" where
  "counters_ok m \<longleftrightarrow> (\<forall>uid n. m uid = Some n \<longrightarrow> 1 \<le> n \<and> n \<le> maxLoadBalancerRetries)"

lemma counters_ok_kept: "counters_ok before \<Longrightarrow> kept_or_cleared uid before after \<Longrightarrow> counters_ok after"
  by (auto simp: counters_ok_def kept_or_cleared_def split: if_splits)

lemma counters_ok_allowed:
  assumes "counters_ok (retryCounts s)"
    and "allowed_counters service (retryCounts s) (retryCount s (svc_UID service)) r isErr after"
  shows "counters_ok after"
proof -
  have "0 \<le> retryCount s uid" for uid
    using assms(1) by (force simp: counters_ok_def retryCount_def split: option.split)
  with assms show ?thesis
    by (auto simp: allowed_counters_def counters_ok_def kept_or_cleared_def split: if_splits)
qed

context lb_client
begin

lemma Get_view: "preserves mview (GetLoadBalancer lb service)"
  by (auto simp: GetLoadBalancer_def Let_def intro!: go_frame get_view)

lemma reachable_ok: "reachable e lb s \<Longrightarrow> counters_ok (retryCounts s)"
proof (induction rule: reachable.induct)
  case (reach_get s service r s')
  then show ?case using preservesD [OF Get_view] by (simp add: mview_iff)
next
  case (reach_ensure s clusterName service nodes r s')
  then show ?case
    using wpD [OF Ensure_effect [unfolded effect_def]] counters_ok_allowed by blast
next
  case (reach_update s clusterName service nodes r s')
  then show ?case using wpD [OF Update_effect [unfolded effect_def]] by fastforce
next
  case (reach_delete s service r s')
  then show ?case using wpD [OF deleted_effect [unfolded effect_def]] counters_ok_kept by blast
qed (simp add: counters_ok_def)

lemma stale_progress:
  assumes "lb_Get lb lbID s = Some (Val (Inr resp), s1)" "\<not> isReady (GetLoadBalancer_of resp)"
    and "retryCount s (svc_UID service) < maxLoadBalancerRetries"
  shows "wp (ensureExisting e lb service lbID listeners) (\<lambda>r s'. case r of
      Val (Inl err) \<Rightarrow> retryCount s' (svc_UID service) = retryCount s (svc_UID service) + 1
    | Val (Inr _) \<Rightarrow> retryCount s' (svc_UID service) = 0
    | Panic _ \<Rightarrow> True) s"
proof -
  have s1: "retryCounts s1 = retryCounts s" using preservesD [OF get_view assms(1)] by (simp add: mview_iff)
  then have "ensureExisting e lb service lbID listeners s =
      ensureNotReady e lb service lbID listeners (GetLoadBalancer_of resp) s1"
    using assms by (simp add: ensureExisting_def ensureStale_def go_bind_Some Let_def retryCount_def)
  moreover have "wp (ensureNotReady e lb service lbID listeners (GetLoadBalancer_of resp)) (\<lambda>r s'. case r of
      Val (Inl err) \<Rightarrow> retryCount s' (svc_UID service) = retryCount s (svc_UID service) + 1
    | Val (Inr _) \<Rightarrow> retryCount s' (svc_UID service) = 0
    | Panic _ \<Rightarrow> True) s1"
    by (rule effect_wp [OF ensureNotReady_effect])
       (auto simp: retryCount_def s1 split: outcome.splits sum.splits)
  ultimately show ?thesis by (simp add: wp_def)
qed

lemma give_up:
  assumes "lb_Get lb lbID s = Some (Val (Inr resp), s1)" "\<not> isReady (GetLoadBalancer_of resp)"
    and "maxLoadBalancerRetries \<le> retryCount s (svc_UID service)" "maxLoadBalancerCreateCount \<le> getCreateCount service"
  shows "\<exists>err. ensureExisting e lb service lbID listeners s = Some (Val (Inl err), s1)"
proof -
  have "retryCounts s1 = retryCounts s" using preservesD [OF get_view assms(1)] by (simp add: mview_iff)
  then show ?thesis
    using assms by (simp add: ensureExisting_def ensureStale_def ensureRecreate_def go_bind_Some Let_def retryCount_def go_ret_def)
qed

lemma createAndWait_creates:
  "wp (createAndWait e lb service listeners createReq count)
     (\<lambda>r s'. \<forall>x. r = Val x \<longrightarrow> (\<exists>a. muts s' = muts s @ [CCreate createReq a])) s"
  unfolding createAndWait_def waitAndPublish_def
  by (auto simp: go_wp intro!: mutating_wps view_wps split: outcome.split sum.split option.split)

lemma recreates:
  assumes "lb_Get lb lbID s = Some (Val (Inr resp), s1)" "\<not> isReady (GetLoadBalancer_of resp)"
    and "maxLoadBalancerRetries \<le> retryCount s (svc_UID service)" "getCreateCount service < maxLoadBalancerCreateCount"
    and "\<not> (isFipEnabled lb service \<and> lc_FipNetworkID (lb_config lb) = '''')"
  shows "wp (ensureExisting e lb service lbID listeners) (\<lambda>r s'. \<forall>x. r = Val x \<longrightarrow>
    (\<exists>a b. muts s' = muts s @ [CDelete lbID a, CCreate (createRequest e lb service listeners (getCreateCount service + 1)) b])) s"
proof -
  have s1: "retryCounts s1 = retryCounts s" "muts s1 = muts s" using preservesD [OF get_view assms(1)] by (simp_all add: mview_iff)
  then have "ensureExisting e lb service lbID listeners s = ensureRecreate e lb service lbID listeners s1"
    using assms by (simp add: ensureExisting_def ensureStale_def go_bind_Some Let_def retryCount_def)
  moreover have "wp (ensureRecreate e lb service lbID listeners) (\<lambda>r s'. \<forall>x. r = Val x \<longrightarrow>
    (\<exists>a b. muts s' = muts s @ [CDelete lbID a, CCreate (createRequest e lb service listeners (getCreateCount service + 1)) b])) s1"
    using assms(4,5) s1(2) unfolding ensureRecreate_def Let_def
    by (auto simp: go_wp intro!: mutating_wps wp_conseq [OF createAndWait_creates] split: outcome.split)
  ultimately show ?thesis by (simp add: wp_def)
qed

text \<open>From the entry point: the listeners are built and checked first, and only then does the load balancer matter.\<close>

lemma Ensure_reaches_existing:
  assumes "\<not> shouldSkipService lb service" "svc_DeletionTimestamp service = None"
    and "annot service LoadBalancerIDAnnotationKey \<noteq> ''''"
    and "buildListeners e lb service nodes clusterName s = Some (Val ls, s0)"
  shows "EnsureLoadBalancer e lb clusterName service nodes s =
    (case validateListeners ls of Some err \<Rightarrow> Some (Val (Inl err), s0)
     | None \<Rightarrow> ensureExisting e lb service (annot service LoadBalancerIDAnnotationKey) ls s0)"
    and "muts s0 = muts s" "retryCounts s0 = retryCounts s"
  using assms preservesD [OF buildListeners_frame assms(4)]
  by (auto simp: EnsureLoadBalancer_def client Let_def go_bind_Some mview_iff split: option.split)

lemma Ensure_escalates:
  assumes "\<not> shouldSkipService lb service" "svc_DeletionTimestamp service = None"
    and lbID: "lbID = annot service LoadBalancerIDAnnotationKey" "lbID \<noteq> ''''"
    and build: "buildListeners e lb service nodes clusterName s = Some (Val ls, s0)"
    and valid: "validateListeners ls = None"
    and get: "lb_Get lb lbID s0 = Some (Val (Inr resp), s1)" "\<not> isReady (GetLoadBalancer_of resp)"
  shows "retryCount s (svc_UID service) < maxLoadBalancerRetries \<Longrightarrow>
      wp (EnsureLoadBalancer e lb clusterName service nodes) (\<lambda>r s'. case r of
          Val (Inl err) \<Rightarrow> retryCount s' (svc_UID service) = retryCount s (svc_UID service) + 1
        | Val (Inr _) \<Rightarrow> retryCount s' (svc_UID service) = 0
        | Panic _ \<Rightarrow> True) s"
    and "maxLoadBalancerRetries \<le> retryCount s (svc_UID service) \<Longrightarrow> getCreateCount service < maxLoadBalancerCreateCount \<Longrightarrow>
      \<not> (isFipEnabled lb service \<and> lc_FipNetworkID (lb_config lb) = '''') \<Longrightarrow>
      wp (EnsureLoadBalancer e lb clusterName service nodes) (\<lambda>r s'. \<forall>x. r = Val x \<longrightarrow> (\<exists>a b. muts s' = muts s @
        [CDelete lbID a, CCreate (createRequest e lb service ls (getCreateCount service + 1)) b])) s"
    and "maxLoadBalancerRetries \<le> retryCount s (svc_UID service) \<Longrightarrow> maxLoadBalancerCreateCount \<le> getCreateCount service \<Longrightarrow>
      (\<exists>err. EnsureLoadBalancer e lb clusterName service nodes s = Some (Val (Inl err), s1)) \<and>
      muts s1 = muts s \<and> retryCounts s1 = retryCounts s"
proof -
  note reach = Ensure_reaches_existing [OF assms(1,2) lbID(2) [unfolded lbID(1)] build]
  have run: "EnsureLoadBalancer e lb clusterName service nodes s = ensureExisting e lb service lbID ls s0"
    using reach(1) valid lbID(1) by simp
  have count: "retryCount s0 uid = retryCount s uid" for uid by (rule retryCount_cong [OF reach(3)])
  show "wp (EnsureLoadBalancer e lb clusterName service nodes) (\<lambda>r s'. case r of
          Val (Inl err) \<Rightarrow> retryCount s' (svc_UID service) = retryCount s (svc_UID service) + 1
        | Val (Inr _) \<Rightarrow> retryCount s' (svc_UID service) = 0
        | Panic _ \<Rightarrow> True) s" if "retryCount s (svc_UID service) < maxLoadBalancerRetries"
    using stale_progress [OF get, of service e ls] that unfolding wp_def run count by simp
  show "wp (EnsureLoadBalancer e lb clusterName service nodes) (\<lambda>r s'. \<forall>x. r = Val x \<longrightarrow> (\<exists>a b. muts s' = muts s @
        [CDelete lbID a, CCreate (createRequest e lb service ls (getCreateCount service + 1)) b])) s"
    if "maxLoadBalancerRetries \<le> retryCount s (svc_UID service)" "getCreateCount service < maxLoadBalancerCreateCount"
      "\<not> (isFipEnabled lb service \<and> lc_FipNetworkID (lb_config lb) = '''')"
    using recreates [OF get, of service e ls] that unfolding wp_def run count reach(2) by blast
  show "(\<exists>err. EnsureLoadBalancer e lb clusterName service nodes s = Some (Val (Inl err), s1)) \<and>
      muts s1 = muts s \<and> retryCounts s1 = retryCounts s"
    if "maxLoadBalancerRetries \<le> retryCount s (svc_UID service)" "maxLoadBalancerCreateCount \<le> getCreateCount service"
    using give_up [OF get, of service e ls] that preservesD [OF get_view get(1)] reach(2,3)
    unfolding run count by (simp add: mview_iff)
qed

end

lemma found_by_walk_search:
  assumes "found_by_walk tenantID lbName s i s'"
  shows "\<exists>cs. calls s' = calls s @ cs \<and>
    i = (case find (\<lambda>x. sum_Name x = lbName) (concat (map summaries cs)) of Some x \<Rightarrow> sum_Id x | None \<Rightarrow> '''')"
proof -
  obtain cs tok resp where w: "walked tenantID lbName cs tok"
    and c: "calls s' = calls s @ cs @ [CList (listRequest tenantID tok) (Inr resp)]"
    and i: "case named lbName resp of Some x \<Rightarrow> i = sum_Id x | None \<Rightarrow> GetNextPageToken_of resp = '''' \<and> i = ''''"
    using assms unfolding found_by_walk_def by blast
  let ?P = "\<lambda>x. sum_Name x = lbName"
  have skip: "find ?P (xs @ ys) = find ?P ys" if "\<forall>x \<in> set xs. \<not> ?P x" for xs ys
    using that by (induction xs) auto
  from skip [OF walked_none [OF w]] have "find ?P (concat (map summaries (cs @ [CList (listRequest tenantID tok) (Inr resp)]))) = named lbName resp"
    by (simp add: named_def)
  with c i show ?thesis
    by (intro exI [of _ "cs @ [CList (listRequest tenantID tok) (Inr resp)]"]) (auto split: option.splits)
qed

lemma status_of_ready: "ready_for lb service l \<Longrightarrow> loadBalancerStatusFromResponse lb service (Some l) \<noteq> None"
  by (simp add: ready_for_def loadBalancerStatusFromResponse_def Let_def)

lemma deleted_result: "wp (EnsureLoadBalancer e lb clusterName service nodes) (\<lambda>r s'. svc_DeletionTimestamp service \<noteq> None \<longrightarrow>
    (\<forall>st. r = Val (Inr st) \<longrightarrow> st = None)) s"
proof (cases "svc_DeletionTimestamp service = None")
  case False
  then show ?thesis
    by (auto simp: EnsureLoadBalancer_def go_wp intro!: wpI split: outcome.split)
qed (simp add: wp_def split: option.split)

section \<open>Concrete instances\<close>

definition pending_lb :: LoadBalancer where
  "pending_lb = \<lparr>ld_Id = ''lb-1'', ld_Name = ''au1'', ld_Ip = '''', ld_Spec = None, ld_State = STATE_PROVISIONING,
     ld_Error = '''', ld_CreatedAt = None, ld_UpdatedAt = None, ld_FipEnabled = False, ld_Fip = '''',
     ld_FipState = FIP_STATE_NONE, ld_FipNetworkId = '''', ld_SecurityGroupDisabled = True, ld_SecurityGroupIds = [],
     ld_QosPolicyDisabled = True, ld_QosPolicyId = ''''\<rparr>"

definition ready_lb :: LoadBalancer where
  "ready_lb = pending_lb\<lparr>ld_Ip := ''10.9.0.1'', ld_State := STATE_READY\<rparr>"

text \<open>A server on which every request succeeds and every load balancer has the given state.\<close>

definition live_env :: "LoadBalancer \<Rightarrow> env" where
  "live_env l = quiet_env\<lparr>env_Get := (\<lambda>_ _. Inr \<lparr>grr_LoadBalancer = Some l\<rparr>),
     env_Update := (\<lambda>_ _. Inr \<lparr>urr_Id = ''lb-1'', urr_State = STATE_UPDATING\<rparr>),
     env_Delete := (\<lambda>_ _. Inr \<lparr>drr_Id = ''lb-1'', drr_State = STATE_DELETING\<rparr>),
     env_tenant_Get := (\<lambda>_ _ _. Inr demo_service), env_tenant_Update := (\<lambda>_ _. None)\<rparr>"

abbreviation live_lb :: "LoadBalancer \<Rightarrow> loadbalancer" where
  "live_lb l \<equiv> wired (live_env l) (Some demo_client) (demo_lb None)"

definition managed_service :: "env \<Rightarrow> Service" where
  "managed_service e = demo_service\<lparr>svc_Annotations := Some [HTTPRoutePathAnnotationKey \<mapsto> ''/api'',
     LoadBalancerIDAnnotationKey \<mapsto> ''lb-1'',
     LoadBalancerListenerHashAnnotationKey \<mapsto> listenersHashStr e demo_listeners]\<rparr>"

lemma steady_live: "steady (live_env l)"
  by (simp add: steady_def live_env_def quiet_env_def)

lemma live_methods:
  "lb_Get (live_lb l) i s = Some (Val (Inr (Some \<lparr>grr_LoadBalancer = Some l\<rparr>)),
     s\<lparr>wire := wire s @ [WState Ready, WSend ''GetLoadBalancer'' (Some OK)],
       calls := calls s @ [CGet i (Inr (Some \<lparr>grr_LoadBalancer = Some l\<rparr>))]\<rparr>)"
proof -
  have "retryOnFailure (live_env l) (Some demo_client) ''GetLoadBalancer''
      (ask_wire (\<lambda>s. env_Get (live_env l) s req) (sent ''GetLoadBalancer'')) s =
    Some (Val (Inr (Some \<lparr>grr_LoadBalancer = Some l\<rparr>)),
      s\<lparr>wire := wire s @ [WState Ready, sent ''GetLoadBalancer'' (Inr \<lparr>grr_LoadBalancer = Some l\<rparr> :: goerror + GetLoadBalancerResponse)]\<rparr>)" for req
    by (rule retryOnFailure_steady [OF steady_live]) (simp_all add: demo_client_def live_env_def)
  then show ?thesis
    by (simp add: lb_Get_def wired_def client_iface_def Client_GetLoadBalancer_def logged_def go_bind_def ask_simps sent_def)
qed

lemma managed_annots:
  "annot (managed_service e) LoadBalancerIDAnnotationKey = ''lb-1''"
  "annot (managed_service e) LoadBalancerListenerHashAnnotationKey = listenersHashStr e demo_listeners"
  "svc_DeletionTimestamp (managed_service e) = None"
  "svc_UID (managed_service e) = ''u-1''"
  "\<not> shouldSkipService (demo_lb R) (managed_service e)"
  by (simp_all add: managed_service_def annots_def mget_def demo_service_def shouldSkipService_def
      useAnnotationConfig_def demo_lb_def createDefaultCloudConfig_def lb_keys)

lemma managed_listeners:
  "buildListeners e lb (managed_service e') [demo_node ''a'' ''10.0.0.2''] clusterName s = Some (Val demo_listeners, s)"
proof -
  have "buildListener (managed_service e') p bs = buildListener demo_service p bs" for p bs
    by (simp add: buildListener_def listenerProtocol_def buildRule_def httpMatches_def httpMonitor_def
        managed_service_def demo_service_def annots_def mget_def lb_keys Let_def)
  moreover have "svc_Ports (managed_service e') = svc_Ports demo_service" by (simp add: managed_service_def)
  ultimately have "buildPorts e lb (managed_service e') nodes clusterName ports = buildPorts e lb demo_service nodes clusterName ports" for nodes ports
    by (induction ports) simp_all
  then show ?thesis
    using demo_listeners_built \<open>svc_Ports (managed_service e') = svc_Ports demo_service\<close> by (simp add: buildListeners_def)
qed

lemma demo_validated: "validateListeners demo_listeners = None"
  by (simp add: validateListeners_None demo_listeners_def)

text \<open>A server with two pages of load balancers.\<close>

definition demo_page :: "string \<Rightarrow> ListLoadBalancersResponse" where
  "demo_page tok = \<lparr>lsrr_LoadBalancers = [], lsrr_NextPageToken = (if tok = '''' then ''p2'' else '''')\<rparr>"

definition paged_env :: env where
  "paged_env = quiet_env\<lparr>env_List := \<lambda>_ req. Inr (demo_page (lsr_PageToken req))\<rparr>"

text \<open>A clock that advances by exactly the completed waits.\<close>

fun slept_time :: "call \<Rightarrow> int" where
  "slept_time (CSleep d None) = max 0 d"
| "slept_time _ = 0"

definition clocked_env :: env where
  "clocked_env = (live_env pending_lb)\<lparr>env_now := \<lambda>s. sum_list (map slept_time (calls s))\<rparr>"

lemma slept_time_nonneg: "0 \<le> sum_list (map slept_time cs)"
proof -
  have "0 \<le> slept_time c" for c by (cases c rule: slept_time.cases) simp_all
  then show ?thesis by (auto intro!: sum_list_nonneg)
qed

lemma slept_time_member: "c \<in> set cs \<Longrightarrow> slept_time c \<le> sum_list (map slept_time cs)"
proof -
  assume "c \<in> set cs"
  then obtain xs ys where "cs = xs @ c # ys" by (meson split_list)
  with slept_time_nonneg [of xs] slept_time_nonneg [of ys] show ?thesis by simp
qed

section \<open>Properties\<close>

text \<open>
  C1. What one \<^verbatim>\<open>EnsureLoadBalancer\<close> may change on the server: nothing, in particular for a Service
  that is not this provider's; for a Service under deletion at most one delete, of the identifier the
  Service carries or, without one, of the identifier that the listing made in this call gives for
  the Service's name; otherwise, without an identifier, one create with the key of the current create
  count; or, with an identifier, one update of that load balancer; or, once the retry counter has
  reached 10 and fewer than 3 creates were made, the delete of that load balancer, followed by at
  most one create, whose key is that of the next attempt. In particular it never creates two load
  balancers, never creates beside an existing one without deleting that first, creates and updates
  nothing for a Service under deletion, and touches no load balancer but the Service's own. The
  listeners it sends are listeners that \<^verbatim>\<open>buildListeners\<close> built for the Service and the nodes, and
  they passed the check.
\<close>

theorem ensure_mutations:
  "wp (EnsureLoadBalancer e (wired e c lb) clusterName service nodes)
      (\<lambda>r s'. \<exists>ms. muts s' = muts s @ ms \<and>
         allowed_muts e (wired e c lb) service (built_listeners e (wired e c lb) service nodes clusterName) (retryCount s (svc_UID service)) ms \<and>
         (case svc_DeletionTimestamp service of None \<Rightarrow> True | Some _ \<Rightarrow> deletes_own (wired e c lb) service s s' ms)) s"
proof -
  have all: "wp (EnsureLoadBalancer e (wired e c lb) clusterName service nodes) (\<lambda>r s'. \<exists>ms. muts s' = muts s @ ms \<and>
      allowed_muts e (wired e c lb) service (built_listeners e (wired e c lb) service nodes clusterName) (retryCount s (svc_UID service)) ms) s"
    using wired.Ensure_effect unfolding effect_def by (rule wp_conseq) blast
  show ?thesis
  proof (cases "svc_DeletionTimestamp service = None")
    case True
    with all show ?thesis by simp
  next
    case False
    from wp_conj [OF all wired.Ensure_own [OF False]] show ?thesis by (rule wp_conseq) (use False in auto)
  qed
qed

text \<open>
  C10. What one \<^verbatim>\<open>EnsureLoadBalancer\<close> does to the retry counters: the counters of other Services
  stay as they are; its own is kept, cleared, or, only when it was below 10 and the call returns
  an error, incremented by one.
\<close>

theorem ensure_counters:
  "wp (EnsureLoadBalancer e (wired e c lb) clusterName service nodes)
      (\<lambda>r s'. allowed_counters service (retryCounts s) (retryCount s (svc_UID service)) r isl (retryCounts s')) s"
  using wired.Ensure_effect unfolding effect_def by (rule wp_conseq) blast

text \<open>
  C4. Invariant of the retry counters: in every state the controller can reach by any sequence of
  Get, Ensure, Update and Delete calls for any Services, every stored counter is between 1 and 10.
\<close>

theorem reachable_counters:
  assumes "reachable e (wired e c lb) s"
  shows "counters_ok (retryCounts s)"
  using assms by (rule wired.reachable_ok)

theorem reachable_counters_witness:
  "\<exists>r s'. EnsureLoadBalancer (live_env pending_lb) (live_lb pending_lb) ''c'' (managed_service (live_env pending_lb))
     [demo_node ''a'' ''10.0.0.2''] init_st = Some (r, s') \<and> retryCounts s' ''u-1'' = Some 1 \<and> counters_ok (retryCounts s')"
proof -
  let ?svc = "managed_service (live_env pending_lb)" and ?lb = "live_lb pending_lb"
  have nr: "\<not> isReady (GetLoadBalancer_of (Some \<lparr>grr_LoadBalancer = Some pending_lb\<rparr>))"
    by (simp add: GetLoadBalancer_of_def isReady_def pending_lb_def)
  obtain err s' where run: "EnsureLoadBalancer (live_env pending_lb) ?lb ''c'' ?svc [demo_node ''a'' ''10.0.0.2''] init_st =
      Some (Val (Inl err), s')" "retryCounts s' ''u-1'' = Some 1"
    by (simp add: EnsureLoadBalancer_def managed_annots go_bind_Some(1) [OF managed_listeners] demo_validated Let_def
        ensureExisting_def go_bind_Some(1) [OF live_methods] nr ensureStale_def ensureNotReady_def
        configChanged_def retryCount_def init_st_def maxLoadBalancerRetries_def)
  moreover have "reachable (live_env pending_lb) ?lb s'"
    by (rule reach_ensure [OF reach_init run(1)]) (simp add: init_st_def)
  ultimately show ?thesis using reachable_counters by blast
qed

text \<open>
  C3. Success means ready: when \<^verbatim>\<open>EnsureLoadBalancer\<close> reports a status, the server has answered
  during this very call that a load balancer is in state READY with an address (and, if a floating
  IP is wanted, with the floating IP active), and the status is the one of that load balancer. It
  returns without status and error only for a Service under deletion.
\<close>

theorem ensure_success_ready:
  "wp (EnsureLoadBalancer e (wired e c lb) clusterName service nodes) (\<lambda>r s'. case r of
      Val (Inr (Some st)) \<Rightarrow> (\<exists>l. ready_for lb service l \<and> seen (length (calls s)) l s' \<and>
         loadBalancerStatusFromResponse lb service (Some l) = Some st)
    | Val (Inr None) \<Rightarrow> svc_DeletionTimestamp service \<noteq> None
    | _ \<Rightarrow> True) s"
proof -
  have same: "ready_for (wired e c lb) service l = ready_for lb service l"
    "loadBalancerStatusFromResponse (wired e c lb) service x = loadBalancerStatusFromResponse lb service x" for l x
    unfolding ready_for_def loadBalancerStatusFromResponse_def wired_settings by (rule refl)+
  show ?thesis
  proof (cases "svc_DeletionTimestamp service = None")
    case True
    show ?thesis
      by (rule wp_conseq [OF wired.Ensure_ready [OF True]])
         (fastforce simp: reports_ready_def same dest: status_of_ready split: outcome.split sum.split option.split)
  next
    case False
    show ?thesis
      by (rule wp_conseq [OF deleted_result]) (use False in \<open>auto split: outcome.split sum.split option.split\<close>)
  qed
qed
text \<open>
  C27. An Ensure call that finds everything in order only looks: with an identifier, unchanged
  listeners and a ready load balancer, it makes one \<^verbatim>\<open>GetLoadBalancer\<close> request after building the
  listeners, clears the retry counter and reports the status; it sends no create, update or delete
  and writes no annotation.
\<close>

theorem ensure_steady_state:
  assumes "\<not> shouldSkipService lb service" "svc_DeletionTimestamp service = None"
    and "annot service LoadBalancerIDAnnotationKey \<noteq> ''''"
    and "buildListeners e (wired e c lb) service nodes clusterName s = Some (Val ls, s1)" "validateListeners ls = None"
    and "annot service LoadBalancerListenerHashAnnotationKey = listenersHashStr e ls"
    and "lb_Get (wired e c lb) (annot service LoadBalancerIDAnnotationKey) s1 = Some (Val (Inr resp), s2)"
    and "GetLoadBalancer_of resp = Some l" "ready_for lb service l"
  shows "EnsureLoadBalancer e (wired e c lb) clusterName service nodes s =
    Some (Val (Inr (loadBalancerStatusFromResponse (wired e c lb) service (Some l))), clearRetryCount (svc_UID service) s2)"
  using assms
  by (auto simp: EnsureLoadBalancer_def ensureExisting_def ensureReady_def go_bind_Some configChanged_def isReady_def
      ready_for_def Let_def)

theorem ensure_steady_state_witness:
  "\<exists>s'. EnsureLoadBalancer (live_env ready_lb) (live_lb ready_lb) ''c'' (managed_service (live_env ready_lb))
     [demo_node ''a'' ''10.0.0.2''] init_st =
   Some (Val (Inr (Some [\<lparr>ing_IP = ''10.9.0.1'', ing_Hostname = '''', ing_IPMode = Some LoadBalancerIPModeVIP\<rparr>])), s')"
proof -
  let ?svc = "managed_service (live_env ready_lb)"
  have fip: "\<not> isFipEnabled (demo_lb None) ?svc" "\<not> useAnnotationConfig (demo_lb None)"
    by (simp_all add: isFipEnabled_def getEffectiveIpType_def managed_service_def demo_service_def annots_def lb_keys
        demo_lb_def createDefaultCloudConfig_def char_lower_def useAnnotationConfig_def)
  then have "ready_for (demo_lb None) ?svc ready_lb" by (simp add: ready_for_def ready_lb_def)
  then have "\<exists>s'. EnsureLoadBalancer (live_env ready_lb) (live_lb ready_lb) ''c'' ?svc [demo_node ''a'' ''10.0.0.2''] init_st =
      Some (Val (Inr (loadBalancerStatusFromResponse (live_lb ready_lb) ?svc (Some ready_lb))), s')"
    by - (rule exI, rule ensure_steady_state [OF managed_annots(5,3) _ managed_listeners demo_validated
          managed_annots(2) live_methods], simp_all add: managed_annots GetLoadBalancer_of_def)
  with fip show ?thesis by (simp add: loadBalancerStatusFromResponse_def ready_lb_def)
qed

text \<open>
  C8. Every failed attempt brings the rebuild closer. Take a Service of this provider with an
  identifier and not under deletion, whose load balancer the server reports as not ready. If the
  listeners built for it do not pass the check (for example because it has no endpoints), the call
  fails before it looks at the load balancer and counts nothing. If they pass: with fewer than 10
  counted retries, an \<^verbatim>\<open>EnsureLoadBalancer\<close> that fails counts one more and one that succeeds resets
  the count; with 10 retries and fewer than 3 creates (and a floating IP network, if one is needed),
  every call that returns has deleted the load balancer and sent the create of the next attempt; with
  10 retries and 3 creates the call gives up with an error and changes nothing.
\<close>

theorem not_ready_escalates:
  assumes "\<not> shouldSkipService lb service" "svc_DeletionTimestamp service = None"
    and "lbID = annot service LoadBalancerIDAnnotationKey" "lbID \<noteq> ''''"
    and "buildListeners e (wired e c lb) service nodes clusterName s = Some (Val ls, s0)"
    and "lb_Get (wired e c lb) lbID s0 = Some (Val (Inr resp), s1)" "\<not> isReady (GetLoadBalancer_of resp)"
  shows "(case validateListeners ls of
      Some err \<Rightarrow> EnsureLoadBalancer e (wired e c lb) clusterName service nodes s = Some (Val (Inl err), s0) \<and>
        muts s0 = muts s \<and> retryCounts s0 = retryCounts s
    | None \<Rightarrow>
        (retryCount s (svc_UID service) < 10 \<longrightarrow>
          wp (EnsureLoadBalancer e (wired e c lb) clusterName service nodes) (\<lambda>r s'. case r of
              Val (Inl err) \<Rightarrow> retryCount s' (svc_UID service) = retryCount s (svc_UID service) + 1
            | Val (Inr _) \<Rightarrow> retryCount s' (svc_UID service) = 0
            | Panic _ \<Rightarrow> True) s) \<and>
        (10 \<le> retryCount s (svc_UID service) \<and> getCreateCount service < 3 \<and>
         \<not> (isFipEnabled lb service \<and> lc_FipNetworkID (lb_config lb) = '''') \<longrightarrow>
          wp (EnsureLoadBalancer e (wired e c lb) clusterName service nodes) (\<lambda>r s'. \<forall>x. r = Val x \<longrightarrow> (\<exists>a b. muts s' = muts s @
            [CDelete lbID a, CCreate (createRequest e (wired e c lb) service ls (getCreateCount service + 1)) b])) s) \<and>
        (10 \<le> retryCount s (svc_UID service) \<and> 3 \<le> getCreateCount service \<longrightarrow>
          (\<exists>err. EnsureLoadBalancer e (wired e c lb) clusterName service nodes s = Some (Val (Inl err), s1)) \<and>
          muts s1 = muts s \<and> retryCounts s1 = retryCounts s))"
proof (cases "validateListeners ls")
  case None
  note esc = wired.Ensure_escalates [where e = e and c = c and lb = lb and service = service,
    OF _ assms(2,3,4,5) None assms(6,7), unfolded wired_settings wired_simps maxLoadBalancerRetries_def maxLoadBalancerCreateCount_def, OF assms(1)]
  show ?thesis using None esc by simp
next
  case (Some err)
  have "\<not> shouldSkipService (wired e c lb) service" "annot service LoadBalancerIDAnnotationKey \<noteq> ''''"
    using assms(1,3,4) by simp_all
  from wired.Ensure_reaches_existing [OF this(1) assms(2) this(2) assms(5)] Some show ?thesis by simp
qed

theorem not_ready_escalates_witness:
  "wp (EnsureLoadBalancer (live_env pending_lb) (live_lb pending_lb) ''c'' (managed_service (live_env pending_lb)) [demo_node ''a'' ''10.0.0.2''])
     (\<lambda>r s'. case r of Val (Inl err) \<Rightarrow> retryCount s' ''u-1'' = 1 | Val (Inr _) \<Rightarrow> retryCount s' ''u-1'' = 0 | Panic _ \<Rightarrow> True) init_st"
proof -
  let ?svc = "managed_service (live_env pending_lb)"
  have nr: "\<not> isReady (GetLoadBalancer_of (Some \<lparr>grr_LoadBalancer = Some pending_lb\<rparr>))"
    by (simp add: GetLoadBalancer_of_def isReady_def pending_lb_def)
  have zero: "retryCount init_st ''u-1'' = 0" by (simp add: retryCount_def init_st_def)
  have "wp (EnsureLoadBalancer (live_env pending_lb) (live_lb pending_lb) ''c'' ?svc [demo_node ''a'' ''10.0.0.2''])
     (\<lambda>r s'. case r of Val (Inl err) \<Rightarrow> retryCount s' (svc_UID ?svc) = retryCount init_st (svc_UID ?svc) + 1
        | Val (Inr _) \<Rightarrow> retryCount s' (svc_UID ?svc) = 0 | Panic _ \<Rightarrow> True) init_st"
    using not_ready_escalates [OF managed_annots(5,3) refl _ managed_listeners live_methods nr, where s = init_st and clusterName = "''c''"] zero
    by (simp add: managed_annots demo_validated)
  then show ?thesis by (simp only: managed_annots(4) zero add_0)
qed

text \<open>
  C7. What a successful deletion guarantees: \<^verbatim>\<open>EnsureLoadBalancerDeleted\<close> returns nil, which lets
  the cleanup finalizer go, only if the server confirmed that the Service's load balancer is deleted
  or absent, or all pages of the tenant's load balancers were read and none has the Service's name,
  or a page lists the name with an empty identifier (the one case in which a load balancer of the
  name may stay behind), or the Service was never accepted; and unless it was never accepted its
  retry counter is cleared.
\<close>

theorem deleted_means_gone:
  "wp (EnsureLoadBalancerDeleted (wired e c lb) service) (\<lambda>r s'.
      (case r of Val None \<Rightarrow> cleaned_up (wired e c lb) service s s' | _ \<Rightarrow> True) \<and>
      (if shouldSkipService lb service \<and> annot service LoadBalancerIDAnnotationKey = '''' then s' = s
       else retryCounts s' (svc_UID service) = None)) s"
proof -
  have "wp (EnsureLoadBalancerDeleted (wired e c lb) service) (\<lambda>r s'.
      if shouldSkipService lb service \<and> annot service LoadBalancerIDAnnotationKey = '''' then s' = s
       else retryCounts s' (svc_UID service) = None) s"
    by (auto simp: EnsureLoadBalancerDeleted_def go_wp Let_def intro!: wpI split: outcome.split sum.split)
  from wp_conj [OF wired.Deleted_cleans this] show ?thesis
    by (rule wp_conseq) (auto split: outcome.split option.split)
qed

text \<open>
  C24. Lookup by name equals a search of the whole listing: when \<^verbatim>\<open>findLoadBalancerByName\<close> returns
  without error, its result is the identifier of the first load balancer of that name in the
  concatenation of the pages it read, or empty if there is none; and the pages are a walk from the
  first page, each requested with the token the previous one returned, that stops at a match or at
  the last page.
\<close>

theorem find_is_search:
  "wp (findLoadBalancerByName (wired e c lb) tenantID lbName) (\<lambda>r s'. case r of
      Val (Inr i) \<Rightarrow> found_by_walk tenantID lbName s i s' \<and>
        (\<exists>cs. calls s' = calls s @ cs \<and>
          i = (case find (\<lambda>x. sum_Name x = lbName) (concat (map summaries cs)) of Some x \<Rightarrow> sum_Id x | None \<Rightarrow> ''''))
    | _ \<Rightarrow> True) s"
  by (rule wp_conseq [OF wired.find_walks])
     (auto dest: found_by_walk_search split: outcome.split sum.split)

text \<open>
  C25. The lookup ends on every server whose page tokens lead to a last page: then it returns an
  identifier or the empty string.
\<close>

theorem find_returns:
  assumes "\<And>s tok. \<exists>s'. lb_List (wired e c lb) (listRequest tenantID tok) s = Some (Val (Inr (page tok)), s')"
    and "\<And>tok. GetNextPageToken_of (page tok) \<noteq> '''' \<Longrightarrow> rank (GetNextPageToken_of (page tok)) < (rank tok :: nat)"
  shows "\<exists>i s'. findLoadBalancerByName (wired e c lb) tenantID lbName s = Some (Val (Inr i), s')"
  using assms by (rule wired.find_terminates)

theorem find_returns_witness:
  "\<exists>i s'. findLoadBalancerByName (wired paged_env (Some demo_client) (demo_lb None)) ''shop'' ''au1'' init_st = Some (Val (Inr i), s')"
proof (rule find_returns [where page = "\<lambda>tok. Some (demo_page tok)" and rank = "\<lambda>tok. if tok = '''' then 1 else 0"])
  have "steady paged_env" by (simp add: steady_def paged_env_def quiet_env_def)
  then have "retryOnFailure paged_env (Some demo_client) ''ListLoadBalancers''
      (ask_wire (\<lambda>s. env_List paged_env s req) (sent ''ListLoadBalancers'')) s =
    Some (Val (Inr (Some (demo_page (lsr_PageToken req)))),
      s\<lparr>wire := wire s @ [WState Ready, sent ''ListLoadBalancers''
          (Inr (demo_page (lsr_PageToken req)) :: goerror + ListLoadBalancersResponse)]\<rparr>)" for req s
    by (rule retryOnFailure_steady) (simp_all add: demo_client_def paged_env_def)
  then show "\<exists>s'. lb_List (wired paged_env (Some demo_client) (demo_lb None)) (listRequest ''shop'' tok) s =
      Some (Val (Inr (Some (demo_page tok))), s')" for s tok
    by (simp add: lb_List_def client_iface_def Client_ListLoadBalancers_def logged_def go_bind_def ask_simps listRequest_def)
qed (simp add: GetNextPageToken_of_def demo_page_def split: if_splits)

text \<open>
  C15. Waiting for readiness ends: if each \<^verbatim>\<open>GetLoadBalancer\<close> call returns, the clock never runs
  backwards and a completed wait lasts at least as long as asked for, then \<^verbatim>\<open>pollLoadBalancerReady\<close>
  returns, and the number of requests it makes is bounded by the timeout divided by the interval,
  rounded up.
\<close>

theorem poll_ends:
  assumes "\<And>s. lb_Get (wired e c lb) lbID s \<noteq> None" "clock_law e (poll_interval lb)" "0 < poll_interval lb"
  shows "\<exists>r s' cs. pollLoadBalancerReady e (wired e c lb) service lbID s = Some (r, s') \<and> calls s' = calls s @ cs \<and>
    gets cs * poll_interval lb < max 0 (poll_timeout lb) + poll_interval lb"
proof -
  have same: "poll_interval (wired e c lb) = poll_interval lb" "poll_timeout (wired e c lb) = poll_timeout lb"
    by (simp_all add: poll_interval_def poll_timeout_def)
  have "\<exists>r s' cs. pollLoadBalancerReady e (wired e c lb) service lbID s = Some (r, s') \<and> calls s' = calls s @ cs \<and>
    gets cs * poll_interval (wired e c lb) < max 0 (poll_timeout (wired e c lb)) + poll_interval (wired e c lb)"
    by (rule wired.poll_total) (simp_all only: same assms not_False_eq_True)
  then show ?thesis unfolding same .
qed

theorem poll_ends_witness:
  "\<exists>r s' cs. pollLoadBalancerReady clocked_env (wired clocked_env (Some demo_client) (demo_lb None)) demo_service ''lb-1'' init_st =
     Some (r, s') \<and> calls s' = calls init_st @ cs \<and>
     gets cs * poll_interval (demo_lb None) < max 0 (poll_timeout (demo_lb None)) + poll_interval (demo_lb None)"
proof (rule poll_ends)
  show "clock_law clocked_env (poll_interval (demo_lb None))"
    using slept_time_nonneg slept_time_member [of "CSleep d None" for d]
    by (fastforce simp: clock_law_def clocked_env_def)
  show "0 < poll_interval (demo_lb None)"
    by (simp add: poll_interval_def demo_lb_def createDefaultCloudConfig_def seconds_def int64_id
        DefaultLoadBalancerCreatePollInterval_def)
  have "steady clocked_env" by (simp add: steady_def clocked_env_def live_env_def quiet_env_def)
  from retryOnFailure_steady [OF this, of demo_client "\<lambda>s. env_Get clocked_env s req" "\<lparr>grr_LoadBalancer = Some pending_lb\<rparr>" for req]
  show "lb_Get (wired clocked_env (Some demo_client) (demo_lb None)) ''lb-1'' s \<noteq> None" for s
    by (simp add: lb_Get_def client_iface_def Client_GetLoadBalancer_def logged_def go_bind_def ask_simps
        demo_client_def clocked_env_def live_env_def)
qed


text \<open>
  C28. What \<^verbatim>\<open>UpdateLoadBalancer\<close> may change: it never touches the retry counters, and on the server
  at most one update of the load balancer the Service names, and that only with listeners that pass
  the check and whose hash differs from the recorded one.
\<close>

theorem update_mutations:
  "wp (UpdateLoadBalancer e (wired e c lb) clusterName service nodes)
      (\<lambda>r s'. retryCounts s' = retryCounts s \<and> (\<exists>ms. muts s' = muts s @ ms \<and>
         update_muts e service (built_listeners e (wired e c lb) service nodes clusterName) ms)) s"
  using wired.Update_effect unfolding effect_def by (rule wp_conseq) blast

text \<open>
  A node event that does not change the listeners costs no request: with the recorded hash equal
  to that of the listeners built now, \<^verbatim>\<open>UpdateLoadBalancer\<close> returns nil in the state the building
  left, having talked to no load balancer server.
\<close>

lemma update_unchanged_silent:
  assumes "annot service LoadBalancerIDAnnotationKey \<noteq> ''''"
    and "buildListeners e (wired e c lb) service nodes clusterName s = Some (Val ls, s1)" "validateListeners ls = None"
    and "annot service LoadBalancerListenerHashAnnotationKey = listenersHashStr e ls"
  shows "UpdateLoadBalancer e (wired e c lb) clusterName service nodes s = Some (Val None, s1)"
  using assms by (simp add: UpdateLoadBalancer_def go_bind_Some configChanged_def Let_def)

text \<open>
  C29. A load balancer that disappeared is never replaced: when every \<^verbatim>\<open>GetLoadBalancer\<close> request for
  the identifier the Service carries fails (as it does after the server has forgotten it), each
  \<^verbatim>\<open>EnsureLoadBalancer\<close> fails without any create, update or delete and without counting a retry, so
  the recreate branch is never reached. The code gets there by itself when the create that follows
  the delete in that branch fails.
\<close>

theorem ensure_missing_stuck:
  assumes "svc_DeletionTimestamp service = None" "annot service LoadBalancerIDAnnotationKey \<noteq> ''''"
    and "\<And>s. wp (lb_Get (wired e c lb) (annot service LoadBalancerIDAnnotationKey)) (\<lambda>r _. \<exists>err. r = Val (Inl err)) s"
  shows "wp (EnsureLoadBalancer e (wired e c lb) clusterName service nodes)
    (\<lambda>r s'. (\<exists>err. r = Val (Inl err)) \<and> muts s' = muts s \<and> retryCounts s' = retryCounts s) s"
  using assms by (rule wired.Ensure_missing)

theorem ensure_missing_stuck_witness:
  "wp (EnsureLoadBalancer quiet_env (wired quiet_env (Some demo_client) (demo_lb None)) ''c'' (managed_service quiet_env)
      [demo_node ''a'' ''10.0.0.2''])
    (\<lambda>r s'. (\<exists>err. r = Val (Inl err)) \<and> muts s' = muts init_st \<and> retryCounts s' = retryCounts init_st) init_st"
proof (rule ensure_missing_stuck)
  have fails: "\<exists>s'. retryOnFailure quiet_env (Some demo_client) ''GetLoadBalancer''
      (ask_wire (\<lambda>s. env_Get quiet_env s req) (sent ''GetLoadBalancer'')) s =
      Some (Val (Inl (StatusError NotFound ''no such load balancer'')), s') \<and> sends s' = Suc (sends s)" for req s
    by (rule retryOnFailure_final [OF steady_quiet]) (simp_all add: demo_client_def quiet_env_def final_code_def)
  have "wp (lb_Get (wired quiet_env (Some demo_client) (demo_lb None)) i) (\<lambda>r _. \<exists>err. r = Val (Inl err)) s" for i s
  proof -
    obtain s' where "retryOnFailure quiet_env (Some demo_client) ''GetLoadBalancer''
      (ask_wire (\<lambda>s. env_Get quiet_env s \<lparr>gr_Id = i\<rparr>) (sent ''GetLoadBalancer'')) s =
      Some (Val (Inl (StatusError NotFound ''no such load balancer'')), s')" using fails by blast
    then show ?thesis
      by (simp add: lb_Get_def client_iface_def Client_GetLoadBalancer_def logged_def wp_def go_bind_Some ask_simps)
  qed
  then show "wp (lb_Get (wired quiet_env (Some demo_client) (demo_lb None)) (annot (managed_service quiet_env) LoadBalancerIDAnnotationKey))
      (\<lambda>r _. \<exists>err. r = Val (Inl err)) s" for s .
qed (simp_all add: managed_annots)

end
