(* ===== verification/Instances.thy ===== *)
theory Instances
  imports Provider_Config Net_IP
begin

text \<open>
  The \<^verbatim>\<open>InstancesV2\<close> interface of the provider: the lookup strategies of
  \<^verbatim>\<open>pkg/provider/instances_getter.go\<close> and the operations of \<^verbatim>\<open>pkg/provider/instances_v2.go\<close>, by
  which the node controllers learn whether the virtual machine of a node exists, whether it is
  shut down, and its addresses and zone. The operations only read; each makes every query at most
  once, so that the client is a record of functions from queries to answers, one such record per
  call.
\<close>

section \<open>The infra client\<close>

text \<open>
  The queries: a virtual machine instance by namespace and name, the instances of a namespace with
  a given \<^verbatim>\<open>spec.hostname\<close>, and a node by name.
\<close>

record infra_client =
  cli_GetVMI :: "string \<Rightarrow> string \<Rightarrow> goerror + VirtualMachineInstance"
  cli_ListByHostname :: "string \<Rightarrow> string \<Rightarrow> goerror + VirtualMachineInstance list"
  cli_GetNode :: "string \<Rightarrow> goerror + Node"

section \<open>Lookup strategies\<close>

type_synonym InstanceGetter = "infra_client \<Rightarrow> string \<Rightarrow> goerror + VirtualMachineInstance"

definition InstanceByVMIName :: "string \<Rightarrow> InstanceGetter" where
  "InstanceByVMIName i cli namespace =
     (case cli_GetVMI cli namespace i of Inl err \<Rightarrow> Inl err | Inr instance_ \<Rightarrow> Inr instance_)"

definition InstanceByVMIHostname :: "string \<Rightarrow> InstanceGetter" where
  "InstanceByVMIHostname hostname cli namespace =
     (case cli_ListByHostname cli namespace hostname of
        Inl err \<Rightarrow> Inl err
      | Inr instances \<Rightarrow>
          let instancesNum = int (length instances)
          in if instancesNum > 1
             then Inl (ErrText (''found '' @ itoa instancesNum @ '' virtual machine instances with the same '' @
                    [CHR 0x27] @ hostname @ [CHR 0x27] @ '' hostname''))
             else if instancesNum < 1
             then Inl (ErrText (''could not find a virtual machine instance with '' @
                    [CHR 0x27] @ hostname @ [CHR 0x27] @ '' hostname''))
             else Inr (hd instances))"

text \<open>
  \<^verbatim>\<open>findInstance\<close> tries the strategies in order; only a not-found error of the API server moves
  on to the next one.
\<close>

fun findInstance :: "infra_client \<Rightarrow> string \<Rightarrow> InstanceGetter list \<Rightarrow> goerror + VirtualMachineInstance" where
  "findInstance cli namespace [] = Inl InstanceNotFound"
| "findInstance cli namespace (f # fetchers) =
     (case f cli namespace of
        Inl err \<Rightarrow> if \<not> IsNotFound err then Inl err else findInstance cli namespace fetchers
      | Inr instance_ \<Rightarrow> Inr instance_)"

subsection \<open>The contract of a strategy\<close>

text \<open>
  A strategy puts one question to the API server and succeeds exactly when the answer is a single
  instance; an error of the server is handed on unchanged. \<open>asks\<close> is the question, with the answer
  as a list of candidates.
\<close>

locale instance_getter =
  fixes get :: InstanceGetter
    and asks :: "infra_client \<Rightarrow> string \<Rightarrow> goerror + VirtualMachineInstance list"
  assumes found_iff: "get cli ns = Inr v \<longleftrightarrow> asks cli ns = Inr [v]"
    and failed: "asks cli ns = Inl err \<Longrightarrow> get cli ns = Inl err"
begin

lemma error_cases:
  "get cli ns = Inl err \<Longrightarrow>
   asks cli ns = Inl err \<or> (\<exists>vs. asks cli ns = Inr vs \<and> length vs \<noteq> 1)"
proof (cases "asks cli ns")
  case (Inr vs)
  moreover assume "get cli ns = Inl err"
  ultimately have "vs \<noteq> [v]" for v using found_iff [of cli ns v] by auto
  with Inr show ?thesis by (cases vs) auto
qed (auto simp: failed)

lemma find_first:
  "asks cli ns = Inr [v] \<Longrightarrow> findInstance cli ns (get # gs) = Inr v"
  by (simp add: found_iff [symmetric])

lemma find_next:
  "asks cli ns = Inl err \<Longrightarrow> IsNotFound err \<Longrightarrow> findInstance cli ns (get # gs) = findInstance cli ns gs"
  by (simp add: failed)

lemma find_fails:
  "asks cli ns = Inl err \<Longrightarrow> \<not> IsNotFound err \<Longrightarrow> findInstance cli ns (get # gs) = Inl err"
  by (simp add: failed)

lemma find_only:
  "findInstance cli ns [get] = Inr v \<longleftrightarrow> asks cli ns = Inr [v]"
  by (simp add: found_iff [symmetric] split: sum.split)

end

definition ask_name :: "string \<Rightarrow> infra_client \<Rightarrow> string \<Rightarrow> goerror + VirtualMachineInstance list" where
  "ask_name i cli ns = (case cli_GetVMI cli ns i of Inl err \<Rightarrow> Inl err | Inr v \<Rightarrow> Inr [v])"

definition ask_hostname :: "string \<Rightarrow> infra_client \<Rightarrow> string \<Rightarrow> goerror + VirtualMachineInstance list" where
  "ask_hostname h cli ns = cli_ListByHostname cli ns h"

interpretation by_name: instance_getter "InstanceByVMIName i" "ask_name i" for i
  by unfold_locales (auto simp: InstanceByVMIName_def ask_name_def split: sum.splits)

interpretation by_hostname: instance_getter "InstanceByVMIHostname h" "ask_hostname h" for h
proof unfold_locales
  fix cli ns v
  show "InstanceByVMIHostname h cli ns = Inr v \<longleftrightarrow> ask_hostname h cli ns = Inr [v]"
  proof (cases "cli_ListByHostname cli ns h")
    case (Inr vs)
    then show ?thesis
      by (cases vs; cases "tl vs")
         (auto simp: InstanceByVMIHostname_def ask_hostname_def Let_def split: if_splits)
  qed (simp add: InstanceByVMIHostname_def ask_hostname_def)
qed (simp add: InstanceByVMIHostname_def ask_hostname_def)

section \<open>Provider identifiers\<close>

definition ProviderName :: string where
  "ProviderName = ''kubevirt''"

definition instanceIDLabelKey :: string where
  "instanceIDLabelKey = ''node.kubernetes.io/instance-id''"

definition getProviderID :: "string \<Rightarrow> string" where
  "getProviderID instanceID = ProviderName @ ''://'' @ instanceID"

text \<open>
  The regular expression \<^verbatim>\<open>^kubevirt://([0-9A-Za-z_-]+)$\<close>: the submatch, if the whole text
  matches.
\<close>

definition id_char :: "char \<Rightarrow> bool" where
  "id_char c \<longleftrightarrow> is_digit c \<or> (65 \<le> (of_char c :: nat) \<and> (of_char c :: nat) \<le> 90)
     \<or> (97 \<le> (of_char c :: nat) \<and> (of_char c :: nat) \<le> 122) \<or> c = CHR ''_'' \<or> c = CHR ''-''"

definition providerIDRegexp :: "string \<Rightarrow> string option" where
  "providerIDRegexp s =
     (let scheme = ProviderName @ ''://'';
          rest = drop (length scheme) s
      in if take (length scheme) s = scheme \<and> rest \<noteq> '''' \<and> list_all id_char rest then Some rest else None)"

definition instanceIDFromProviderID :: "string \<Rightarrow> goerror + string" where
  "instanceIDFromProviderID providerID =
     (case providerIDRegexp providerID of
        None \<Rightarrow> Inl (ErrText (''ProviderID '' @ [CHR 0x22] @ providerID @ [CHR 0x22] @
          '' didn'' @ [CHR 0x27] @ ''t match expected format '' @ [CHR 0x22] @ ProviderName @
          ''://<instance-id>'' @ [CHR 0x22]))
      | Some instanceID \<Rightarrow> Inr instanceID)"

section \<open>Node addresses\<close>

definition NodeInternalIP :: string where
  "NodeInternalIP = ''InternalIP''"

definition AddToNodeAddresses :: "NodeAddress list \<Rightarrow> NodeAddress \<Rightarrow> NodeAddress list" where
  "AddToNodeAddresses addresses add =
     (if list_ex (\<lambda>existing. addr_Address existing = addr_Address add \<and> addr_Type existing = addr_Type add) addresses
      then addresses else addresses @ [add])"

text \<open>
  The inner loop over the addresses of the default interface, with the two variables it updates.
\<close>

fun addUsableIPs :: "string list \<Rightarrow> NodeAddress list \<times> bool \<Rightarrow> NodeAddress list \<times> bool" where
  "addUsableIPs [] acc = acc"
| "addUsableIPs (ip # ips) (addrs, foundInternalIP) =
     (if \<not> isUsableNodeIP ip then addUsableIPs ips (addrs, foundInternalIP)
      else addUsableIPs ips
        (AddToNodeAddresses addrs \<lparr>addr_Type = NodeInternalIP, addr_Address = ip\<rparr>, True))"

text \<open>The outer loop: it ends at the first interface named \<^verbatim>\<open>default\<close>.\<close>

fun addDefaultInterface :: "NetworkInterface list \<Rightarrow> NodeAddress list \<times> bool \<Rightarrow> NodeAddress list \<times> bool" where
  "addDefaultInterface [] acc = acc"
| "addDefaultInterface (iface # ifs) acc =
     (if if_Name iface \<noteq> ''default'' then addDefaultInterface ifs acc
      else addUsableIPs (if_IPs iface) acc)"

fun addPrevious :: "NodeAddress list \<Rightarrow> NodeAddress list \<Rightarrow> NodeAddress list" where
  "addPrevious [] addrs = addrs"
| "addPrevious (prevAddr # prevAddrs) addrs =
     (if addr_Type prevAddr = NodeInternalIP \<and> isUsableNodeIP (addr_Address prevAddr)
      then addPrevious prevAddrs (AddToNodeAddresses addrs prevAddr)
      else addPrevious prevAddrs addrs)"

definition getNodeAddresses :: "NetworkInterface list \<Rightarrow> NodeAddress list \<Rightarrow> NodeAddress list" where
  "getNodeAddresses ifs prevAddrs =
     (case addDefaultInterface ifs ([], False) of
        (addrs, foundInternalIP) \<Rightarrow> if \<not> foundInternalIP then addPrevious prevAddrs addrs else addrs)"

section \<open>The operations\<close>

record instancesV2 =
  iv_namespace :: string
  iv_client :: infra_client
  iv_config :: "InstancesV2Config option"

record InstanceMetadata =
  md_ProviderID :: string
  md_InstanceType :: string
  md_NodeAddresses :: "NodeAddress list"
  md_Zone :: string
  md_Region :: string

text \<open>
  \<^verbatim>\<open>InstanceExists\<close> and \<^verbatim>\<open>InstanceShutdown\<close> return a flag and an error; the second returns
  both for an instance in the phase \<^verbatim>\<open>Unknown\<close>.
\<close>

definition InstanceExists :: "instancesV2 \<Rightarrow> Node \<Rightarrow> bool \<times> goerror option" where
  "InstanceExists i node =
     (case instanceIDFromProviderID (node_ProviderID node) of
        Inl err \<Rightarrow> (False, Some err)
      | Inr instanceID \<Rightarrow>
          (case InstanceByVMIName instanceID (iv_client i) (iv_namespace i) of
             Inl err \<Rightarrow> if IsNotFound err then (False, None) else (False, Some err)
           | Inr _ \<Rightarrow> (True, None)))"

definition InstanceShutdown :: "instancesV2 \<Rightarrow> Node \<Rightarrow> bool \<times> goerror option" where
  "InstanceShutdown i node =
     (case instanceIDFromProviderID (node_ProviderID node) of
        Inl err \<Rightarrow> (False, Some err)
      | Inr instanceID \<Rightarrow>
          (case InstanceByVMIName instanceID (iv_client i) (iv_namespace i) of
             Inl err \<Rightarrow> if IsNotFound err then (True, None) else (False, Some err)
           | Inr instance_ \<Rightarrow>
               if vmi_Phase instance_ = ''Succeeded'' \<or> vmi_Phase instance_ = ''Failed'' then (True, None)
               else if vmi_Phase instance_ = ''Unknown''
               then (True, Some (ErrText ''Instance is in unkown state (propably host down)''))
               else (False, None)))"

definition getRegionAndZone :: "instancesV2 \<Rightarrow> string \<Rightarrow> goerror + (string \<times> string)" where
  "getRegionAndZone i nodeName =
     (if (case iv_config i of None \<Rightarrow> False | Some config \<Rightarrow> \<not> ic_ZoneAndRegionEnabled config)
      then Inr ('''', '''')
      else (case cli_GetNode (iv_client i) nodeName of
              Inl err \<Rightarrow> Inl err
            | Inr node \<Rightarrow> Inr (mget (node_Labels node) ''topology.kubernetes.io/region'',
                               mget (node_Labels node) ''topology.kubernetes.io/zone'')))"

definition instanceGetters :: "Node \<Rightarrow> InstanceGetter list" where
  "instanceGetters node =
     (case node_Labels node instanceIDLabelKey of
        Some val \<Rightarrow> [InstanceByVMIName val]
      | None \<Rightarrow> [InstanceByVMIName (node_Name node), InstanceByVMIHostname (node_Name node)])"

definition InstanceMetadata_of :: "instancesV2 \<Rightarrow> Node \<Rightarrow> goerror + InstanceMetadata" where
  "InstanceMetadata_of i node =
     (case findInstance (iv_client i) (iv_namespace i) (instanceGetters node) of
        Inl err \<Rightarrow> Inl err
      | Inr instance_ \<Rightarrow>
          let addrs = getNodeAddresses (vmi_Interfaces instance_) (node_Addresses node);
              instanceType = mget (vmi_Annotations instance_) ''kubevirt.io/instancetype-name''
          in (case getRegionAndZone i (vmi_NodeName instance_) of
                Inl err \<Rightarrow> Inl err
              | Inr (region, zone) \<Rightarrow>
                  Inr \<lparr>md_ProviderID = getProviderID (vmi_Name instance_), md_InstanceType = instanceType,
                       md_NodeAddresses = addrs, md_Zone = zone, md_Region = region\<rparr>))"

section \<open>Lemmas\<close>

subsection \<open>Provider identifiers\<close>

lemma providerIDRegexp_iff:
  "providerIDRegexp p = Some i \<longleftrightarrow> p = getProviderID i \<and> i \<noteq> '''' \<and> list_all id_char i"
proof
  let ?scheme = "ProviderName @ ''://''"
  assume "providerIDRegexp p = Some i"
  then have "take (length ?scheme) p = ?scheme" "drop (length ?scheme) p = i" "i \<noteq> ''''" "list_all id_char i"
    unfolding providerIDRegexp_def Let_def by (auto split: if_splits)
  moreover from this have "p = ?scheme @ i" by (metis append_take_drop_id)
  ultimately show "p = getProviderID i \<and> i \<noteq> '''' \<and> list_all id_char i"
    by (simp add: getProviderID_def)
qed (simp add: providerIDRegexp_def getProviderID_def ProviderName_def Let_def)

lemma instanceID_cases:
  "instanceIDFromProviderID p = Inr i \<longleftrightarrow> providerIDRegexp p = Some i"
  "(\<exists>err. instanceIDFromProviderID p = Inl err) \<longleftrightarrow> providerIDRegexp p = None"
  by (auto simp: instanceIDFromProviderID_def split: option.split)

lemma getProviderID_inject [simp]: "getProviderID i = getProviderID j \<longleftrightarrow> i = j"
  by (simp add: getProviderID_def)

lemma providerIDRegexp_own:
  "providerIDRegexp (getProviderID i) = (if i \<noteq> '''' \<and> list_all id_char i then Some i else None)"
proof (cases "providerIDRegexp (getProviderID i)")
  case None
  then show ?thesis using providerIDRegexp_iff [of "getProviderID i" i] by auto
next
  case (Some j)
  then show ?thesis using providerIDRegexp_iff [of "getProviderID i" j] by auto
qed

subsection \<open>Addresses\<close>

text \<open>
  What the loops compute: the usable addresses of the default interface, the usable internal
  addresses known before, and the first occurrences in a list.
\<close>

fun default_IPs :: "NetworkInterface list \<Rightarrow> string list" where
  "default_IPs [] = []"
| "default_IPs (iface # ifs) = (if if_Name iface = ''default'' then if_IPs iface else default_IPs ifs)"

definition internal_IPs :: "NodeAddress list \<Rightarrow> string list" where
  "internal_IPs prev = map addr_Address (filter (\<lambda>a. addr_Type a = NodeInternalIP) prev)"

definition firsts :: "'a list \<Rightarrow> 'a list" where
  "firsts xs = rev (remdups (rev xs))"

abbreviation internal_addr :: "string \<Rightarrow> NodeAddress" where
  "internal_addr ip \<equiv> \<lparr>addr_Type = NodeInternalIP, addr_Address = ip\<rparr>"

lemma firsts_props [simp]: "distinct (firsts xs)" "set (firsts xs) = set xs" "firsts [] = []"
  by (simp_all add: firsts_def)

lemma firsts_snoc: "firsts (xs @ [x]) = (if x \<in> set xs then firsts xs else firsts xs @ [x])"
  by (simp add: firsts_def)

lemma firsts_distinct: "distinct xs \<Longrightarrow> firsts xs = xs"
  by (simp add: firsts_def distinct_remdups_id)

lemma AddToNodeAddresses_firsts:
  "AddToNodeAddresses (map internal_addr (firsts xs)) (internal_addr ip) = map internal_addr (firsts (xs @ [ip]))"
proof -
  have "list_ex (\<lambda>a. addr_Address a = ip \<and> addr_Type a = NodeInternalIP) (map internal_addr ys) \<longleftrightarrow> ip \<in> set ys" for ys
    by (auto simp: list_ex_iff)
  then show ?thesis by (simp add: AddToNodeAddresses_def firsts_snoc)
qed

lemma addUsableIPs_spec:
  "addUsableIPs ips (map internal_addr (firsts xs), b) =
     (map internal_addr (firsts (xs @ filter isUsableNodeIP ips)), b \<or> filter isUsableNodeIP ips \<noteq> [])"
proof (induction ips arbitrary: xs b)
  case (Cons ip ips)
  show ?case using Cons.IH [of "xs @ [ip]"] Cons.IH [of xs] by (simp add: AddToNodeAddresses_firsts)
qed simp

lemma addDefaultInterface_spec:
  "addDefaultInterface ifs ([], False) =
     (let us = filter isUsableNodeIP (default_IPs ifs) in (map internal_addr (firsts us), us \<noteq> []))"
  using addUsableIPs_spec [of _ "[]" False] by (induction ifs) (simp_all add: Let_def)

lemma addPrevious_spec:
  "addPrevious prev (map internal_addr (firsts xs)) =
     map internal_addr (firsts (xs @ filter isUsableNodeIP (internal_IPs prev)))"
proof (induction prev arbitrary: xs)
  case (Cons a prev)
  show ?case
    using Cons.IH [of "xs @ [addr_Address a]"] Cons.IH [of xs]
      AddToNodeAddresses_firsts [of xs "addr_Address a"]
    by (cases a) (auto simp: internal_IPs_def)
qed (simp add: internal_IPs_def)

lemma getNodeAddresses_spec:
  "getNodeAddresses ifs prev =
     (let us = filter isUsableNodeIP (default_IPs ifs)
      in map internal_addr (firsts (if us \<noteq> [] then us else filter isUsableNodeIP (internal_IPs prev))))"
  using addPrevious_spec [of prev "[]"] by (simp add: getNodeAddresses_def addDefaultInterface_spec Let_def)

lemma internal_IPs_map [simp]: "internal_IPs (map internal_addr ips) = ips"
  by (simp add: internal_IPs_def comp_def filter_map)

lemma usable_firsts: "\<forall>x\<in>set xs. isUsableNodeIP x \<Longrightarrow> filter isUsableNodeIP (firsts xs) = firsts xs"
  by simp

subsection \<open>Lookup\<close>

lemma find_table:
  "findInstance cli ns (instanceGetters node) = Inr v \<Longrightarrow>
   (case node_Labels node instanceIDLabelKey of
      Some n \<Rightarrow> cli_GetVMI cli ns n = Inr v
    | None \<Rightarrow> cli_GetVMI cli ns (node_Name node) = Inr v \<or>
        (\<exists>err. cli_GetVMI cli ns (node_Name node) = Inl err \<and> IsNotFound err) \<and>
        cli_ListByHostname cli ns (node_Name node) = Inr [v])"
  using by_hostname.found_iff [of "node_Name node" cli ns v]
  by (auto simp: instanceGetters_def InstanceByVMIName_def ask_hostname_def
      split: option.splits sum.splits if_splits)

lemma metadata_found:
  assumes "InstanceMetadata_of i node = Inr m"
  obtains v where "findInstance (iv_client i) (iv_namespace i) (instanceGetters node) = Inr v"
    "md_ProviderID m = getProviderID (vmi_Name v)"
    "md_NodeAddresses m = getNodeAddresses (vmi_Interfaces v) (node_Addresses node)"
  using assms by (auto simp: InstanceMetadata_of_def Let_def split: sum.splits)

lemma exists_by_name:
  assumes "node_ProviderID node = getProviderID n" "cli_GetVMI (iv_client i) (iv_namespace i) n = Inr v"
  shows "if n \<noteq> '''' \<and> list_all id_char n then InstanceExists i node = (True, None)
         else \<exists>err. InstanceExists i node = (False, Some err)"
  using assms by (simp add: InstanceExists_def InstanceByVMIName_def instanceIDFromProviderID_def providerIDRegexp_own)

section \<open>A concrete infra cluster\<close>

text \<open>
  Two machines in the namespace \<^verbatim>\<open>tenant\<close>, one of them with a dotted name, and their host.
\<close>

definition demo_vmi :: "string \<Rightarrow> VirtualMachineInstance" where
  "demo_vmi n = \<lparr>vmi_Name = n, vmi_Annotations = [''kubevirt.io/instancetype-name'' \<mapsto> ''u1.medium''],
     vmi_Phase = ''Running'', vmi_NodeName = ''host-1'',
     vmi_Interfaces = [\<lparr>if_Name = ''default'', if_IP = ''10.0.0.5'', if_IPs = [''127.0.0.1'', ''10.0.0.5'', ''10.0.0.5'']\<rparr>]\<rparr>"

definition demo_cli :: infra_client where
  "demo_cli =
     \<lparr>cli_GetVMI = (\<lambda>ns n. if ns = ''tenant'' \<and> (n = ''worker-1'' \<or> n = ''worker.2'') then Inr (demo_vmi n)
        else Inl (KubeError ReasonNotFound ''not found'')),
      cli_ListByHostname = (\<lambda>ns h. if ns = ''tenant'' \<and> h = ''node-2'' then Inr [demo_vmi ''worker.2''] else Inr []),
      cli_GetNode = (\<lambda>n. Inr \<lparr>node_Name = n, node_Labels = [''topology.kubernetes.io/zone'' \<mapsto> ''az1''],
        node_ProviderID = '''', node_Addresses = []\<rparr>)\<rparr>"

definition demo_instances :: instancesV2 where
  "demo_instances = \<lparr>iv_namespace = ''tenant'', iv_client = demo_cli, iv_config = None\<rparr>"

definition tenant_node :: "string \<Rightarrow> string \<Rightarrow> Node" where
  "tenant_node n p = \<lparr>node_Name = n, node_Labels = Map.empty, node_ProviderID = p, node_Addresses = []\<rparr>"

lemma vmi_ip_usable: "\<not> isUsableNodeIP ''127.0.0.1''" "isUsableNodeIP ''10.0.0.5''"
  by code_simp+

lemma demo_addresses: "getNodeAddresses (vmi_Interfaces (demo_vmi n)) [] = [internal_addr ''10.0.0.5'']"
  by (simp add: getNodeAddresses_spec demo_vmi_def vmi_ip_usable firsts_def)

lemma demo_metadata:
  "InstanceMetadata_of demo_instances (tenant_node ''worker-1'' p) = Inr
     \<lparr>md_ProviderID = ''kubevirt://worker-1'', md_InstanceType = ''u1.medium'',
      md_NodeAddresses = [internal_addr ''10.0.0.5''], md_Zone = ''az1'', md_Region = ''''\<rparr>"
  "InstanceMetadata_of demo_instances (tenant_node ''node-2'' p) = Inr
     \<lparr>md_ProviderID = ''kubevirt://worker.2'', md_InstanceType = ''u1.medium'',
      md_NodeAddresses = [internal_addr ''10.0.0.5''], md_Zone = ''az1'', md_Region = ''''\<rparr>"
  by (simp_all add: InstanceMetadata_of_def demo_instances_def tenant_node_def instanceGetters_def
      InstanceByVMIName_def InstanceByVMIHostname_def demo_cli_def demo_addresses Let_def IsNotFound_def
      getRegionAndZone_def getProviderID_def ProviderName_def mget_def)
     (simp_all add: demo_vmi_def)

text \<open>The demo server answers a get by name with the object it returns elsewhere.\<close>

lemma demo_server:
  "cli_GetVMI (iv_client demo_instances) (iv_namespace demo_instances) n = Inr v \<Longrightarrow>
   cli_GetVMI (iv_client demo_instances) (iv_namespace demo_instances) (vmi_Name v) = Inr v"
  "cli_ListByHostname (iv_client demo_instances) (iv_namespace demo_instances) h = Inr vs \<Longrightarrow> v \<in> set vs \<Longrightarrow>
   cli_GetVMI (iv_client demo_instances) (iv_namespace demo_instances) (vmi_Name v) = Inr v"
  by (auto simp: demo_instances_def demo_cli_def demo_vmi_def split: if_splits)

section \<open>Properties\<close>

text \<open>
  Provider identifiers: \<^verbatim>\<open>instanceIDFromProviderID\<close> accepts exactly what \<^verbatim>\<open>getProviderID\<close>
  builds from a non-empty identifier of letters, digits, \<^verbatim>\<open>_\<close> and \<^verbatim>\<open>-\<close>, and gives that
  identifier back; from any other identifier, a machine name with a dot among them,
  \<^verbatim>\<open>getProviderID\<close> builds a text it refuses.
\<close>

lemma provider_id_exact:
  "(instanceIDFromProviderID p = Inr i \<longleftrightarrow> p = getProviderID i \<and> i \<noteq> '''' \<and> list_all id_char i) \<and>
   ((\<exists>err. instanceIDFromProviderID (getProviderID j) = Inl err) \<longleftrightarrow> j = '''' \<or> (\<exists>c\<in>set j. \<not> id_char c))"
  unfolding instanceID_cases providerIDRegexp_iff providerIDRegexp_own by (auto simp: list_all_iff)

text \<open>
  C33. The addresses of a node: distinct internal addresses, all usable. They are the usable
  addresses of the first interface named \<^verbatim>\<open>default\<close>, in the reported order with repetitions
  dropped; only if there is none, the usable internal addresses the node had before.
\<close>

theorem node_addresses_correct:
  "let addrs = getNodeAddresses ifs prev;
       reported = filter isUsableNodeIP (default_IPs ifs);
       known = filter isUsableNodeIP (internal_IPs prev)
   in distinct addrs \<and>
      list_all (\<lambda>a. addr_Type a = NodeInternalIP \<and> isUsableNodeIP (addr_Address a)) addrs \<and>
      map addr_Address addrs = firsts (if reported \<noteq> [] then reported else known)"
  by (auto simp: getNodeAddresses_spec Let_def list_all_iff comp_def distinct_map inj_on_def)

text \<open>
  A machine that stops reporting keeps its addresses: once the addresses of a round are stored
  on the node, every later round in which the default interface reports no usable address returns
  the same addresses in the same order.
\<close>

lemma node_addresses_stable:
  assumes "filter isUsableNodeIP (default_IPs ifs') = []"
  shows "getNodeAddresses ifs' (getNodeAddresses ifs prev) = getNodeAddresses ifs prev"
proof -
  obtain xs where xs: "getNodeAddresses ifs prev = map internal_addr (firsts xs)" "\<forall>x\<in>set xs. isUsableNodeIP x"
    by (rule that [of "if filter isUsableNodeIP (default_IPs ifs) \<noteq> [] then filter isUsableNodeIP (default_IPs ifs)
          else filter isUsableNodeIP (internal_IPs prev)"]) (simp_all add: getNodeAddresses_spec Let_def)
  then show ?thesis
    using assms by (simp add: getNodeAddresses_spec [of ifs'] usable_firsts firsts_distinct)
qed

text \<open>
  Whose metadata a node gets: the instance the label names, if the node has the label; else the
  instance with the name of the node; and only if the API server knows none of that name, the one
  instance whose host name is the name of the node, when there is exactly one.
\<close>

lemma metadata_identity:
  assumes "InstanceMetadata_of i node = Inr m"
  shows "\<exists>v. md_ProviderID m = getProviderID (vmi_Name v) \<and>
     md_NodeAddresses m = getNodeAddresses (vmi_Interfaces v) (node_Addresses node) \<and>
     (case node_Labels node instanceIDLabelKey of
        Some n \<Rightarrow> cli_GetVMI (iv_client i) (iv_namespace i) n = Inr v
      | None \<Rightarrow> cli_GetVMI (iv_client i) (iv_namespace i) (node_Name node) = Inr v \<or>
          (\<exists>err. cli_GetVMI (iv_client i) (iv_namespace i) (node_Name node) = Inl err \<and> IsNotFound err) \<and>
          cli_ListByHostname (iv_client i) (iv_namespace i) (node_Name node) = Inr [v])"
  using assms by (elim metadata_found) (drule find_table, blast)

text \<open>
  C32. From metadata to existence: on an API server that answers a get by name with the object it
  also returns elsewhere, the provider identifier that \<^verbatim>\<open>InstanceMetadata\<close> gave out makes
  \<^verbatim>\<open>InstanceExists\<close> answer true; unless the name of the instance has a character outside letters,
  digits, \<^verbatim>\<open>_\<close> and \<^verbatim>\<open>-\<close>, when it fails with an error though the instance exists.
\<close>

theorem metadata_then_exists:
  assumes "InstanceMetadata_of i node = Inr m" and "node_ProviderID node' = md_ProviderID m"
    and get: "\<And>n v. cli_GetVMI (iv_client i) (iv_namespace i) n = Inr v \<Longrightarrow>
                  cli_GetVMI (iv_client i) (iv_namespace i) (vmi_Name v) = Inr v"
    and list: "\<And>h vs v. cli_ListByHostname (iv_client i) (iv_namespace i) h = Inr vs \<Longrightarrow> v \<in> set vs \<Longrightarrow>
                  cli_GetVMI (iv_client i) (iv_namespace i) (vmi_Name v) = Inr v"
  shows "\<exists>n. md_ProviderID m = getProviderID n \<and>
     (if n \<noteq> '''' \<and> list_all id_char n then InstanceExists i node' = (True, None)
      else \<exists>err. InstanceExists i node' = (False, Some err))"
proof -
  obtain v where v: "findInstance (iv_client i) (iv_namespace i) (instanceGetters node) = Inr v"
    "md_ProviderID m = getProviderID (vmi_Name v)" using assms(1) by (rule metadata_found)
  have "cli_GetVMI (iv_client i) (iv_namespace i) (vmi_Name v) = Inr v"
    using find_table [OF v(1)] get list by (auto split: option.splits)
  then show ?thesis using exists_by_name [of node' "vmi_Name v" i v] assms(2) v(2) by auto
qed

theorem metadata_then_exists_witness:
  "InstanceExists demo_instances (tenant_node ''worker-1'' ''kubevirt://worker-1'') = (True, None) \<and>
   (\<exists>err. InstanceExists demo_instances (tenant_node ''node-2'' ''kubevirt://worker.2'') = (False, Some err))"
proof -
  have names: "''kubevirt://'' @ n = getProviderID n" for n by (simp add: getProviderID_def ProviderName_def)
  have "list_all id_char ''worker-1''" "\<not> list_all id_char ''worker.2''" by code_simp+
  with metadata_then_exists [OF demo_metadata(1) [of "''''"], of "tenant_node ''worker-1'' ''kubevirt://worker-1''"]
    metadata_then_exists [OF demo_metadata(2) [of "''''"], of "tenant_node ''node-2'' ''kubevirt://worker.2''"] demo_server
    names [of "''worker-1''"] names [of "''worker.2''"]
  show ?thesis by (auto simp: tenant_node_def)
qed

text \<open>
  Existence and shutdown agree: an instance that does not exist counts as shut down, one
  reported as running exists; a machine is reported as shut down without an error exactly if the
  server does not know it or it ended (\<^verbatim>\<open>Succeeded\<close> or \<^verbatim>\<open>Failed\<close>).
\<close>

lemma exists_shutdown_agree:
  "(InstanceExists i node = (False, None) \<longrightarrow> InstanceShutdown i node = (True, None)) \<and>
   (InstanceShutdown i node = (False, None) \<longrightarrow> InstanceExists i node = (True, None)) \<and>
   (InstanceShutdown i node = (True, None) \<longleftrightarrow>
      (\<exists>n. instanceIDFromProviderID (node_ProviderID node) = Inr n \<and>
        (case cli_GetVMI (iv_client i) (iv_namespace i) n of
           Inl err \<Rightarrow> IsNotFound err
         | Inr v \<Rightarrow> vmi_Phase v \<in> {''Succeeded'', ''Failed''})))"
  by (auto simp: InstanceExists_def InstanceShutdown_def InstanceByVMIName_def split: sum.splits if_splits)

text \<open>
  C34. A node whose machine is gone: when the API server answers not found for the one name that is
  looked up (the value of the instance label, or else the node's name) and, for a node without the
  label, lists no machine with the node's name as host name, \<^verbatim>\<open>InstanceMetadata\<close> fails with \<^verbatim>\<open>cloudprovider.InstanceNotFound\<close> exactly
  if the node carries the instance label; otherwise it fails with the text of the host name lookup.
\<close>

theorem absent_instance_error:
  assumes "cli_GetVMI (iv_client i) (iv_namespace i) (case node_Labels node instanceIDLabelKey of Some val \<Rightarrow> val | None \<Rightarrow> node_Name node) = Inl err"
      "IsNotFound err"
    and "node_Labels node instanceIDLabelKey = None \<Longrightarrow> cli_ListByHostname (iv_client i) (iv_namespace i) (node_Name node) = Inr []"
  shows "InstanceMetadata_of i node = Inl (if node_Labels node instanceIDLabelKey \<noteq> None then InstanceNotFound
     else ErrText (''could not find a virtual machine instance with '' @ [CHR 0x27] @ node_Name node @ [CHR 0x27] @ '' hostname''))"
proof (cases "node_Labels node instanceIDLabelKey")
  case None
  with assms(1) have "ask_name (node_Name node) (iv_client i) (iv_namespace i) = Inl err" by (simp add: ask_name_def)
  from by_name.find_next [OF this assms(2)] assms(3) None show ?thesis
    by (simp add: InstanceMetadata_of_def instanceGetters_def InstanceByVMIHostname_def IsNotFound_def del: findInstance.simps(2))
       (simp add: InstanceByVMIHostname_def IsNotFound_def)
next
  case (Some val)
  with assms(1) have "ask_name val (iv_client i) (iv_namespace i) = Inl err" by (simp add: ask_name_def)
  from by_name.find_next [OF this assms(2)] Some show ?thesis
    by (simp add: InstanceMetadata_of_def instanceGetters_def del: findInstance.simps(2))
qed

theorem absent_instance_error_witness:
  "InstanceMetadata_of demo_instances (tenant_node ''worker-9'' '''') =
     Inl (ErrText (''could not find a virtual machine instance with '' @ [CHR 0x27] @ ''worker-9'' @ [CHR 0x27] @ '' hostname'')) \<and>
   InstanceMetadata_of demo_instances ((tenant_node ''node-2'' '''')\<lparr>node_Labels := [instanceIDLabelKey \<mapsto> ''worker-9'']\<rparr>) =
     Inl InstanceNotFound"
  using absent_instance_error [of demo_instances "tenant_node ''worker-9'' ''''"]
    absent_instance_error [of demo_instances "(tenant_node ''node-2'' '''')\<lparr>node_Labels := [instanceIDLabelKey \<mapsto> ''worker-9'']\<rparr>"]
  by (simp add: demo_instances_def demo_cli_def tenant_node_def IsNotFound_def)

end
