(* ===== verification/Rpc_Dial.thy ===== *)
theory Rpc_Dial
  imports Rpc_Client Net_IP
begin

text \<open>
  How the client of \<^verbatim>\<open>pkg/rpc/loadbalancer/client.go\<close> is made: \<^verbatim>\<open>normalizeServerAddr\<close>, which
  turns the configured address into a target for gRPC, and \<^verbatim>\<open>NewClient\<close>. The first rests on
  \<^verbatim>\<open>strings.TrimSpace\<close>, \<^verbatim>\<open>url.Parse\<close> and \<^verbatim>\<open>net.JoinHostPort\<close> of the Go 1.24 standard
  library, modelled here as far as the result depends on them: of a parsed URL the scheme and the
  host part. \<^verbatim>\<open>grpc.DialContext\<close> is a parameter.
\<close>

section \<open>Strings\<close>

definition HasPrefix :: "string \<Rightarrow> string \<Rightarrow> bool" where
  "HasPrefix s p \<longleftrightarrow> take (length p) s = p"

fun Index :: "string \<Rightarrow> string \<Rightarrow> nat option" where
  "Index [] sub = (if sub = [] then Some 0 else None)"
| "Index (c # cs) sub = (if HasPrefix (c # cs) sub then Some 0 else map_option Suc (Index cs sub))"

text \<open>\<^verbatim>\<open>strings.Cut\<close> at a single byte, and the split at its last occurrence.\<close>

definition Cut :: "string \<Rightarrow> char \<Rightarrow> string \<times> string" where
  "Cut s c = (takeWhile ((\<noteq>) c) s, drop 1 (dropWhile ((\<noteq>) c) s))"

definition last_cut :: "string \<Rightarrow> char \<Rightarrow> (string \<times> string) option" where
  "last_cut s c =
     (if c \<in> set s
      then Some (rev (drop 1 (dropWhile ((\<noteq>) c) (rev s))), rev (takeWhile ((\<noteq>) c) (rev s)))
      else None)"

text \<open>
  \<^verbatim>\<open>strings.TrimSpace\<close>: the code points of \<^verbatim>\<open>unicode.IsSpace\<close> in UTF-8.
\<close>

definition space_codes :: "string list" where
  "space_codes =
     map (\<lambda>n. [char_of n]) [9, 10, 11, 12, 13, 32 :: nat] @
     [[CHR 0xC2, CHR 0x85], [CHR 0xC2, CHR 0xA0], [CHR 0xE1, CHR 0x9A, CHR 0x80]] @
     map (\<lambda>n. [CHR 0xE2, CHR 0x80, char_of n])
       [0x80, 0x81, 0x82, 0x83, 0x84, 0x85, 0x86, 0x87, 0x88, 0x89, 0x8A, 0xA8, 0xA9, 0xAF :: nat] @
     [[CHR 0xE2, CHR 0x81, CHR 0x9F], [CHR 0xE3, CHR 0x80, CHR 0x80]]"

fun trim_left :: "string list \<Rightarrow> string \<Rightarrow> string" where
  "trim_left codes [] = []"
| "trim_left codes (c # cs) =
     (case List.find (\<lambda>p. p \<noteq> [] \<and> HasPrefix (c # cs) p) codes of
        None \<Rightarrow> c # cs
      | Some p \<Rightarrow> trim_left codes (drop (length p - 1) cs))"

definition TrimSpace :: "string \<Rightarrow> string" where
  "TrimSpace s = rev (trim_left (map rev space_codes) (rev (trim_left space_codes s)))"

definition is_alpha :: "char \<Rightarrow> bool" where
  "is_alpha c \<longleftrightarrow> 65 \<le> (of_char c :: nat) \<and> (of_char c :: nat) \<le> 90
     \<or> 97 \<le> (of_char c :: nat) \<and> (of_char c :: nat) \<le> 122"

section \<open>URLs\<close>

text \<open>\<^verbatim>\<open>getScheme\<close>: scheme and rest; \<^term>\<open>None\<close> for a leading colon. \<open>pre\<close> is what was read.\<close>

fun getScheme :: "string \<Rightarrow> string \<Rightarrow> (string \<times> string) option" where
  "getScheme pre [] = Some ('''', pre)"
| "getScheme pre (c # cs) =
     (if is_alpha c then getScheme (pre @ [c]) cs
      else if is_digit c \<or> c \<in> {CHR ''+'', CHR ''-'', CHR ''.''}
      then (if pre = [] then Some ('''', pre @ c # cs) else getScheme (pre @ [c]) cs)
      else if c = CHR '':'' then (if pre = [] then None else Some (pre, cs))
      else Some ('''', pre @ c # cs))"

text \<open>
  \<^verbatim>\<open>unescape\<close> in the two modes for hosts and in the modes for the other parts, which only ask
  for well-formed escapes. \<open>host_char\<close> is the complement of \<^verbatim>\<open>shouldEscape\<close> for hosts.
\<close>

datatype encoding = encodeHost | encodeZone | encodeOther

definition host_char :: "char \<Rightarrow> bool" where
  "host_char c \<longleftrightarrow> is_alpha c \<or> is_digit c \<or> c \<in> set ''!$&()*+,;=:[]<>-_.~'' \<or> c = CHR 0x27 \<or> c = CHR 0x22"

definition escape_ok :: "encoding \<Rightarrow> char \<Rightarrow> char \<Rightarrow> bool" where
  "escape_ok mode a b \<longleftrightarrow> is_hex a \<and> is_hex b \<and>
     (case mode of
        encodeHost \<Rightarrow> \<not> hex_digit_val a < 8 \<or> [a, b] = ''25''
      | encodeZone \<Rightarrow> (let v = 16 * hex_digit_val a + hex_digit_val b
                       in [a, b] = ''25'' \<or> v = 32 \<or> host_char (char_of v))
      | encodeOther \<Rightarrow> True)"

fun unescape :: "encoding \<Rightarrow> string \<Rightarrow> string option" where
  "unescape mode [] = Some []"
| "unescape mode (c # cs) =
     (if c = CHR ''%'' then
        (if length cs \<ge> 2 \<and> escape_ok mode (cs ! 0) (cs ! 1)
         then map_option ((#) (char_of (16 * hex_digit_val (cs ! 0) + hex_digit_val (cs ! 1)))) (unescape mode (drop 2 cs))
         else None)
      else if mode \<noteq> encodeOther \<and> (of_char c :: nat) < 0x80 \<and> \<not> host_char c then None
      else map_option ((#) c) (unescape mode cs))"

definition validOptionalPort :: "string \<Rightarrow> bool" where
  "validOptionalPort port \<longleftrightarrow> port = '''' \<or> hd port = CHR '':'' \<and> list_all is_digit (tl port)"

definition parseHost :: "string \<Rightarrow> string option" where
  "parseHost host =
     (if HasPrefix host ''['' then
        (case last_cut host (CHR '']'') of
           None \<Rightarrow> None
         | Some (upto_bracket, colonPort) \<Rightarrow>
             if \<not> validOptionalPort colonPort then None
             else (case Index upto_bracket ''%25'' of
                     None \<Rightarrow> unescape encodeHost host
                   | Some zone \<Rightarrow>
                       (case (unescape encodeHost (take zone upto_bracket), unescape encodeZone (drop zone upto_bracket),
                              unescape encodeHost ('']'' @ colonPort)) of
                          (Some host1, Some host2, Some host3) \<Rightarrow> Some (host1 @ host2 @ host3)
                        | _ \<Rightarrow> None)))
      else (case last_cut host (CHR '':'') of
              None \<Rightarrow> unescape encodeHost host
            | Some (_, port) \<Rightarrow>
                if \<not> validOptionalPort ('':'' @ port) then None else unescape encodeHost host))"

definition validUserinfo :: "string \<Rightarrow> bool" where
  "validUserinfo s = list_all (\<lambda>c. is_alpha c \<or> is_digit c \<or> c \<in> set ''-._:~!$&()*+,;=%@'' \<or> c = CHR 0x27) s"

definition parseAuthority :: "string \<Rightarrow> string option" where
  "parseAuthority authority =
     (case last_cut authority (CHR ''@'') of
        None \<Rightarrow> parseHost authority
      | Some (userinfo, host) \<Rightarrow>
          if parseHost host = None then None
          else if \<not> validUserinfo userinfo then None
          else (case Cut userinfo (CHR '':'') of (username, password) \<Rightarrow>
                  if unescape encodeOther username = None \<or> unescape encodeOther password = None then None
                  else parseHost host))"

text \<open>The scheme and the host part of a parsed URL.\<close>

definition parse_url :: "string \<Rightarrow> (string \<times> string) option" where
  "parse_url rawURL =
     (if list_ex (\<lambda>c. (of_char c :: nat) < 32 \<or> (of_char c :: nat) = 0x7F) rawURL then None
      else if rawURL = ''*'' then Some ('''', '''')
      else (case getScheme [] rawURL of
              None \<Rightarrow> None
            | Some (scheme0, rest0) \<Rightarrow>
                let scheme = to_lower scheme0; rest = fst (Cut rest0 (CHR ''?''))
                in if \<not> HasPrefix rest ''/'' \<and> scheme \<noteq> '''' then Some (scheme, '''')
                   else if \<not> HasPrefix rest ''/'' \<and> CHR '':'' \<in> set (fst (Cut rest (CHR ''/''))) then None
                   else if (scheme \<noteq> '''' \<or> \<not> HasPrefix rest ''///'') \<and> HasPrefix rest ''//'' then
                     let authority = takeWhile ((\<noteq>) (CHR ''/'')) (drop 2 rest);
                         path = dropWhile ((\<noteq>) (CHR ''/'')) (drop 2 rest)
                     in (case parseAuthority authority of
                           None \<Rightarrow> None
                         | Some host \<Rightarrow> if unescape encodeOther path = None then None else Some (scheme, host))
                   else if unescape encodeOther rest = None then None
                   else Some (scheme, '''')))"

definition url_Parse :: "string \<Rightarrow> (string \<times> string) option" where
  "url_Parse rawURL =
     (case Cut rawURL (CHR ''#'') of (u, frag) \<Rightarrow>
        (case parse_url u of
           None \<Rightarrow> None
         | Some r \<Rightarrow> if frag \<noteq> '''' \<and> unescape encodeOther frag = None then None else Some r))"

definition splitHostPort :: "string \<Rightarrow> string \<times> string" where
  "splitHostPort hostPort =
     (let (host, port) =
            (case last_cut hostPort (CHR '':'') of
               None \<Rightarrow> (hostPort, '''')
             | Some (h, p) \<Rightarrow> if validOptionalPort ('':'' @ p) then (h, p) else (hostPort, ''''))
      in if HasPrefix host ''['' \<and> last host = CHR '']'' then (butlast (tl host), port) else (host, port))"

definition JoinHostPort :: "string \<Rightarrow> string \<Rightarrow> string" where
  "JoinHostPort host port =
     (if CHR '':'' \<in> set host then ''['' @ host @ '']:'' @ port else host @ '':'' @ port)"

section \<open>The server address\<close>

text \<open>The four errors, each with the address its text quotes.\<close>

datatype addr_error = EmptyAddress | InvalidURL string | TLSNotSupported string | NoHost string

definition normalizeServerAddr :: "string \<Rightarrow> addr_error + string" where
  "normalizeServerAddr addr0 =
     (let addr = TrimSpace addr0
      in if addr = '''' then Inl EmptyAddress
         else if Index addr ''://'' = None then Inr addr
         else (case url_Parse addr of
                 None \<Rightarrow> Inl (InvalidURL addr)
               | Some (scheme, hostPort) \<Rightarrow>
                   if scheme = ''https'' then Inl (TLSNotSupported addr)
                   else if scheme \<noteq> ''http'' then Inr addr
                   else (case splitHostPort hostPort of (host, port) \<Rightarrow>
                           if host = '''' then Inl (NoHost addr)
                           else Inr (JoinHostPort host (if port = '''' then ''80'' else port)))))"

datatype dial_error = BadAddress addr_error | DialFailed goerror

text \<open>\<open>dial\<close> is the outcome of \<^verbatim>\<open>grpc.DialContext\<close> for a target and the dial options.\<close>

definition NewClient :: "(string \<Rightarrow> string list option \<Rightarrow> goerror option) \<Rightarrow> Config \<Rightarrow> dial_error + Client" where
  "NewClient dial config0 =
     (let config = NewClient_config config0
      in case normalizeServerAddr (cfg_ServerAddr config) of
           Inl err \<Rightarrow> Inl (BadAddress err)
         | Inr target \<Rightarrow>
             (case dial target (cfg_DialOpts config) of
                Some err \<Rightarrow> Inl (DialFailed (ErrWrap ''failed to dial RPC server: '' err))
              | None \<Rightarrow> Inr \<lparr>cl_conn = True, cl_config = config\<rparr>))"

text \<open>
  The API key credentials are sent over plain connections too. \<open>closed\<close> is what closing the
  connection returns.
\<close>

definition RequireTransportSecurity :: bool where
  "RequireTransportSecurity = False"

definition Client_Close :: "goerror option \<Rightarrow> Client \<Rightarrow> goerror option" where
  "Client_Close closed c = (if cl_conn c then closed else None)"

section \<open>Lemmas\<close>

subsection \<open>Strings\<close>

lemma HasPrefix_set: "HasPrefix s p \<Longrightarrow> set p \<subseteq> set s"
  unfolding HasPrefix_def by (metis set_take_subset)

lemma Index_None: "c \<in> set sub \<Longrightarrow> c \<notin> set s \<Longrightarrow> Index s sub = None"
proof (induction s)
  case (Cons a s)
  then show ?case using HasPrefix_set [of "a # s" sub] by auto
qed auto

lemma Cut_absent [simp]: "c \<notin> set s \<Longrightarrow> Cut s c = (s, [])"
proof -
  assume "c \<notin> set s"
  then have "takeWhile ((\<noteq>) c) s = s" "dropWhile ((\<noteq>) c) s = []"
    by (auto simp: takeWhile_eq_all_conv dropWhile_eq_Nil_conv)
  then show ?thesis by (simp only: Cut_def) simp
qed

lemma span_sep:
  "c \<notin> set a \<Longrightarrow> b = [] \<or> hd b = c \<Longrightarrow> takeWhile ((\<noteq>) c) (a @ b) = a \<and> dropWhile ((\<noteq>) c) (a @ b) = b"
proof (induction a)
  case Nil
  then show ?case by (cases b) auto
qed auto

lemma last_cut_absent [simp]: "c \<notin> set s \<Longrightarrow> last_cut s c = None"
  by (simp add: last_cut_def)

lemma last_cut_sep [simp]:
  assumes "c \<notin> set b"
  shows "last_cut (a @ c # b) c = Some (a, b)"
proof -
  from assms show ?thesis using span_sep [of c "rev b" "c # rev a"] assms by (simp add: last_cut_def)
qed

subsection \<open>Trimming\<close>

abbreviation graphic :: "char \<Rightarrow> bool" where
  "graphic c \<equiv> 32 < (of_char c :: nat) \<and> (of_char c :: nat) < 127"

lemma trim_left_id:
  assumes "\<forall>p\<in>set codes. hd p \<noteq> c"
  shows "trim_left codes (c # cs) = c # cs"
proof -
  have "List.find (\<lambda>p. p \<noteq> [] \<and> HasPrefix (c # cs) p) codes = None"
    using assms by (auto simp: find_None_iff HasPrefix_def neq_Nil_conv)
  then show ?thesis by simp
qed

lemma space_codes_ends: "list_all (\<lambda>p. \<not> graphic (hd p) \<and> \<not> graphic (hd (rev p))) space_codes"
  by (simp add: space_codes_def)

lemma TrimSpace_id:
  assumes "s \<noteq> []" "graphic (hd s)" "graphic (last s)"
  shows "TrimSpace s = s"
proof -
  have "trim_left space_codes s = s"
    using assms(1,2) space_codes_ends
    by (cases s) (auto intro!: trim_left_id simp: list_all_iff simp del: trim_left.simps)
  moreover have "trim_left (map rev space_codes) (last s # rev (butlast s)) = last s # rev (butlast s)"
    using assms(3) space_codes_ends by (intro trim_left_id) (auto simp: list_all_iff)
  moreover have "rev s = last s # rev (butlast s)"
    using append_butlast_last_id [OF assms(1)] by (metis rev.simps(2) rev_rev_ident rev_swap)
  ultimately show ?thesis unfolding TrimSpace_def by (metis rev_rev_ident)
qed

subsection \<open>URLs with a plain host\<close>

text \<open>The characters of host names and dotted addresses.\<close>

definition name_char :: "char \<Rightarrow> bool" where
  "name_char c \<longleftrightarrow> is_alpha c \<or> is_digit c \<or> c = CHR ''.'' \<or> c = CHR ''-''"

lemma name_char_not [simp]:
  "\<not> name_char (CHR '':'')" "\<not> name_char (CHR ''/'')" "\<not> name_char (CHR ''?'')" "\<not> name_char (CHR ''#'')"
  "\<not> name_char (CHR ''@'')" "\<not> name_char (CHR ''%'')" "\<not> name_char (CHR ''['')"
  by (simp_all add: name_char_def is_alpha_def is_digit_def)

lemma name_char_graphic: "name_char c \<Longrightarrow> graphic c"
  by (auto simp: name_char_def is_alpha_def is_digit_def)

lemma name_char_host: "name_char c \<or> c = CHR '':'' \<Longrightarrow> host_char c"
  by (auto simp: name_char_def host_char_def)

lemma digit_name_char: "is_digit c \<Longrightarrow> name_char c"
  by (simp add: name_char_def)

lemma unescape_plain:
  "(\<And>c. c \<in> set s \<Longrightarrow> c \<noteq> CHR ''%'' \<and> (mode = encodeOther \<or> host_char c)) \<Longrightarrow> unescape mode s = Some s"
  by (induction s) auto

lemma last_name:
  assumes "h \<noteq> []" "list_all name_char h"
  shows "name_char (hd h)" "name_char (last h)"
  using assms by (auto simp: list_all_iff)

lemma getScheme_http: "getScheme [] (''http:'' @ r) = Some (''http'', r)"
  by (simp add: is_alpha_def is_digit_def)

text \<open>An authority without brackets and user: its host part is itself.\<close>

lemma parseAuthority_plain:
  assumes "list_all (\<lambda>c. name_char c \<or> c = CHR '':'') a"
    and "last_cut a (CHR '':'') = None \<or> (\<exists>h p. last_cut a (CHR '':'') = Some (h, p) \<and> list_all is_digit p)"
  shows "parseAuthority a = Some a"
proof -
  have "CHR ''@'' \<notin> set a" "CHR ''['' \<notin> set a"
    using assms(1) by (auto simp: list_all_iff)
  moreover from this have "\<not> HasPrefix a ''[''" using HasPrefix_set [of a "''[''"] by auto
  moreover have "unescape encodeHost a = Some a"
    using assms(1) by (intro unescape_plain) (auto simp: list_all_iff name_char_host)
  ultimately show ?thesis
    using assms(2) by (auto simp: parseAuthority_def parseHost_def validOptionalPort_def)
qed

text \<open>The scheme is read first; the rest of the URL does not change it.\<close>

lemma parse_url_http:
  assumes "\<not> list_ex (\<lambda>c. (of_char c :: nat) < 32 \<or> (of_char c :: nat) = 0x7F) (''http:'' @ r)" "CHR ''?'' \<notin> set r"
    and "HasPrefix r ''/''" "HasPrefix r ''//''"
    and "takeWhile ((\<noteq>) (CHR ''/'')) (drop 2 r) = a" "dropWhile ((\<noteq>) (CHR ''/'')) (drop 2 r) = path"
    and "parseAuthority a = Some h" "unescape encodeOther path \<noteq> None"
  shows "parse_url (''http:'' @ r) = Some (''http'', h)"
proof -
  have "to_lower ''http'' = ''http''" by (simp add: char_lower_def)
  moreover have "''http:'' @ r \<noteq> ''*''" by simp
  ultimately show ?thesis
    unfolding parse_url_def getScheme_http using assms by (simp only: Cut_absent option.case prod.case Let_def fst_conv if_False if_True) simp
qed

lemma url_Parse_http:
  assumes "list_all (\<lambda>c. name_char c \<or> c = CHR '':'') a" "parseAuthority a = Some a"
    and "list_all (\<lambda>c. name_char c \<or> c = CHR ''/'') path" "path = [] \<or> hd path = CHR ''/''"
  shows "url_Parse (''http://'' @ a @ path) = Some (''http'', a)"
proof -
  define r where "r = ''//'' @ a @ path"
  let ?P = "\<lambda>c. name_char c \<or> c = CHR '':'' \<or> c = CHR ''/''"
  have "list_all ?P ''http:''" by (simp add: name_char_def is_alpha_def)
  moreover have "list_all ?P r" using assms(1,3) by (auto simp: list_all_iff r_def)
  ultimately have ok: "?P c" if "c \<in> set (''http:'' @ r)" for c
    using that unfolding list_all_iff set_append by blast
  have no: "CHR ''?'' \<notin> set r" "CHR ''#'' \<notin> set (''http:'' @ r)"
    using ok [of "CHR ''?''"] ok [of "CHR ''#''"] by auto
  have "graphic c" if "c \<in> set (''http:'' @ r)" for c
    using ok [OF that] by (elim disjE) (simp_all add: name_char_graphic)
  then have "\<not> ((of_char c :: nat) < 32 \<or> (of_char c :: nat) = 0x7F)" if "c \<in> set (''http:'' @ r)" for c
    using that by fastforce
  then have ctl: "\<not> list_ex (\<lambda>c. (of_char c :: nat) < 32 \<or> (of_char c :: nat) = 0x7F) (''http:'' @ r)"
    unfolding list_ex_iff by blast
  have "CHR ''/'' \<notin> set a" using assms(1) by (auto simp: list_all_iff)
  then have split: "takeWhile ((\<noteq>) (CHR ''/'')) (drop 2 r) = a" "dropWhile ((\<noteq>) (CHR ''/'')) (drop 2 r) = path"
    using span_sep [OF _ assms(4), of a] by (simp_all add: r_def)
  have un: "unescape encodeOther path = Some path"
    using assms(3) by (intro unescape_plain) (auto simp: list_all_iff)
  have "HasPrefix r ''/''" "HasPrefix r ''//''" by (simp_all add: r_def HasPrefix_def)
  then have "parse_url (''http:'' @ r) = Some (''http'', a)"
    by (rule parse_url_http [OF ctl no(1) _ _ split assms(2)]) (simp only: un option.distinct not_False_eq_True)
  then have "url_Parse (''http:'' @ r) = Some (''http'', a)"
    unfolding url_Parse_def Cut_absent [OF no(2)] by simp
  then show ?thesis by (simp add: r_def)
qed

subsection \<open>The scheme of an accepted URL\<close>

lemma parse_url_scheme:
  assumes "parse_url u = Some (scheme, host)" "getScheme [] u = Some (scheme0, rest0)" "u \<noteq> ''*''"
  shows "scheme = to_lower scheme0"
  using assms by (auto simp: parse_url_def Let_def split: if_splits option.splits)

lemma char_lower_alpha: "char_lower x = c \<Longrightarrow> 97 \<le> (of_char c :: nat) \<Longrightarrow> (of_char c :: nat) \<le> 122 \<Longrightarrow> is_alpha x"
  by (auto simp: char_lower_def is_alpha_def Let_def split: if_splits)

lemma getScheme_alpha:
  "list_all is_alpha w \<Longrightarrow> getScheme pre (w @ CHR '':'' # r) = (if pre @ w = [] then None else Some (pre @ w, r))"
  by (induction w arbitrary: pre) (auto simp: is_alpha_def is_digit_def)

lemma to_lower_alpha: "list_all is_alpha w \<Longrightarrow> to_lower w = map char_lower w"
  by (induction w) (auto simp: is_alpha_def)

lemma Index_Some: "Index (a @ sub @ b) sub \<noteq> None"
proof (induction a)
  case Nil
  have "HasPrefix (sub @ b) sub" by (simp add: HasPrefix_def)
  then show ?case by (cases "sub @ b") auto
qed simp

lemma Cut_prefix: "c \<notin> set a \<Longrightarrow> fst (Cut (a @ b) c) = a @ fst (Cut b c)"
  by (induction a) (auto simp: Cut_def)

text \<open>A URL that starts with \<^verbatim>\<open>https://\<close>, in any case, parses to the scheme \<^verbatim>\<open>https\<close> or not at all.\<close>

lemma https_scheme:
  assumes "map char_lower w = ''https''" "url_Parse (w @ ''://'' @ r) = Some (scheme, host)"
  shows "scheme = ''https''"
proof -
  have "is_alpha x" if "x \<in> set w" for x
  proof -
    have "char_lower x \<in> set ''https''" using that assms(1) by (metis image_eqI image_set)
    then show ?thesis by (intro char_lower_alpha [OF refl]) auto
  qed
  moreover have "\<not> is_alpha (CHR ''#'')" by (simp add: is_alpha_def)
  ultimately have w: "list_all is_alpha w" "CHR ''#'' \<notin> set w" "w \<noteq> []"
    using assms(1) by (auto simp only: list_all_iff list.map)
  have "fst (Cut (w @ ''://'' @ r) (CHR ''#'')) = w @ ''://'' @ fst (Cut r (CHR ''#''))"
    using Cut_prefix [of "CHR ''#''" "w @ ''://''" r] w(2) by simp
  then have "parse_url (w @ ''://'' @ fst (Cut r (CHR ''#''))) = Some (scheme, host)"
    using assms(2) by (auto simp: url_Parse_def split: prod.splits option.splits if_splits)
  moreover have "getScheme [] (w @ ''://'' @ x) = Some (w, ''//'' @ x)" for x
    using getScheme_alpha [OF w(1), of "[]"] w(3) by simp
  moreover have "w @ ''://'' @ x \<noteq> ''*''" for x
    using arg_cong [of "w @ ''://'' @ x" "''*''" length] by auto
  ultimately have "scheme = to_lower w" using parse_url_scheme by blast
  then show ?thesis using to_lower_alpha [OF w(1)] assms(1) by simp
qed

lemma normalizeServerAddr_url:
  assumes "TrimSpace addr = u" "Index u ''://'' \<noteq> None" "url_Parse u = Some (scheme, hostPort)"
  shows "normalizeServerAddr addr =
    (if scheme = ''https'' then Inl (TLSNotSupported u)
     else if scheme \<noteq> ''http'' then Inr u
     else (case splitHostPort hostPort of (host, port) \<Rightarrow>
             if host = '''' then Inl (NoHost u) else Inr (JoinHostPort host (if port = '''' then ''80'' else port))))"
proof -
  from assms(2) obtain i where "Index u ''://'' = Some i" "u \<noteq> ''''" by (cases u) auto
  with assms show ?thesis by (simp add: normalizeServerAddr_def Let_def)
qed

lemma splitHostPort_plain:
  assumes "h \<noteq> []" "list_all name_char h" "list_all is_digit p"
  shows "splitHostPort (h @ CHR '':'' # p) = (h, p)" "splitHostPort h = (h, '''')"
proof -
  have colon: "CHR '':'' \<notin> set p" "CHR '':'' \<notin> set h" using assms by (auto simp: list_all_iff)
  have "\<not> HasPrefix h ''[''" using assms by (cases h) (auto simp: HasPrefix_def)
  then show "splitHostPort (h @ CHR '':'' # p) = (h, p)" "splitHostPort h = (h, '''')"
    using assms(3) colon by (simp_all add: splitHostPort_def validOptionalPort_def)
qed

section \<open>Properties\<close>

text \<open>
  A configured \<^verbatim>\<open>http://\<close> address is reduced to what gRPC dials: with a host name or IPv4
  address as the host, the URL with a port, with or without a path, becomes \<^verbatim>\<open>host:port\<close>, without
  a port \<^verbatim>\<open>host:80\<close>; and \<^verbatim>\<open>host:port\<close> itself is left as it is.
\<close>

lemma normalizeServerAddr_http:
  assumes h: "h \<noteq> []" "list_all name_char h" and p: "p \<noteq> []" "list_all is_digit p"
    and path: "list_all (\<lambda>c. name_char c \<or> c = CHR ''/'') path" "path = [] \<or> hd path = CHR ''/''"
  shows "normalizeServerAddr (''http://'' @ h @ '':'' @ p @ path) = Inr (h @ '':'' @ p) \<and>
         normalizeServerAddr (''http://'' @ h @ path) = Inr (h @ '':80'') \<and>
         normalizeServerAddr (h @ '':'' @ p) = Inr (h @ '':'' @ p)"
proof -
  let ?ok = "\<lambda>c. name_char c \<or> c = CHR '':''"
  have pn: "list_all name_char p" using p(2) by (auto simp: list_all_iff digit_name_char)
  have colon: "CHR '':'' \<notin> set p" "CHR '':'' \<notin> set h" "CHR ''/'' \<notin> set (h @ '':'' @ p)"
    using pn h(2) by (auto simp: list_all_iff)
  have url: "normalizeServerAddr (''http://'' @ a @ path) =
      (case splitHostPort a of (host, port) \<Rightarrow>
         if host = '''' then Inl (NoHost (''http://'' @ a @ path))
         else Inr (JoinHostPort host (if port = '''' then ''80'' else port)))"
    if a: "list_all ?ok a" "parseAuthority a = Some a" "a \<noteq> []" "graphic (last a)" for a
  proof -
    have "graphic (last (a @ path))"
      using a(4) path(1) by (cases "path = []") (auto simp: list_all_iff name_char_graphic dest!: last_in_set)
    then have trim: "TrimSpace (''http://'' @ a @ path) = ''http://'' @ a @ path"
      using a(3) by (intro TrimSpace_id) simp_all
    have "Index (''http://'' @ a @ path) ''://'' \<noteq> None"
      using Index_Some [of "''http''" "''://''" "a @ path"] unfolding append.simps .
    from normalizeServerAddr_url [OF trim this url_Parse_http [OF a(1,2) path]] show ?thesis
      by (simp only: list.inject char.inject) simp
  qed
  have "parseAuthority h = Some h" "parseAuthority (h @ '':'' @ p) = Some (h @ '':'' @ p)"
    using h(2) p(2) pn colon by (intro parseAuthority_plain; auto simp: list_all_iff)+
  then have "normalizeServerAddr (''http://'' @ h @ path) = Inr (h @ '':80'')"
    "normalizeServerAddr (''http://'' @ (h @ '':'' @ p) @ path) = Inr (h @ '':'' @ p)"
    using url [of h] url [of "h @ '':'' @ p"] h p(1) pn p(2) colon(2) splitHostPort_plain [OF h p(2)]
      last_name [OF h] last_name [OF p(1) pn]
    by (auto simp: list_all_iff JoinHostPort_def name_char_graphic)
  moreover have "TrimSpace (h @ '':'' @ p) = h @ '':'' @ p"
    using last_name [OF h] last_name [OF p(1) pn] h(1) p(1) by (intro TrimSpace_id) (auto simp: name_char_graphic)
  then have "normalizeServerAddr (h @ '':'' @ p) = Inr (h @ '':'' @ p)"
    using Index_None [of "CHR ''/''" "''://''" "h @ '':'' @ p"] colon(3) by (simp add: normalizeServerAddr_def Let_def)
  ultimately show ?thesis by simp
qed

text \<open>
  TLS is never dropped silently: an address whose scheme is \<^verbatim>\<open>https\<close>, in any mixture of upper
  and lower case and behind any white space, is refused, and \<^verbatim>\<open>NewClient\<close> fails without dialling.
\<close>

lemma https_refused:
  assumes "TrimSpace (cfg_ServerAddr c) = w @ ''://'' @ r" "map char_lower w = ''https''"
  shows "\<exists>err. NewClient dial c = Inl (BadAddress err)"
proof -
  have same: "cfg_ServerAddr (NewClient_config c) = cfg_ServerAddr c"
    by (simp add: NewClient_config_def Let_def)
  have "\<exists>err. normalizeServerAddr (cfg_ServerAddr c) = Inl err"
  proof (cases "url_Parse (w @ ''://'' @ r)")
    case None
    then show ?thesis
      using Index_Some [of w "''://''" r] assms(1) by (auto simp: normalizeServerAddr_def Let_def)
  next
    case (Some sh)
    then obtain scheme host where sh: "url_Parse (w @ ''://'' @ r) = Some (scheme, host)" by (cases sh) auto
    then show ?thesis
      using normalizeServerAddr_url [OF assms(1) Index_Some sh] https_scheme [OF assms(2) sh] by simp
  qed
  then show ?thesis by (auto simp: NewClient_def Let_def same)
qed

end
