(* ===== verification/Cloud.thy ===== *)
theory Cloud
  imports LB_Ensure Instances Rpc_Dial
begin

text \<open>
  The \<^verbatim>\<open>Cloud\<close> object of \<^verbatim>\<open>pkg/provider/cloud.go\<close>: how it is built from the configuration file
  and the kubeconfig, and how it hands out the load balancer and instances interfaces. Reading
  files, the YAML decoder, the kubeconfig loader, the construction of API clients and the gRPC dial
  are fields of an environment. The lemmas tie the object to the components: which namespace it
  works in, which retry budget its gRPC client has, and what its load balancer does when there is no
  usable client.
\<close>

section \<open>Environment\<close>

text \<open>A \<^verbatim>\<open>clientcmd.ClientConfig\<close>: its two methods, with the REST configuration as an opaque text.\<close>

record ClientConfig =
  kc_ClientConfig :: "goerror + string"
  kc_Namespace :: "goerror + string"

text \<open>
  \<open>be_Open\<close> answers with the error of \<^verbatim>\<open>os.Open\<close> or with what reading the file gives;
  \<open>be_Unmarshal\<close> decodes into a configuration that holds the defaults.
\<close>

record boot_env =
  be_Open :: "string \<Rightarrow> goerror + (goerror + string)"
  be_Unmarshal :: "string \<Rightarrow> CloudConfig \<Rightarrow> goerror + CloudConfig"
  be_InClusterConfig :: "goerror + string"
  be_NewClientConfigFromBytes :: "string \<Rightarrow> goerror + ClientConfig"
  be_client_New :: "string \<Rightarrow> goerror + infra_client"
  be_Dial :: "string \<Rightarrow> string list option \<Rightarrow> goerror option"

record Cloud =
  cd_namespace :: string
  cd_client :: infra_client
  cd_tenantClient :: "infra_client option"
  cd_config :: CloudConfig

section \<open>Construction\<close>

definition NewCloudConfigFromBytes :: "boot_env \<Rightarrow> string \<Rightarrow> goerror + CloudConfig" where
  "NewCloudConfigFromBytes b configBytes = be_Unmarshal b configBytes createDefaultCloudConfig"

definition GetInfraKubeConfig :: "boot_env \<Rightarrow> string \<Rightarrow> goerror + string" where
  "GetInfraKubeConfig b path =
     (case be_Open b path of
        Inl err \<Rightarrow> Inl (ErrText (''Couldn't open infra-kubeconfig: '' @ Error err))
      | Inr (Inl err) \<Rightarrow> Inl (ErrText (''Failed to read infra-kubeconfig: '' @ Error err))
      | Inr (Inr text) \<Rightarrow> Inr text)"

text \<open>
  The REST configuration for the infra cluster and the namespace: the branch of the factory on an
  empty or given kubeconfig path.
\<close>

definition infraConfig :: "boot_env \<Rightarrow> CloudConfig \<Rightarrow> goerror + (string \<times> string)" where
  "infraConfig b cloudConf =
     (if cc_Kubeconfig cloudConf = ''''
      then (case be_InClusterConfig b of Inl err \<Rightarrow> Inl err | Inr restConfig \<Rightarrow> Inr (restConfig, cc_Namespace cloudConf))
      else (case GetInfraKubeConfig b (cc_Kubeconfig cloudConf) of
              Inl err \<Rightarrow> Inl err
            | Inr infraKubeConfig \<Rightarrow>
                (case be_NewClientConfigFromBytes b infraKubeConfig of
                   Inl err \<Rightarrow> Inl err
                 | Inr clientConfig \<Rightarrow>
                     (case kc_ClientConfig clientConfig of
                        Inl err \<Rightarrow> Inl err
                      | Inr restConfig \<Rightarrow>
                          if cc_Namespace cloudConf = ''''
                          then (case kc_Namespace clientConfig of Inl err \<Rightarrow> Inl err | Inr ns \<Rightarrow> Inr (restConfig, ns))
                          else Inr (restConfig, cc_Namespace cloudConf)))))"

text \<open>The reader is \<^term>\<open>None\<close> for nil, otherwise what reading it gives.\<close>

definition kubevirtCloudProviderFactory :: "boot_env \<Rightarrow> (goerror + string) option \<Rightarrow> goerror + Cloud" where
  "kubevirtCloudProviderFactory b config =
     (case config of
        None \<Rightarrow> Inl (ErrText (''No '' @ ProviderName @ '' cloud provider config file given''))
      | Some (Inl err) \<Rightarrow> Inl (ErrText (''Failed to read cloud provider config: '' @ Error err))
      | Some (Inr bytes) \<Rightarrow>
          (case NewCloudConfigFromBytes b bytes of
             Inl err \<Rightarrow> Inl (ErrText (''Failed to unmarshal cloud provider config: '' @ Error err))
           | Inr cloudConf \<Rightarrow>
               (case infraConfig b cloudConf of
                  Inl err \<Rightarrow> Inl err
                | Inr (restConfig, namespace) \<Rightarrow>
                    (case be_client_New b restConfig of
                       Inl err \<Rightarrow> Inl err
                     | Inr c \<Rightarrow> Inr \<lparr>cd_namespace = namespace, cd_client = c, cd_tenantClient = None, cd_config = cloudConf\<rparr>))))"

text \<open>\<open>tenantConfig\<close> is what \<^verbatim>\<open>ConfigOrDie\<close> returns.\<close>

definition Initialize :: "boot_env \<Rightarrow> string \<Rightarrow> Cloud \<Rightarrow> Cloud outcome" where
  "Initialize b tenantConfig c =
     (case be_client_New b tenantConfig of
        Inl err \<Rightarrow> Panic FatalExit
      | Inr tenantClient \<Rightarrow> Val (c\<lparr>cd_tenantClient := Some tenantClient\<rparr>))"

section \<open>The interfaces\<close>

definition rpcConfig :: "LoadBalancerConfig \<Rightarrow> Config" where
  "rpcConfig config =
     \<lparr>cfg_ServerAddr = lc_RPCServerAddr config,
      cfg_Timeout = (case lc_RPCKeepAlive config of None \<Rightarrow> 30 * second | Some n \<Rightarrow> seconds n),
      cfg_RetryMax = (case lc_RPCRetryMax config of None \<Rightarrow> 3 | Some n \<Rightarrow> n),
      cfg_RetryDelay = 100000000,
      cfg_DialOpts = Some [''transportCredentials''],
      cfg_ApiKey = lc_ApiKey config\<rparr>"

text \<open>
  The variable \<^verbatim>\<open>rpcClient\<close> has the type \<^verbatim>\<open>*rpc.Client\<close>: stored in the struct it becomes an
  interface value that is not nil, whether or not the pointer is.
\<close>

definition Cloud_LoadBalancer :: "boot_env \<Rightarrow> env \<Rightarrow> Cloud \<Rightarrow> loadbalancer option" where
  "Cloud_LoadBalancer b e c =
     (let config = cc_LoadBalancer (cd_config c)
      in if \<not> lc_Enabled config then None
         else let rpcClient =
                    (if lc_RPCServerAddr config \<noteq> ''''
                     then (case NewClient (be_Dial b) (rpcConfig config) of Inl err \<Rightarrow> None | Inr client \<Rightarrow> Some client)
                     else None)
              in Some \<lparr>lb_namespace = cd_namespace c, lb_config = config, lb_rpcClient = Some (client_iface e rpcClient)\<rparr>)"

definition Cloud_InstancesV2 :: "Cloud \<Rightarrow> instancesV2 option" where
  "Cloud_InstancesV2 c =
     (if \<not> ic_Enabled (cc_InstancesV2 (cd_config c)) then None
      else Some \<lparr>iv_namespace = cd_namespace c, iv_client = cd_client c, iv_config = Some (cc_InstancesV2 (cd_config c))\<rparr>)"

text \<open>
  The interfaces that the provider does not support (a nil value and false), and the accessors that
  the start of the endpoint slice controller uses.
\<close>

definition Cloud_Instances :: "Cloud \<Rightarrow> unit option \<times> bool" where
  "Cloud_Instances c = (None, False)"

definition Cloud_Zones :: "Cloud \<Rightarrow> unit option \<times> bool" where
  "Cloud_Zones c = (None, False)"

definition Cloud_Clusters :: "Cloud \<Rightarrow> unit option \<times> bool" where
  "Cloud_Clusters c = (None, False)"

definition Cloud_Routes :: "Cloud \<Rightarrow> unit option \<times> bool" where
  "Cloud_Routes c = (None, False)"

definition Cloud_ProviderName :: "Cloud \<Rightarrow> string" where
  "Cloud_ProviderName c = ProviderName"

definition Cloud_Namespace :: "Cloud \<Rightarrow> string" where
  "Cloud_Namespace c = cd_namespace c"

definition Cloud_GetCloudConfig :: "Cloud \<Rightarrow> CloudConfig" where
  "Cloud_GetCloudConfig c = cd_config c"

definition Cloud_HasClusterID :: "Cloud \<Rightarrow> bool" where
  "Cloud_HasClusterID c = True"

definition Cloud_GetInfraKubeconfig :: "boot_env \<Rightarrow> Cloud \<Rightarrow> goerror + string" where
  "Cloud_GetInfraKubeconfig b c = GetInfraKubeConfig b (cc_Kubeconfig (cd_config c))"

section \<open>Lemmas\<close>

lemma nil_client:
  assumes "Cloud_LoadBalancer b e c = Some lb"
    and "lc_RPCServerAddr (cc_LoadBalancer (cd_config c)) = '''' \<or> isl (NewClient (be_Dial b) (rpcConfig (cc_LoadBalancer (cd_config c))))"
  shows "lb_rpcClient lb = Some (client_iface e None)"
  using assms by (auto simp: Cloud_LoadBalancer_def Let_def isl_def split: if_splits)

lemma built_client:
  assumes "Cloud_LoadBalancer b e c = Some lb" "lc_RPCServerAddr (cc_LoadBalancer (cd_config c)) \<noteq> ''''"
    and "NewClient (be_Dial b) (rpcConfig (cc_LoadBalancer (cd_config c))) = Inr client"
  shows "lb_rpcClient lb = Some (client_iface e (Some client)) \<and>
    cl_config client = NewClient_config (rpcConfig (cc_LoadBalancer (cd_config c)))"
  using assms by (auto simp: Cloud_LoadBalancer_def NewClient_def Let_def split: if_splits sum.splits option.splits)

text \<open>The number of requests one call may send: a configured maximum of 0 counts as not configured.\<close>

definition retry_budget :: "LoadBalancerConfig \<Rightarrow> nat" where
  "retry_budget config =
     (case lc_RPCRetryMax config of None \<Rightarrow> 4 | Some n \<Rightarrow> if n = 0 then 4 else nat (n + 1))"

lemma retry_budget_config: "nat (cfg_RetryMax (NewClient_config (rpcConfig config)) + 1) = retry_budget config"
  by (auto simp: NewClient_config_def rpcConfig_def retry_budget_def Let_def split: option.split)

lemma logged_sends:
  "wp m (\<lambda>_ s'. sends s' \<le> n) s \<Longrightarrow> wp (logged ev m) (\<lambda>_ s'. sends s' \<le> n) s"
proof -
  have "sends (s'\<lparr>calls := x\<rparr>) = sends s'" for s' x by (simp add: sends_def)
  then show "wp m (\<lambda>_ s'. sends s' \<le> n) s \<Longrightarrow> wp (logged ev m) (\<lambda>_ s'. sends s' \<le> n) s"
    by (auto simp: logged_def go_wp elim!: wp_conseq split: outcome.split)
qed

lemma client_sends:
  "n = sends s + nat (cfg_RetryMax (cl_config client) + 1) \<Longrightarrow>
   wp (retryOnFailure e (Some client) operation (ask_wire f (sent operation))) (\<lambda>_ s'. sends s' \<le> n) s"
  unfolding retryOnFailure_def option.case by (simp add: retry_loop_sends)

section \<open>A concrete cloud\<close>

definition demo_boot :: boot_env where
  "demo_boot =
     \<lparr>be_Open = (\<lambda>path. if path = ''/etc/kubeconfig'' then Inr (Inr ''infra'') else Inl (ErrText ''no such file'')),
      be_Unmarshal = (\<lambda>bytes conf. Inr (conf\<lparr>cc_Kubeconfig := bytes\<rparr>)),
      be_InClusterConfig = Inr ''in-cluster'',
      be_NewClientConfigFromBytes = (\<lambda>text. Inr \<lparr>kc_ClientConfig = Inr text, kc_Namespace = Inr ''kv''\<rparr>),
      be_client_New = (\<lambda>_. Inr demo_cli), be_Dial = (\<lambda>_ _. None)\<rparr>"

definition demo_cloud :: "string \<Rightarrow> Cloud" where
  "demo_cloud addr = \<lparr>cd_namespace = ''kv'', cd_client = demo_cli, cd_tenantClient = Some demo_cli,
     cd_config = createDefaultCloudConfig\<lparr>cc_LoadBalancer := (cc_LoadBalancer createDefaultCloudConfig)
       \<lparr>lc_RPCServerAddr := addr, lc_RPCRetryMax := Some 5\<rparr>\<rparr>\<rparr>"

section \<open>Properties\<close>

text \<open>
  Where the provider works: a cloud object that the factory builds has the configuration decoded
  over the defaults and no tenant client yet. Its namespace is the configured one; without one it is
  the namespace of the kubeconfig if a kubeconfig is given, and empty inside the cluster.
\<close>

lemma factory_namespace:
  assumes "kubevirtCloudProviderFactory b (Some (Inr bytes)) = Inr c"
  shows "be_Unmarshal b bytes createDefaultCloudConfig = Inr (cd_config c) \<and> cd_tenantClient c = None \<and>
    (if cc_Namespace (cd_config c) \<noteq> '''' then cd_namespace c = cc_Namespace (cd_config c)
     else if cc_Kubeconfig (cd_config c) = '''' then cd_namespace c = ''''
     else \<exists>text kc. be_Open b (cc_Kubeconfig (cd_config c)) = Inr (Inr text) \<and>
       be_NewClientConfigFromBytes b text = Inr kc \<and> kc_Namespace kc = Inr (cd_namespace c))"
  using assms
  by (auto simp: kubevirtCloudProviderFactory_def NewCloudConfigFromBytes_def infraConfig_def GetInfraKubeConfig_def
      split: sum.splits if_splits)

text \<open>
  C17. Without a usable RPC server the load balancer crashes: when no server address is configured, or
  the client for it cannot be built, the load balancer object holds an interface value around a nil
  client. The check for a missing client does not see it: \<^verbatim>\<open>GetLoadBalancer\<close> for a Service with an
  identifier and \<^verbatim>\<open>EnsureLoadBalancerDeleted\<close> panic instead of returning the error.
\<close>

theorem missing_client_panics:
  assumes "Cloud_LoadBalancer b e c = Some lb"
    and "lc_RPCServerAddr (cc_LoadBalancer (cd_config c)) = '''' \<or> isl (NewClient (be_Dial b) (rpcConfig (cc_LoadBalancer (cd_config c))))"
    and "\<not> shouldSkipService lb service"
  shows "(annot service LoadBalancerIDAnnotationKey \<noteq> '''' \<longrightarrow> GetLoadBalancer lb service s = Some (Panic NilDereference, s)) \<and>
    EnsureLoadBalancerDeleted lb service s = Some (Panic NilDereference, clearRetryCount (svc_UID service) s)"
proof -
  note nil = nil_client [OF assms(1,2)]
  have methods: "lb_Get lb i = go_panic NilDereference" "lb_Delete lb i = go_panic NilDereference" "lb_List lb r = go_panic NilDereference"
    for i r
    by (auto simp: lb_Get_def lb_Delete_def lb_List_def nil client_iface_def Client_GetLoadBalancer_def Client_DeleteLoadBalancer_def
        Client_ListLoadBalancers_def retryOnFailure_def logged_def go_bind_def)
  have "findLoadBalancerByName lb t n = go_panic NilDereference" for t n
    by (rule ext) (simp add: findLoadBalancerByName_def findLoop.simps [of lb t n] methods go_bind_def)
  then show ?thesis
    using assms(3) nil
    by (simp add: GetLoadBalancer_def EnsureLoadBalancerDeleted_def deleteByID_def methods go_bind_def go_defer_def Let_def)
qed

theorem missing_client_panics_witness:
  "\<exists>lb. Cloud_LoadBalancer demo_boot quiet_env (demo_cloud '''') = Some lb \<and>
     GetLoadBalancer lb (managed_service quiet_env) init_st = Some (Panic NilDereference, init_st)"
proof -
  obtain lb where lb: "Cloud_LoadBalancer demo_boot quiet_env (demo_cloud '''') = Some lb" "lb_config lb = cc_LoadBalancer (cd_config (demo_cloud ''''))"
    by (simp add: Cloud_LoadBalancer_def demo_cloud_def createDefaultCloudConfig_def)
  have "\<not> shouldSkipService lb (managed_service quiet_env)"
    by (simp add: shouldSkipService_def useAnnotationConfig_def lb(2) demo_cloud_def createDefaultCloudConfig_def)
  from missing_client_panics [OF lb(1) _ this, of init_st] lb(1) show ?thesis
    by (auto simp: managed_annots) (simp add: demo_cloud_def)
qed

text \<open>
  C37. The configured retry budget holds for every call: with a client built from the configuration,
  each method of the load balancer interface sends its request at most \<^verbatim>\<open>rpcRetryMax+1\<close> times, four
  times when \<^verbatim>\<open>rpcRetryMax\<close> is not given or 0, and never for a negative one.
\<close>

theorem cloud_retry_budget:
  assumes "Cloud_LoadBalancer b e c = Some lb" "lc_RPCServerAddr (cc_LoadBalancer (cd_config c)) \<noteq> ''''"
    and "NewClient (be_Dial b) (rpcConfig (cc_LoadBalancer (cd_config c))) = Inr client"
    and n: "n = sends s + retry_budget (cc_LoadBalancer (cd_config c))"
  shows "wp (lb_Create lb creq) (\<lambda>_ s'. sends s' \<le> n) s \<and> wp (lb_Get lb i) (\<lambda>_ s'. sends s' \<le> n) s \<and>
    wp (lb_Update lb ureq) (\<lambda>_ s'. sends s' \<le> n) s \<and> wp (lb_Delete lb i) (\<lambda>_ s'. sends s' \<le> n) s \<and>
    wp (lb_List lb lreq) (\<lambda>_ s'. sends s' \<le> n) s"
proof -
  note client = built_client [OF assms(1-3)]
  have budget: "n = sends s + nat (cfg_RetryMax (cl_config client) + 1)"
    using client retry_budget_config n by simp
  show ?thesis
    using client
    by (auto simp: lb_Create_def lb_Get_def lb_Update_def lb_Delete_def lb_List_def client_iface_def Client_CreateLoadBalancer_def
        Client_GetLoadBalancer_def Client_UpdateLoadBalancer_def Client_DeleteLoadBalancer_def Client_ListLoadBalancers_def
        intro!: logged_sends client_sends [OF budget])
qed

theorem cloud_retry_budget_witness:
  "\<exists>lb. Cloud_LoadBalancer demo_boot quiet_env (demo_cloud ''lb:80'') = Some lb \<and>
     wp (lb_Get lb ''lb-1'') (\<lambda>_ s'. sends s' \<le> 6) init_st"
proof -
  obtain lb where lb: "Cloud_LoadBalancer demo_boot quiet_env (demo_cloud ''lb:80'') = Some lb"
    by (simp add: Cloud_LoadBalancer_def demo_cloud_def createDefaultCloudConfig_def Let_def)
  have "normalizeServerAddr ''lb:80'' = Inr ''lb:80''" by code_simp
  then obtain client where "NewClient (be_Dial demo_boot) (rpcConfig (cc_LoadBalancer (cd_config (demo_cloud ''lb:80'')))) = Inr client"
    by (simp add: NewClient_def NewClient_config_def rpcConfig_def demo_cloud_def demo_boot_def createDefaultCloudConfig_def second_def)
  from cloud_retry_budget [OF lb _ this refl, where s = init_st and i = "''lb-1''"] lb show ?thesis
    by (auto simp: demo_cloud_def retry_budget_def init_st_def sends_def)
qed

end
