(* ===== verification/EPS_Model.thy ===== *)
theory EPS_Model
  imports World "HOL-Library.AList" "HOL-Library.Multiset"
begin

text \<open>
  The data of the endpoint slice controller (\<^verbatim>\<open>pkg/controller/kubevirteps\<close>): Services of the
  infra cluster, EndpointSlices and their endpoints with the fields the source uses, the set of
  endpoints the reconcile works with (\<^verbatim>\<open>endpointsliceutil.EndpointSet\<close>), label maps, address
  types, and the tracker of tenant slices with its contract.
\<close>

section \<open>Label maps\<close>

text \<open>
  A \<^verbatim>\<open>map[string]string\<close> that the code copies and compares: an association list, read with
  \<^const>\<open>map_of\<close> and written with the operations of \<^verbatim>\<open>AList\<close>.
\<close>

type_synonym labels = "(string \<times> string) list"

definition lget :: "labels \<Rightarrow> string \<Rightarrow> string" where
  "lget l k = (case map_of l k of None \<Rightarrow> '''' | Some v \<Rightarrow> v)"

definition labels_eq :: "labels \<Rightarrow> labels \<Rightarrow> bool" where
  "labels_eq a b = list_all (\<lambda>k. map_of a k = map_of b k) (map fst a @ map fst b)"

lemma labels_eq_iff: "labels_eq a b \<longleftrightarrow> map_of a = map_of b"
proof
  assume eq: "labels_eq a b"
  show "map_of a = map_of b"
  proof
    fix k
    show "map_of a k = map_of b k"
    proof (cases "k \<in> fst ` set a \<union> fst ` set b")
      case True
      then show ?thesis using eq by (auto simp: labels_eq_def list_all_iff)
    next
      case False
      then have "map_of a k = None" "map_of b k = None" by (simp_all add: map_of_eq_None_iff)
      then show ?thesis by simp
    qed
  qed
qed (simp add: labels_eq_def list_all_iff)

section \<open>Objects\<close>

datatype AddressType = AddressTypeIPv4 | AddressTypeIPv6 | AddressTypeFQDN

record EpsPort =
  sp_Name :: string
  sp_Protocol :: string
  sp_TargetPort :: int

record EpsService =
  sv_Name :: string
  sv_Namespace :: string
  sv_UID :: string
  sv_Labels :: labels
  sv_DeletionTimestamp :: "int option"
  sv_Type :: string
  sv_Selector :: "labels option"
  sv_IPFamilies :: "string list"
  sv_ClusterIP :: string
  sv_ExternalTrafficPolicy :: string
  sv_Ports :: "EpsPort list"

record ObjectReference =
  ref_Kind :: string
  ref_Namespace :: string
  ref_Name :: string
  ref_UID :: string
  ref_ResourceVersion :: string

record Endpoint =
  ep_Addresses :: "string list"
  ep_Ready :: "bool option"
  ep_Serving :: "bool option"
  ep_Terminating :: "bool option"
  ep_Hostname :: "string option"
  ep_TargetRef :: "ObjectReference option"
  ep_NodeName :: "string option"
  ep_Zone :: "string option"

record EndpointPort =
  ept_Name :: "string option"
  ept_Protocol :: "string option"
  ept_Port :: "int option"
  ept_AppProtocol :: "string option"

record OwnerReference =
  own_APIVersion :: string
  own_Kind :: string
  own_Name :: string
  own_UID :: string

record EndpointSlice =
  es_Name :: string
  es_GenerateName :: string
  es_Namespace :: string
  es_Labels :: labels
  es_OwnerReferences :: "OwnerReference list"
  es_AddressType :: AddressType
  es_Ports :: "EndpointPort list"
  es_Endpoints :: "Endpoint list"

definition LabelServiceName :: string where
  "LabelServiceName = ''kubernetes.io/service-name''"

definition LabelManagedBy :: string where
  "LabelManagedBy = ''endpointslice.kubernetes.io/managed-by''"

definition IsHeadlessService :: string where
  "IsHeadlessService = ''service.kubernetes.io/headless''"

definition TenantServiceNameLabelKey :: string where
  "TenantServiceNameLabelKey = ''cluster.x-k8s.io/tenant-service-name''"

definition TenantServiceNamespaceLabelKey :: string where
  "TenantServiceNamespaceLabelKey = ''cluster.x-k8s.io/tenant-service-namespace''"

definition ClusterIPNone :: string where
  "ClusterIPNone = ''None''"

definition ControllerName :: string where
  "ControllerName = ''kubevirt_eps_controller''"

definition dashed :: "string \<Rightarrow> string" where
  "dashed s = map (\<lambda>c. if c = CHR ''_'' then CHR ''-'' else c) s"

section \<open>Sets of endpoints\<close>

text \<open>
  \<^verbatim>\<open>EndpointSet\<close> is a Go map from the hash of an endpoint to the endpoint. The hash covers the
  sorted addresses, the host name and the target; hashing sorts the addresses of the endpoint in
  place. A set is a list of endpoints with pairwise different hashes; the iteration order of the
  map is chosen by the caller of \<open>PopAny\<close>. The hash function is a parameter.
\<close>

record endpointHashObj =
  ho_Addresses :: "string list"
  ho_Hostname :: string
  ho_Namespace :: string
  ho_Name :: string

type_synonym endpoint_hash = "endpointHashObj \<Rightarrow> string"

definition hashEndpoint :: "endpoint_hash \<Rightarrow> Endpoint \<Rightarrow> string" where
  "hashEndpoint H ep = H
     \<lparr>ho_Addresses = sort (ep_Addresses ep),
      ho_Hostname = (case ep_Hostname ep of None \<Rightarrow> '''' | Some h \<Rightarrow> h),
      ho_Namespace = (case ep_TargetRef ep of None \<Rightarrow> '''' | Some r \<Rightarrow> ref_Namespace r),
      ho_Name = (case ep_TargetRef ep of None \<Rightarrow> '''' | Some r \<Rightarrow> ref_Name r)\<rparr>"

definition sortAddresses :: "Endpoint \<Rightarrow> Endpoint" where
  "sortAddresses ep = ep\<lparr>ep_Addresses := sort (ep_Addresses ep)\<rparr>"

definition set_Delete :: "endpoint_hash \<Rightarrow> Endpoint list \<Rightarrow> Endpoint \<Rightarrow> Endpoint list" where
  "set_Delete H s item = filter (\<lambda>x. hashEndpoint H x \<noteq> hashEndpoint H item) s"

definition set_Get :: "endpoint_hash \<Rightarrow> Endpoint list \<Rightarrow> Endpoint \<Rightarrow> Endpoint option" where
  "set_Get H s item = List.find (\<lambda>x. hashEndpoint H x = hashEndpoint H item) s"

definition set_Insert :: "endpoint_hash \<Rightarrow> Endpoint list \<Rightarrow> Endpoint list \<Rightarrow> Endpoint list" where
  "set_Insert H s items = foldl (\<lambda>s item. set_Delete H s item @ [sortAddresses item]) s items"

definition set_PopAny :: "endpoint_hash \<Rightarrow> (Endpoint list \<Rightarrow> nat) \<Rightarrow> Endpoint list \<Rightarrow> (Endpoint \<times> Endpoint list) option" where
  "set_PopAny H pick s =
     (if s = [] then None
      else let endpoint = s ! (pick s mod length s) in Some (endpoint, set_Delete H s endpoint))"

definition ptr_same :: "'a option \<Rightarrow> 'a option \<Rightarrow> bool" where
  "ptr_same p q \<longleftrightarrow> (case (p, q) of (None, None) \<Rightarrow> True | (Some x, Some y) \<Rightarrow> x = y | _ \<Rightarrow> False)"

definition EndpointsEqualBeyondHash :: "Endpoint \<Rightarrow> Endpoint \<Rightarrow> bool" where
  "EndpointsEqualBeyondHash ep1 ep2 \<longleftrightarrow>
     ptr_same (ep_NodeName ep1) (ep_NodeName ep2) \<and> ptr_same (ep_Zone ep1) (ep_Zone ep2) \<and>
     ptr_same (ep_Ready ep1) (ep_Ready ep2) \<and> ptr_same (ep_Serving ep1) (ep_Serving ep2) \<and>
     ptr_same (ep_Terminating ep1) (ep_Terminating ep2) \<and>
     ptr_same (map_option (ref_ResourceVersion_update (\<lambda>_. '''')) (ep_TargetRef ep1))
              (map_option (ref_ResourceVersion_update (\<lambda>_. '''')) (ep_TargetRef ep2))"

subsection \<open>Laws of the set\<close>

abbreviation keys :: "endpoint_hash \<Rightarrow> Endpoint list \<Rightarrow> string list" where
  "keys H s \<equiv> map (hashEndpoint H) s"

abbreviation key_set :: "endpoint_hash \<Rightarrow> Endpoint list \<Rightarrow> bool" where
  "key_set H s \<equiv> distinct (keys H s)"

lemma hash_sortAddresses [simp]: "hashEndpoint H (sortAddresses ep) = hashEndpoint H ep"
  by (simp add: hashEndpoint_def sortAddresses_def sort_key_id_if_sorted)

lemma ptr_same_iff [simp]: "ptr_same p q \<longleftrightarrow> p = q"
  by (auto simp: ptr_same_def split: option.splits)

lemma EqualBeyondHash_refl [simp]: "EndpointsEqualBeyondHash ep ep"
  by (simp add: EndpointsEqualBeyondHash_def)

lemma EqualBeyondHash_sort [simp]: "EndpointsEqualBeyondHash d (sortAddresses ep) = EndpointsEqualBeyondHash d ep"
  by (simp add: EndpointsEqualBeyondHash_def sortAddresses_def)

lemma keys_Delete: "keys H (set_Delete H s item) = filter ((\<noteq>) (hashEndpoint H item)) (keys H s)"
  by (induction s) (auto simp: set_Delete_def)

lemma key_set_Delete [simp]: "key_set H s \<Longrightarrow> key_set H (set_Delete H s item)"
  by (simp add: keys_Delete)

lemma set_Delete_subset: "set (set_Delete H s item) \<subseteq> set s"
  by (auto simp: set_Delete_def)

lemma key_set_Insert: "key_set H s \<Longrightarrow> key_set H (set_Insert H s items)"
proof (induction items arbitrary: s)
  case (Cons item items)
  have "key_set H (set_Delete H s item @ [sortAddresses item])"
    using Cons.prems by (auto simp: set_Delete_def distinct_map_filter)
  then show ?case using Cons.IH by (simp add: set_Insert_def)
qed (simp add: set_Insert_def)

lemma set_Get_Some:
  "set_Get H s item = Some d \<Longrightarrow> d \<in> set s \<and> hashEndpoint H d = hashEndpoint H item"
  by (auto simp: set_Get_def find_Some_iff)

lemma set_Get_None: "set_Get H s item = None \<longleftrightarrow> hashEndpoint H item \<notin> set (keys H s)"
  by (auto simp: set_Get_def find_None_iff image_iff)

lemma set_Get_member:
  assumes "key_set H s" "d \<in> set s" "hashEndpoint H d = hashEndpoint H item"
  shows "set_Get H s item = Some d"
proof (cases "set_Get H s item")
  case None
  then have "hashEndpoint H item \<notin> set (keys H s)" by (simp only: set_Get_None not_False_eq_True)
  with assms(2,3) show ?thesis by (metis image_eqI image_set)
next
  case (Some e)
  with set_Get_Some [OF Some] assms show ?thesis
    by (metis distinct_map inj_onD)
qed

text \<open>Removing the endpoint that was found takes exactly one key away.\<close>

lemma mset_keys_Delete:
  assumes "key_set H s" "hashEndpoint H item \<in> set (keys H s)"
  shows "mset (keys H s) = add_mset (hashEndpoint H item) (mset (keys H (set_Delete H s item)))"
proof -
  have "mset ks = add_mset k (mset (filter ((\<noteq>) k) ks))" if "distinct ks" "k \<in> set ks" for k and ks :: "string list"
    using that
  proof (induction ks)
    case (Cons x ks)
    then have "filter ((\<noteq>) k) ks = ks" if "x = k" using that by (auto simp: filter_id_conv)
    with Cons show ?case by (cases "x = k") auto
  qed simp
  with assms show ?thesis unfolding keys_Delete by blast
qed

lemma set_PopAny_Some:
  assumes "set_PopAny H pick s = Some (ep, s')"
  shows "ep \<in> set s" "s' = set_Delete H s ep" "length s' < length s"
proof -
  from assms have "s \<noteq> []" and ep: "ep = s ! (pick s mod length s)" "s' = set_Delete H s ep"
    by (auto simp: set_PopAny_def Let_def split: if_splits)
  then show mem: "ep \<in> set s" "s' = set_Delete H s ep" by simp_all
  then show "length s' < length s" by (auto simp: set_Delete_def intro!: length_filter_less)
qed

section \<open>Address types\<close>

text \<open>The set of address types, as a list without repetition. \<open>isIPv6\<close> is \<^verbatim>\<open>utilnet.IsIPv6String\<close>.\<close>

definition getAddressTypesForService :: "(string \<Rightarrow> bool) \<Rightarrow> EpsService \<Rightarrow> AddressType list" where
  "getAddressTypesForService isIPv6 service =
     (let families = sv_IPFamilies service;
          found = (if ''IPv4'' \<in> set families then [AddressTypeIPv4] else []) @
                  (if ''IPv6'' \<in> set families then [AddressTypeIPv6] else [])
      in if found \<noteq> [] then found
         else if sv_ClusterIP service \<noteq> '''' \<and> sv_ClusterIP service \<noteq> ClusterIPNone
         then [if isIPv6 (sv_ClusterIP service) then AddressTypeIPv6 else AddressTypeIPv4]
         else [AddressTypeIPv4, AddressTypeIPv6])"

lemma getAddressTypes_shape:
  "distinct (getAddressTypesForService isIPv6 service)" "getAddressTypesForService isIPv6 service \<noteq> []"
  "AddressTypeFQDN \<notin> set (getAddressTypesForService isIPv6 service)"
  by (auto simp: getAddressTypesForService_def Let_def)

section \<open>Labels and owners\<close>

definition managedByController :: "EndpointSlice \<Rightarrow> bool" where
  "managedByController slc \<longleftrightarrow> lget (es_Labels slc) LabelManagedBy = dashed ControllerName"

definition ownedBy :: "EndpointSlice \<Rightarrow> EpsService \<Rightarrow> bool" where
  "ownedBy slc svc =
     list_ex (\<lambda>o'. own_UID o' = sv_UID svc \<and> own_Kind o' = ''Service'' \<and> own_APIVersion o' = ''v1'')
       (es_OwnerReferences slc)"

definition ensureEndpointSliceLabels :: "EndpointSlice \<Rightarrow> EpsService \<Rightarrow> labels \<times> bool" where
  "ensureEndpointSliceLabels slc svc =
     (let l1 = AList.merge [] (es_Labels slc);
          l2 = AList.merge l1 (sv_Labels svc);
          l3 = AList.update LabelServiceName (sv_Name svc) l2;
          l4 = AList.update LabelManagedBy (dashed ControllerName) l3;
          labels = (if sv_ClusterIP svc = '''' \<or> sv_ClusterIP svc = ClusterIPNone
                    then AList.update IsHeadlessService '''' l4 else AList.delete IsHeadlessService l4)
      in (labels, \<not> labels_eq (es_Labels slc) labels))"

lemma ensure_labels_map:
  "map_of (fst (ensureEndpointSliceLabels slc svc)) =
     (let m = (map_of (es_Labels slc) ++ map_of (sv_Labels svc))
                (LabelServiceName \<mapsto> sv_Name svc, LabelManagedBy \<mapsto> dashed ControllerName)
      in if sv_ClusterIP svc = '''' \<or> sv_ClusterIP svc = ClusterIPNone
         then m(IsHeadlessService \<mapsto> '''') else m(IsHeadlessService := None))"
  by (simp add: ensureEndpointSliceLabels_def Let_def update_conv' delete_conv' merge_conv' fun_upd_def)

text \<open>Labels that were ensured once need no second change.\<close>

lemma ensure_labels_again:
  assumes "map_of (es_Labels slc') = map_of (fst (ensureEndpointSliceLabels slc svc))"
  shows "\<not> snd (ensureEndpointSliceLabels slc' svc)"
proof -
  have "map_of (fst (ensureEndpointSliceLabels slc' svc)) = map_of (es_Labels slc')"
    unfolding ensure_labels_map [of slc'] assms ensure_labels_map [of slc]
    by (auto simp: Let_def fun_eq_iff map_add_def LabelServiceName_def LabelManagedBy_def IsHeadlessService_def
        split: option.splits)
  then show ?thesis
    unfolding ensureEndpointSliceLabels_def Let_def by (simp add: labels_eq_iff)
qed

lemma ensure_labels_unchanged:
  "\<not> snd (ensureEndpointSliceLabels slc svc) \<Longrightarrow>
   map_of (es_Labels slc) = map_of (fst (ensureEndpointSliceLabels slc svc))"
  by (simp add: ensureEndpointSliceLabels_def Let_def labels_eq_iff)

section \<open>The tracker of tenant slices\<close>

type_synonym namespaced_name = "string \<times> string"

definition eps_name :: "EndpointSlice \<Rightarrow> namespaced_name" where
  "eps_name eps = (es_Namespace eps, es_Name eps)"

definition tracker_add :: "namespaced_name list \<Rightarrow> EndpointSlice \<Rightarrow> namespaced_name list" where
  "tracker_add register eps = register @ [eps_name eps]"

fun remove_name :: "namespaced_name \<Rightarrow> namespaced_name list \<Rightarrow> namespaced_name list" where
  "remove_name name [] = []"
| "remove_name name (n # register) = (if n = name then register else n # remove_name name register)"

definition tracker_remove :: "namespaced_name list \<Rightarrow> EndpointSlice \<Rightarrow> namespaced_name list" where
  "tracker_remove register eps = remove_name (eps_name eps) register"

definition tracker_contains :: "namespaced_name list \<Rightarrow> EndpointSlice \<Rightarrow> bool" where
  "tracker_contains register eps = list_ex (\<lambda>n. n = eps_name eps) register"

text \<open>
  What the event handlers and the reconcile may rely on: the register is a multiset of names. An
  addition counts every time, a removal takes one occurrence back.
\<close>

locale name_register =
  fixes add :: "'r \<Rightarrow> EndpointSlice \<Rightarrow> 'r" and remove :: "'r \<Rightarrow> EndpointSlice \<Rightarrow> 'r"
    and contains :: "'r \<Rightarrow> EndpointSlice \<Rightarrow> bool" and entries :: "'r \<Rightarrow> namespaced_name multiset"
  assumes contains_iff: "contains r eps \<longleftrightarrow> eps_name eps \<in># entries r"
    and entries_add: "entries (add r eps) = add_mset (eps_name eps) (entries r)"
    and entries_remove: "entries (remove r eps) = entries r - {#eps_name eps#}"
begin

lemma entries_add_all: "entries (foldl add r slices) = entries r + mset (map eps_name slices)"
  by (induction slices arbitrary: r) (simp_all add: entries_add)

lemma contains_added: "eps \<in> set slices \<Longrightarrow> contains (foldl add r slices) eps"
  by (simp add: contains_iff entries_add_all)

lemma add_all_mono: "contains r eps \<Longrightarrow> contains (foldl add r slices) eps"
  by (simp add: contains_iff entries_add_all)

lemma contains_removed: "contains (remove r eps) eps \<longleftrightarrow> 2 \<le> count (entries r) (eps_name eps)"
  by (simp add: contains_iff entries_remove flip: count_greater_zero_iff) linarith

lemma contains_other: "eps_name eps' \<noteq> eps_name eps \<Longrightarrow> contains (remove r eps) eps' = contains r eps'"
  by (simp add: contains_iff entries_remove in_diff_count)

text \<open>A name registered twice survives its removal.\<close>

lemma registered_twice: "eps \<in> set slices \<Longrightarrow> contains r eps \<Longrightarrow> contains (remove (foldl add r slices) eps) eps"
proof -
  assume "eps \<in> set slices" "contains r eps"
  then have "0 < count (entries r) (eps_name eps)" "0 < count (mset (map eps_name slices)) (eps_name eps)"
    unfolding count_greater_zero_iff by (auto simp: contains_iff)
  then show ?thesis unfolding contains_removed entries_add_all count_union by linarith
qed

end

lemma remove_name_mset: "mset (remove_name n r) = mset r - {#n#}"
  by (induction r) (auto simp: add_mset_diff_bothsides)

interpretation tracker: name_register tracker_add tracker_remove tracker_contains mset
  by unfold_locales
     (auto simp: tracker_contains_def list_ex_iff tracker_add_def tracker_remove_def remove_name_mset)

end
