(* ===== verification/EPS_Plan.thy ===== *)
theory EPS_Plan
  imports EPS_Model
begin

text \<open>
  The planning part of \<^verbatim>\<open>reconcileByAddressType\<close>
  (\<^verbatim>\<open>pkg/controller/kubevirteps/kubevirteps_controller.go\<close>): from the desired endpoints and the
  slices that exist, the slices to create, to update and to delete. The existing slices are
  pointers that the loops change in place; here they are values that are passed on. The lemmas
  show that the plan distributes the desired endpoints over the slices and that a plan that was
  carried out leaves nothing to do.
\<close>

section \<open>Definitions\<close>

definition desiredPorts :: "EpsService \<Rightarrow> EndpointPort list" where
  "desiredPorts service =
     map (\<lambda>p. \<lparr>ept_Name = Some (sp_Name p), ept_Protocol = Some (sp_Protocol p), ept_Port = Some (sp_TargetPort p),
               ept_AppProtocol = None\<rparr>) (sv_Ports service)"

text \<open>
  The loop over the endpoints of one slice: the covered desired endpoints, whether one of them
  differs from what the slice has, and the desired endpoints that are left.
\<close>

fun coverEndpoints :: "endpoint_hash \<Rightarrow> Endpoint list \<Rightarrow> Endpoint list \<Rightarrow> Endpoint list \<times> bool \<times> Endpoint list" where
  "coverEndpoints H [] desired = ([], False, desired)"
| "coverEndpoints H (endpoint # endpoints) desired =
     (case set_Get H desired endpoint of
        None \<Rightarrow> coverEndpoints H endpoints desired
      | Some present \<Rightarrow>
          (case coverEndpoints H endpoints (set_Delete H desired endpoint) of (covered, updated, left) \<Rightarrow>
             (present # covered, \<not> EndpointsEqualBeyondHash present endpoint \<or> updated, left)))"

datatype review = RUpdate EndpointSlice | RDelete EndpointSlice | RUntouched EndpointSlice

text \<open>
  One existing slice. Hashing its endpoints sorted their addresses in place.
\<close>

definition reviewSlice ::
  "endpoint_hash \<Rightarrow> EpsService \<Rightarrow> EndpointPort list \<Rightarrow> EndpointSlice \<Rightarrow> Endpoint list \<Rightarrow> review \<times> Endpoint list" where
  "reviewSlice H service ports existing desired =
     (case coverEndpoints H (es_Endpoints existing) desired of (covered, updated, left) \<Rightarrow>
        let portsChanged = (es_Ports existing \<noteq> ports);
            existing' = existing\<lparr>es_Ports := ports, es_Endpoints := map sortAddresses (es_Endpoints existing)\<rparr>;
            (labels, labelsChanged) = ensureEndpointSliceLabels existing service
        in if portsChanged \<or> updated \<or> labelsChanged \<or> length (es_Endpoints existing) \<noteq> length covered
           then if covered = [] then (RDelete existing', left)
                else (RUpdate (existing'\<lparr>es_Endpoints := covered, es_Labels := labels\<rparr>), left)
           else (RUntouched existing', left))"

fun reviewSlices ::
  "endpoint_hash \<Rightarrow> EpsService \<Rightarrow> EndpointPort list \<Rightarrow> EndpointSlice list \<Rightarrow> Endpoint list \<Rightarrow> review list \<times> Endpoint list" where
  "reviewSlices H service ports [] desired = ([], desired)"
| "reviewSlices H service ports (existing # slices) desired =
     (case reviewSlice H service ports existing desired of (r, left) \<Rightarrow>
        (case reviewSlices H service ports slices left of (rs, left') \<Rightarrow> (r # rs, left')))"

definition to_update :: "review list \<Rightarrow> EndpointSlice list" where
  "to_update rs = List.map_filter (\<lambda>r. case r of RUpdate s \<Rightarrow> Some s | _ \<Rightarrow> None) rs"

definition to_delete :: "review list \<Rightarrow> EndpointSlice list" where
  "to_delete rs = List.map_filter (\<lambda>r. case r of RDelete s \<Rightarrow> Some s | _ \<Rightarrow> None) rs"

definition untouched :: "review list \<Rightarrow> EndpointSlice list" where
  "untouched rs = List.map_filter (\<lambda>r. case r of RUntouched s \<Rightarrow> Some s | _ \<Rightarrow> None) rs"

text \<open>Filling one slice with endpoints taken from the set, up to the limit.\<close>

function fillEndpoints ::
  "endpoint_hash \<Rightarrow> (Endpoint list \<Rightarrow> nat) \<Rightarrow> nat \<Rightarrow> Endpoint list \<Rightarrow> Endpoint list \<Rightarrow> Endpoint list \<times> Endpoint list" where
  "fillEndpoints H pick mx endpoints desired =
     (if length endpoints < mx
      then (case set_PopAny H pick desired of
              None \<Rightarrow> (endpoints, desired)
            | Some (endpoint, left) \<Rightarrow> fillEndpoints H pick mx (endpoints @ [endpoint]) left)
      else (endpoints, desired))"
  by pat_completeness auto
termination
  by (relation "measure (\<lambda>(H, pick, mx, endpoints, desired). length desired)") (auto dest: set_PopAny_Some(3))

declare fillEndpoints.simps [simp del]

definition fillSlice ::
  "endpoint_hash \<Rightarrow> (Endpoint list \<Rightarrow> nat) \<Rightarrow> nat \<Rightarrow> EndpointSlice \<Rightarrow> Endpoint list \<Rightarrow> EndpointSlice \<times> Endpoint list" where
  "fillSlice H pick mx s desired =
     (case fillEndpoints H pick mx (es_Endpoints s) desired of (endpoints, left) \<Rightarrow> (s\<lparr>es_Endpoints := endpoints\<rparr>, left))"

fun fillSlices ::
  "endpoint_hash \<Rightarrow> (Endpoint list \<Rightarrow> nat) \<Rightarrow> nat \<Rightarrow> EndpointSlice list \<Rightarrow> Endpoint list \<Rightarrow> EndpointSlice list \<times> Endpoint list" where
  "fillSlices H pick mx [] desired = ([], desired)"
| "fillSlices H pick mx (s # slices) desired =
     (case fillSlice H pick mx s desired of (s', left) \<Rightarrow>
        (case fillSlices H pick mx slices left of (slices', left') \<Rightarrow> (s' # slices', left')))"

definition newSlice :: "EpsService \<Rightarrow> EndpointPort list \<Rightarrow> AddressType \<Rightarrow> EndpointSlice" where
  "newSlice service ports addressType =
     \<lparr>es_Name = '''', es_GenerateName = sv_Name service, es_Namespace = sv_Namespace service, es_Labels = [],
      es_OwnerReferences = [\<lparr>own_APIVersion = ''v1'', own_Kind = ''Service'', own_Name = sv_Name service,
        own_UID = sv_UID service\<rparr>],
      es_AddressType = addressType, es_Ports = ports, es_Endpoints = []\<rparr>"

text \<open>
  The result: the three lists handed to \<^verbatim>\<open>finalize\<close>, and for the theorems the slices that are
  left alone and the desired endpoints that found no place.
\<close>

record plan =
  pl_create :: "EndpointSlice list"
  pl_update :: "EndpointSlice list"
  pl_delete :: "EndpointSlice list"
  pl_same :: "EndpointSlice list"
  pl_left :: "Endpoint list"

definition planSlices ::
  "endpoint_hash \<Rightarrow> (Endpoint list \<Rightarrow> nat) \<Rightarrow> nat \<Rightarrow> EpsService \<Rightarrow> Endpoint list \<Rightarrow> EndpointSlice list \<Rightarrow> AddressType \<Rightarrow> plan" where
  "planSlices H pick mx service desiredEndpoints existingSlices addressType =
     (let ports = desiredPorts service;
          desired = set_Insert H [] desiredEndpoints;
          (rs, left1) = reviewSlices H service ports existingSlices desired;
          (updates, left2) =
            (if length left1 > 0 then fillSlices H pick mx (to_update rs) left1 else (to_update rs, left1));
          (filled, same, left3) =
            (if length left2 > 0
             then (case fillSlices H pick mx (untouched rs) left2 of (u, l) \<Rightarrow> (u, [], l))
             else ([], untouched rs, left2));
          (creates, left4) =
            (if length left3 > 0
             then (let s = newSlice service ports addressType;
                       s' = s\<lparr>es_Labels := fst (ensureEndpointSliceLabels s service)\<rparr>
                   in case fillSlice H pick mx s' left3 of (s'', l) \<Rightarrow> ([s''], l))
             else ([], left3))
      in \<lparr>pl_create = creates, pl_update = updates @ filled, pl_delete = to_delete rs, pl_same = same, pl_left = left4\<rparr>)"

text \<open>The slices there are once the plan is carried out.\<close>

definition planned :: "plan \<Rightarrow> EndpointSlice list" where
  "planned p = pl_create p @ pl_update p @ pl_same p"

abbreviation all_endpoints :: "EndpointSlice list \<Rightarrow> Endpoint list" where
  "all_endpoints slices \<equiv> concat (map es_Endpoints slices)"

section \<open>Lemmas\<close>

subsection \<open>Covering\<close>

text \<open>An endpoint that stands for a desired one: same hash, and equal in what the hash leaves out.\<close>

definition stands_for :: "endpoint_hash \<Rightarrow> Endpoint \<Rightarrow> Endpoint \<Rightarrow> bool" where
  "stands_for H d ep \<longleftrightarrow> hashEndpoint H d = hashEndpoint H ep \<and> EndpointsEqualBeyondHash d ep"

lemma stands_for_refl [simp]: "stands_for H d d"
  by (simp add: stands_for_def)

lemma stands_for_sort [simp]: "stands_for H d (sortAddresses ep) = stands_for H d ep"
  by (simp add: stands_for_def)

lemma cover_partition:
  "coverEndpoints H eps ds = (cov, upd, left) \<Longrightarrow> key_set H ds \<Longrightarrow>
   mset (keys H cov) + mset (keys H left) = mset (keys H ds) \<and> key_set H left \<and>
   set left \<subseteq> set ds \<and> set cov \<subseteq> set ds \<and> length cov \<le> length eps"
proof (induction H eps ds arbitrary: cov upd left rule: coverEndpoints.induct)
  case (2 H ep eps ds)
  show ?case
  proof (cases "set_Get H ds ep")
    case None
    with 2 show ?thesis by (fastforce)
  next
    case (Some d)
    note d = set_Get_Some [OF Some]
    obtain cov' upd' where rec: "coverEndpoints H eps (set_Delete H ds ep) = (cov', upd', left)"
      and cov: "cov = d # cov'"
      using "2.prems"(1) Some by (auto split: prod.splits)
    have IH: "mset (keys H cov') + mset (keys H left) = mset (keys H (set_Delete H ds ep))" "key_set H left"
      "set left \<subseteq> set (set_Delete H ds ep)" "set cov' \<subseteq> set (set_Delete H ds ep)" "length cov' \<le> length eps"
      using "2.IH"(2) [OF Some rec] "2.prems"(2) by simp_all
    have "mset (keys H ds) = add_mset (hashEndpoint H ep) (mset (keys H (set_Delete H ds ep)))"
      using d "2.prems"(2) by (intro mset_keys_Delete) (auto intro: rev_image_eqI)
    with IH d set_Delete_subset [of H ds ep] show ?thesis by (auto simp: cov simp flip: IH(1))
  qed
qed simp

lemma cover_same:
  "coverEndpoints H eps ds = (cov, upd, left) \<Longrightarrow> key_set H ds \<Longrightarrow> \<not> upd \<Longrightarrow> length cov = length eps \<Longrightarrow>
   list_all2 (stands_for H) cov eps"
proof (induction H eps ds arbitrary: cov upd left rule: coverEndpoints.induct)
  case (2 H ep eps ds)
  show ?case
  proof (cases "set_Get H ds ep")
    case None
    with 2 have "length cov \<le> length eps" using cover_partition by fastforce
    with "2.prems"(4) show ?thesis by simp
  next
    case (Some d)
    note d = set_Get_Some [OF Some]
    obtain cov' upd' where rec: "coverEndpoints H eps (set_Delete H ds ep) = (cov', upd', left)"
      and cov: "cov = d # cov'" "upd \<longleftrightarrow> \<not> EndpointsEqualBeyondHash d ep \<or> upd'"
      using "2.prems"(1) Some by (auto split: prod.splits)
    with "2.IH"(2) [OF Some rec] "2.prems"(2-4) d show ?thesis by (simp add: stands_for_def)
  qed
qed simp

text \<open>A slice whose endpoints are all wanted, each once and with nothing to change, is covered as it is.\<close>

lemma cover_settled:
  "key_set H ds \<Longrightarrow> key_set H eps \<Longrightarrow> (\<And>ep. ep \<in> set eps \<Longrightarrow> \<exists>d\<in>set ds. stands_for H d ep) \<Longrightarrow>
   \<exists>cov left. coverEndpoints H eps ds = (cov, False, left) \<and> length cov = length eps \<and>
     left = filter (\<lambda>d. hashEndpoint H d \<notin> set (keys H eps)) ds"
proof (induction eps arbitrary: ds)
  case (Cons ep eps)
  from Cons.prems(3) [of ep] obtain d where d: "d \<in> set ds" "stands_for H d ep" by auto
  then have get: "set_Get H ds ep = Some d"
    using Cons.prems(1) by (intro set_Get_member) (auto simp: stands_for_def)
  have "\<exists>d\<in>set (set_Delete H ds ep). stands_for H d e" if "e \<in> set eps" for e
  proof -
    from Cons.prems(3) [of e] that obtain d' where "d' \<in> set ds" "stands_for H d' e" by auto
    moreover have "hashEndpoint H e \<noteq> hashEndpoint H ep" using Cons.prems(2) that by (auto intro: rev_image_eqI)
    ultimately show ?thesis by (auto simp: set_Delete_def stands_for_def)
  qed
  with Cons.IH [of "set_Delete H ds ep"] Cons.prems(1,2) obtain cov left where
    "coverEndpoints H eps (set_Delete H ds ep) = (cov, False, left)" "length cov = length eps"
    "left = filter (\<lambda>d. hashEndpoint H d \<notin> set (keys H eps)) (set_Delete H ds ep)"
    by auto
  with get d show ?case
    by (auto simp: stands_for_def set_Delete_def conj_commute intro!: filter_cong)
qed simp

subsection \<open>Reviewing the existing slices\<close>

fun kept :: "review \<Rightarrow> EndpointSlice list" where
  "kept (RUpdate s) = [s]"
| "kept (RUntouched s) = [s]"
| "kept (RDelete s) = []"

text \<open>A slice in order: right ports, right labels, and every endpoint stands for a desired one.\<close>

definition in_order :: "endpoint_hash \<Rightarrow> EpsService \<Rightarrow> Endpoint list \<Rightarrow> EndpointSlice \<Rightarrow> bool" where
  "in_order H service desired s \<longleftrightarrow> es_Ports s = desiredPorts service \<and> \<not> snd (ensureEndpointSliceLabels s service) \<and>
     list_all (\<lambda>ep. list_ex (\<lambda>d. stands_for H d ep) desired) (es_Endpoints s)"

lemma in_order_mono: "in_order H service ds s \<Longrightarrow> set ds \<subseteq> set ds' \<Longrightarrow> in_order H service ds' s"
  by (auto simp: in_order_def list_all_iff list_ex_iff) blast

lemma in_order_labels:
  assumes "map_of (es_Labels s) = map_of (fst (ensureEndpointSliceLabels s0 service))"
    "es_Ports s = desiredPorts service" "set (es_Endpoints s) \<subseteq> set ds"
  shows "in_order H service ds s"
  using assms ensure_labels_again [OF assms(1)] by (auto simp: in_order_def list_all_iff list_ex_iff intro: stands_for_refl)

lemma list_all2_stands:
  "list_all2 (stands_for H) cov eps \<Longrightarrow> keys H cov = keys H eps \<and> (\<forall>ep\<in>set eps. \<exists>d\<in>set cov. stands_for H d ep)"
  by (induction rule: list_all2_induct) (auto simp: stands_for_def)

lemma ensure_labels_cong: "es_Labels s = es_Labels s' \<Longrightarrow> ensureEndpointSliceLabels s service = ensureEndpointSliceLabels s' service"
  by (simp add: ensureEndpointSliceLabels_def)

lemma keys_sort [simp]: "map (hashEndpoint H \<circ> sortAddresses) eps = keys H eps"
  by (simp add: comp_def)

lemma review_ok:
  assumes "reviewSlice H service (desiredPorts service) existing ds = (r, left)" "key_set H ds"
  shows "mset (keys H (all_endpoints (kept r))) + mset (keys H left) = mset (keys H ds)"
    and "key_set H left" "set left \<subseteq> set ds" "list_all (in_order H service ds) (kept r)"
    and "list_all (\<lambda>s. length (es_Endpoints s) \<le> length (es_Endpoints existing)) (kept r)"
proof -
  obtain cov upd where c: "coverEndpoints H (es_Endpoints existing) ds = (cov, upd, left)"
    using assms(1) by (auto simp: reviewSlice_def Let_def split: prod.splits if_splits)
  note p = cover_partition [OF c assms(2)]
  let ?labels = "fst (ensureEndpointSliceLabels existing service)" and ?eps = "es_Endpoints existing"
  let ?existing = "existing\<lparr>es_Ports := desiredPorts service, es_Endpoints := map sortAddresses ?eps\<rparr>"
  consider (upd) "cov \<noteq> []" "r = RUpdate (?existing\<lparr>es_Endpoints := cov, es_Labels := ?labels\<rparr>)"
    | (del) "cov = []" "r = RDelete ?existing"
    | (same) "r = RUntouched ?existing" "es_Ports existing = desiredPorts service" "\<not> upd"
        "\<not> snd (ensureEndpointSliceLabels existing service)" "length cov = length ?eps"
    using assms(1) c unfolding reviewSlice_def Let_def by (auto split: prod.splits if_splits)
  then have "mset (keys H (all_endpoints (kept r))) + mset (keys H left) = mset (keys H ds) \<and>
      list_all (in_order H service ds) (kept r) \<and>
      list_all (\<lambda>s. length (es_Endpoints s) \<le> length ?eps) (kept r)"
  proof cases
    case upd
    then have "list_all (in_order H service ds) (kept r)"
      using p by (simp, intro in_order_labels [where ?s0.0 = existing]) simp_all
    with upd p show ?thesis by simp
  next
    case same
    have st: "keys H cov = keys H ?eps \<and> (\<forall>ep\<in>set ?eps. \<exists>d\<in>set cov. stands_for H d ep)"
      using cover_same [OF c assms(2) same(3,5)] by (rule list_all2_stands)
    then have "mset (keys H ?eps) + mset (keys H left) = mset (keys H ds)" using p by metis
    moreover have "in_order H service ds ?existing"
      using same(2,4) st p ensure_labels_cong [of ?existing existing service]
      by (fastforce simp: in_order_def list_all_iff list_ex_iff)
    ultimately show ?thesis using same(1) by simp
  qed (use p in simp)
  with p show "mset (keys H (all_endpoints (kept r))) + mset (keys H left) = mset (keys H ds)"
    "key_set H left" "set left \<subseteq> set ds" "list_all (in_order H service ds) (kept r)"
    "list_all (\<lambda>s. length (es_Endpoints s) \<le> length ?eps) (kept r)" by blast+
qed

lemma reviews_ok:
  assumes "reviewSlices H service (desiredPorts service) slices ds = (rs, left)" "key_set H ds"
    "list_all (\<lambda>s. length (es_Endpoints s) \<le> mx) slices"
  shows "mset (keys H (all_endpoints (concat (map kept rs)))) + mset (keys H left) = mset (keys H ds) \<and>
    key_set H left \<and> set left \<subseteq> set ds \<and> list_all (in_order H service ds) (concat (map kept rs)) \<and>
    list_all (\<lambda>s. length (es_Endpoints s) \<le> mx) (concat (map kept rs))"
  using assms
proof (induction slices arbitrary: ds rs left)
  case (Cons s slices)
  from Cons.prems(1) obtain r left1 rs' where r: "reviewSlice H service (desiredPorts service) s ds = (r, left1)"
    and rs: "reviewSlices H service (desiredPorts service) slices left1 = (rs', left)" "rs = r # rs'"
    by (auto split: prod.splits)
  note one = review_ok [OF r Cons.prems(2)]
  note IH = Cons.IH [OF rs(1) one(2)]
  from Cons.prems(3) have "list_all (\<lambda>s. length (es_Endpoints s) \<le> mx) slices" by simp
  note IH = IH [OF this]
  have "list_all (in_order H service ds) (concat (map kept rs'))"
    using IH in_order_mono [OF _ one(3)] by (simp add: list_all_iff)
  moreover have "list_all (\<lambda>s. length (es_Endpoints s) \<le> mx) (kept r)"
    using one(5) Cons.prems(3) by (auto simp: list_all_iff)
  moreover have "mset (keys H (all_endpoints (concat (map kept rs)))) + mset (keys H left) =
      mset (keys H (all_endpoints (kept r))) + (mset (keys H (all_endpoints (concat (map kept rs')))) + mset (keys H left))"
    by (simp add: rs(2) ac_simps)
  then have "mset (keys H (all_endpoints (concat (map kept rs)))) + mset (keys H left) = mset (keys H ds)"
    using IH one(1) by metis
  ultimately show ?case using IH one by (auto simp: rs(2))
qed simp

text \<open>The kept slices are those to update and the untouched ones.\<close>

lemma kept_split: "mset (concat (map kept rs)) = mset (to_update rs) + mset (untouched rs)"
proof (induction rs)
  case (Cons r rs)
  then show ?case by (cases r) (simp_all add: to_update_def untouched_def map_filter_simps)
qed (simp add: to_update_def untouched_def map_filter_simps)

subsection \<open>Filling\<close>

lemma fillEndpoints_ok:
  "fillEndpoints H pick mx eps ds = (eps', left) \<Longrightarrow> key_set H ds \<Longrightarrow>
   mset (keys H eps') + mset (keys H left) = mset (keys H eps) + mset (keys H ds) \<and> key_set H left \<and>
   set left \<subseteq> set ds \<and> set eps' \<subseteq> set eps \<union> set ds \<and> (length eps \<le> mx \<longrightarrow> length eps' \<le> mx) \<and>
   (left = [] \<or> mx \<le> length eps')"
proof (induction H pick mx eps ds arbitrary: eps' left rule: fillEndpoints.induct)
  case (1 H pick mx eps ds)
  show ?case
  proof (cases "length eps < mx \<and> ds \<noteq> []")
    case True
    then obtain ep rest where pop: "set_PopAny H pick ds = Some (ep, rest)"
      by (auto simp: set_PopAny_def Let_def)
    note ep = set_PopAny_Some [OF pop]
    have fill: "fillEndpoints H pick mx (eps @ [ep]) rest = (eps', left)"
      using "1.prems"(1) True pop by (subst (asm) fillEndpoints.simps) simp
    have "key_set H rest" using "1.prems"(2) ep(2) by simp
    note IH = "1.IH" [OF conjunct1 [OF True] pop refl fill this]
    have "mset (keys H ds) = add_mset (hashEndpoint H ep) (mset (keys H rest))"
      unfolding ep(2) using "1.prems"(2) ep(1) by (intro mset_keys_Delete) auto
    with IH ep set_Delete_subset [of H ds ep] True show ?thesis by auto
  next
    case False
    with "1.prems" have "(eps', left) = (eps, ds)" "\<not> length eps < mx \<or> ds = []"
      by (auto simp: set_PopAny_def fillEndpoints.simps [of H pick mx eps ds] split: if_splits)
    with "1.prems"(2) show ?thesis by auto
  qed
qed

text \<open>What filling keeps of a list of slices, and when it leaves endpoints over.\<close>

lemma fillSlice_ok:
  assumes "fillSlice H pick mx s ds = (s', left)" "key_set H ds" "set ds \<subseteq> set D" "in_order H service D s"
  shows "mset (keys H (es_Endpoints s')) + mset (keys H left) = mset (keys H (es_Endpoints s)) + mset (keys H ds) \<and>
    key_set H left \<and> set left \<subseteq> set ds \<and> in_order H service D s' \<and>
    (length (es_Endpoints s) \<le> mx \<longrightarrow> length (es_Endpoints s') \<le> mx) \<and> (left = [] \<or> mx \<le> length (es_Endpoints s'))"
proof -
  obtain eps' where f: "fillEndpoints H pick mx (es_Endpoints s) ds = (eps', left)" and s': "s' = s\<lparr>es_Endpoints := eps'\<rparr>"
    using assms(1) by (auto simp: fillSlice_def split: prod.splits)
  note ok = fillEndpoints_ok [OF f assms(2)]
  have "list_ex (\<lambda>d. stands_for H d ep) D" if "ep \<in> set eps'" for ep
  proof -
    have "ep \<in> set (es_Endpoints s) \<or> ep \<in> set D" using that ok assms(3) by blast
    then show ?thesis using assms(4) by (auto simp: in_order_def list_all_iff list_ex_iff intro: bexI [where x = ep])
  qed
  with assms(4) ensure_labels_cong [of s' s service] have "in_order H service D s'"
    by (simp add: in_order_def s' list_all_iff)
  with ok show ?thesis by (simp add: s')
qed

lemma fillSlices_ok:
  assumes "fillSlices H pick mx slices ds = (slices', left)" "key_set H ds" "set ds \<subseteq> set D"
    "list_all (in_order H service D) slices"
  shows "mset (keys H (all_endpoints slices')) + mset (keys H left) = mset (keys H (all_endpoints slices)) + mset (keys H ds) \<and>
    key_set H left \<and> set left \<subseteq> set ds \<and> list_all (in_order H service D) slices' \<and>
    (list_all (\<lambda>s. length (es_Endpoints s) \<le> mx) slices \<longrightarrow> list_all (\<lambda>s. length (es_Endpoints s) \<le> mx) slices') \<and>
    (left = [] \<or> list_all (\<lambda>s. mx \<le> length (es_Endpoints s)) slices')"
  using assms
proof (induction slices arbitrary: ds slices' left)
  case (Cons s slices)
  from Cons.prems(1) obtain s' left1 rest where s: "fillSlice H pick mx s ds = (s', left1)"
    and rest: "fillSlices H pick mx slices left1 = (rest, left)" "slices' = s' # rest"
    by (auto split: prod.splits)
  from Cons.prems(4) have "in_order H service D s" "list_all (in_order H service D) slices" by simp_all
  note one = fillSlice_ok [OF s Cons.prems(2,3) this(1)] and more = Cons.IH [OF rest(1) _ _ this(2)]
  with Cons.prems(3) have IH: "mset (keys H (all_endpoints rest)) + mset (keys H left) = mset (keys H (all_endpoints slices)) + mset (keys H left1)"
    "key_set H left" "set left \<subseteq> set left1" "list_all (in_order H service D) rest"
    "list_all (\<lambda>s. length (es_Endpoints s) \<le> mx) slices \<longrightarrow> list_all (\<lambda>s. length (es_Endpoints s) \<le> mx) rest"
    "left = [] \<or> list_all (\<lambda>s. mx \<le> length (es_Endpoints s)) rest"
    by blast+
  have "mset (keys H (all_endpoints slices')) + mset (keys H left)
      = mset (keys H (es_Endpoints s')) + (mset (keys H (all_endpoints rest)) + mset (keys H left))"
    by (simp add: rest(2) ac_simps)
  also have "\<dots> = mset (keys H (all_endpoints (s # slices))) + mset (keys H ds)"
    unfolding IH(1) using one by (simp add: ac_simps)
  finally show ?case using IH(2-6) one by (auto simp: rest(2))
qed simp

text \<open>The new slice.\<close>

lemma newSlice_in_order:
  "in_order H service D ((newSlice service (desiredPorts service) t)
     \<lparr>es_Labels := fst (ensureEndpointSliceLabels (newSlice service (desiredPorts service) t) service)\<rparr>)"
  by (rule in_order_labels [where ?s0.0 = "newSlice service (desiredPorts service) t"]) (simp_all add: newSlice_def)

subsection \<open>The whole plan\<close>

text \<open>
  The invariant of the stages of a plan: the desired endpoints are distributed over the slices and
  the rest, each once, every slice is in order, and none exceeds the limit if none did before.
\<close>

definition staged ::
  "endpoint_hash \<Rightarrow> nat \<Rightarrow> EpsService \<Rightarrow> Endpoint list \<Rightarrow> EndpointSlice list \<Rightarrow> EndpointSlice list \<Rightarrow> Endpoint list \<Rightarrow> bool" where
  "staged H mx service D existing slices left \<longleftrightarrow>
     mset (keys H (all_endpoints slices)) + mset (keys H left) = mset (keys H D) \<and>
     key_set H left \<and> set left \<subseteq> set D \<and> list_all (in_order H service D) slices \<and>
     (list_all (\<lambda>s. length (es_Endpoints s) \<le> mx) existing \<longrightarrow> list_all (\<lambda>s. length (es_Endpoints s) \<le> mx) slices)"

lemma all_endpoints_mset:
  "mset slices = mset slices' \<Longrightarrow> mset (keys H (all_endpoints slices)) = mset (keys H (all_endpoints slices'))"
  by (simp add: mset_concat flip: sum_mset_sum_list)

lemma list_all_mset: "mset xs = mset ys \<Longrightarrow> list_all P xs = list_all P ys"
  by (metis Ball_set set_mset_mset)

lemma staged_perm:
  "staged H mx service D existing slices left \<Longrightarrow> mset slices' = mset slices \<Longrightarrow> staged H mx service D existing slices' left"
  unfolding staged_def by (simp only: all_endpoints_mset [of slices' slices] list_all_mset [of slices' slices]) blast

lemma staged_review:
  assumes "reviewSlices H service (desiredPorts service) existing D = (rs, left)" "key_set H D"
  shows "staged H mx service D existing (untouched rs @ to_update rs) left"
proof (rule staged_perm)
  have "staged H mx service D existing (concat (map kept rs)) left" if "list_all (\<lambda>s. length (es_Endpoints s) \<le> mx) existing"
    using reviews_ok [OF assms that] by (simp add: staged_def)
  moreover have "list_all (\<lambda>s. length (es_Endpoints s) \<le> Max (set (map (\<lambda>s. length (es_Endpoints s)) existing))) existing"
    by (simp add: list_all_iff)
  from reviews_ok [OF assms this] have "staged H mx service D existing (concat (map kept rs)) left"
    if "\<not> list_all (\<lambda>s. length (es_Endpoints s) \<le> mx) existing"
    using that by (simp add: staged_def)
  ultimately show "staged H mx service D existing (concat (map kept rs)) left" by blast
  show "mset (untouched rs @ to_update rs) = mset (concat (map kept rs))"
    by (simp add: kept_split ac_simps)
qed

lemma staged_fill:
  assumes "staged H mx service D existing (a @ b) left" "fillSlices H pick mx b left = (b', left')"
  shows "staged H mx service D existing (b' @ a) left' \<and> (left' = [] \<or> list_all (\<lambda>s. mx \<le> length (es_Endpoints s)) b')"
proof -
  from assms(1) have "key_set H left" "set left \<subseteq> set D" "list_all (in_order H service D) b"
    by (simp_all add: staged_def)
  note ok = fillSlices_ok [OF assms(2) this]
  have "mset (keys H (all_endpoints (b' @ a))) + mset (keys H left') =
      mset (keys H (all_endpoints a)) + (mset (keys H (all_endpoints b')) + mset (keys H left'))"
    by (simp add: ac_simps)
  also have "\<dots> = mset (keys H (all_endpoints (a @ b))) + mset (keys H left)"
    using ok by (simp add: ac_simps)
  also have "\<dots> = mset (keys H D)" using assms(1) by (simp add: staged_def)
  finally show ?thesis using ok assms(1) by (auto simp: staged_def)
qed

lemma staged_new:
  assumes "staged H mx service D existing slices left" "in_order H service D s" "es_Endpoints s = []"
    "fillSlice H pick mx s left = (s', left')"
  shows "staged H mx service D existing (s' # slices) left' \<and> (left' = [] \<or> mx \<le> length (es_Endpoints s'))"
proof -
  from assms(1) have "key_set H left" "set left \<subseteq> set D" by (simp_all add: staged_def)
  note ok = fillSlice_ok [OF assms(4) this assms(2)]
  have "mset (keys H (all_endpoints (s' # slices))) + mset (keys H left') =
      mset (keys H (all_endpoints slices)) + (mset (keys H (es_Endpoints s')) + mset (keys H left'))"
    by (simp add: ac_simps)
  also have "\<dots> = mset (keys H D)" using ok assms(1,3) by (simp add: staged_def)
  finally show ?thesis using ok assms(1,3) by (auto simp: staged_def)
qed

text \<open>Filling from the empty set changes nothing.\<close>

lemma fillSlices_nil [simp]: "fillSlices H pick mx slices [] = (slices, [])"
proof -
  have "fillEndpoints H pick mx eps [] = (eps, [])" for eps
    by (subst fillEndpoints.simps) (simp add: set_PopAny_def)
  then show ?thesis by (induction slices) (simp_all add: fillSlice_def)
qed

text \<open>The lists of a plan in terms of the results of its stages.\<close>

lemma planSlices_eq:
  assumes "reviewSlices H service (desiredPorts service) existing (set_Insert H [] des) = (rs, l1)"
    and ups: "fillSlices H pick mx (to_update rs) l1 = (ups, l2)"
    and us: "fillSlices H pick mx (untouched rs) l2 = (us, l3)"
    and s: "fillSlice H pick mx ((newSlice service (desiredPorts service) t)
      \<lparr>es_Labels := fst (ensureEndpointSliceLabels (newSlice service (desiredPorts service) t) service)\<rparr>) l3 = (s, l4)"
  shows "planSlices H pick mx service des existing t =
    \<lparr>pl_create = (if l3 = [] then [] else [s]), pl_update = ups @ (if l2 = [] then [] else us),
     pl_delete = to_delete rs, pl_same = (if l2 = [] then untouched rs else []), pl_left = (if l3 = [] then [] else l4)\<rparr>"
  unfolding planSlices_def Let_def assms(1) using ups us s
  by (cases "l1 = []"; cases "l2 = []"; cases "l3 = []") (auto simp: Let_def)

text \<open>If something is left over, every planned slice is full and one of them is new.\<close>

lemma planSlices_ok:
  fixes H pick mx service des existing t
  defines "p \<equiv> planSlices H pick mx service des existing t" and "D \<equiv> set_Insert H [] des"
  shows "staged H mx service D existing (planned p) (pl_left p)"
    and "pl_left p \<noteq> [] \<Longrightarrow> pl_create p \<noteq> [] \<and> list_all (\<lambda>s. mx \<le> length (es_Endpoints s)) (planned p)"
proof -
  let ?S = "staged H mx service D existing" and ?full = "list_all (\<lambda>s. mx \<le> length (es_Endpoints s))"
  let ?new = "newSlice service (desiredPorts service) t"
  have D: "key_set H D" unfolding D_def by (rule key_set_Insert) simp
  obtain rs l1 where rs: "reviewSlices H service (desiredPorts service) existing D = (rs, l1)" by fastforce
  obtain ups l2 where ups: "fillSlices H pick mx (to_update rs) l1 = (ups, l2)" by fastforce
  obtain us l3 where us: "fillSlices H pick mx (untouched rs) l2 = (us, l3)" by fastforce
  obtain s l4 where s: "fillSlice H pick mx (?new\<lparr>es_Labels := fst (ensureEndpointSliceLabels ?new service)\<rparr>) l3 = (s, l4)"
    by fastforce
  have st2: "?S (ups @ untouched rs) l2 \<and> (l2 = [] \<or> ?full ups)"
    using staged_fill [OF staged_review [OF rs D] ups] .
  then have st3: "?S (us @ ups) l3 \<and> (l3 = [] \<or> ?full us)"
    using staged_fill [OF _ us] by blast
  then have st4: "?S (s # us @ ups) l4 \<and> (l4 = [] \<or> mx \<le> length (es_Endpoints s))"
    using staged_new [OF _ newSlice_in_order _ s] by (auto simp: newSlice_def)
  have l23: "l2 = [] \<Longrightarrow> l3 = [] \<and> us = untouched rs" using us by simp
  have p: "p = \<lparr>pl_create = (if l3 = [] then [] else [s]), pl_update = ups @ (if l2 = [] then [] else us),
      pl_delete = to_delete rs, pl_same = (if l2 = [] then untouched rs else []), pl_left = (if l3 = [] then [] else l4)\<rparr>"
    unfolding p_def using rs ups us s by (intro planSlices_eq) (simp_all add: D_def)
  show "?S (planned p) (pl_left p)"
  proof (cases "l3 = []")
    case True
    have "mset (planned p) = mset (us @ ups)" using True l23 by (cases "l2 = []") (auto simp: p planned_def ac_simps)
    then show ?thesis using staged_perm [of H mx service D existing "us @ ups" "[]" "planned p"] st3 True by (simp add: p)
  next
    case False
    then have "mset (planned p) = mset (s # us @ ups)" using l23 by (auto simp: p planned_def ac_simps)
    then show ?thesis using staged_perm [of H mx service D existing "s # us @ ups" l4 "planned p"] st4 False by (simp add: p)
  qed
  assume "pl_left p \<noteq> []"
  then have "l3 \<noteq> []" "l4 \<noteq> []" "l2 \<noteq> []" using l23 by (auto simp: p split: if_splits)
  then show "pl_create p \<noteq> [] \<and> ?full (planned p)" using st2 st3 st4 by (simp add: p planned_def)
qed

subsection \<open>Nothing left to do\<close>

text \<open>Slices that are in order and hold every desired endpoint once.\<close>

definition settled :: "endpoint_hash \<Rightarrow> EpsService \<Rightarrow> Endpoint list \<Rightarrow> EndpointSlice list \<Rightarrow> bool" where
  "settled H service D slices \<longleftrightarrow>
     list_all (in_order H service D) slices \<and> mset (keys H (all_endpoints slices)) = mset (keys H D)"

lemma review_settled:
  assumes "key_set H ds" "key_set H (es_Endpoints s)" "in_order H service ds s"
  shows "\<exists>s'. reviewSlice H service (desiredPorts service) s ds =
    (RUntouched s', filter (\<lambda>d. hashEndpoint H d \<notin> set (keys H (es_Endpoints s))) ds)"
proof -
  have "\<exists>d\<in>set ds. stands_for H d ep" if "ep \<in> set (es_Endpoints s)" for ep
    using assms(3) that by (auto simp: in_order_def list_all_iff list_ex_iff)
  from cover_settled [OF assms(1,2) this] assms(3) show ?thesis
    by (auto simp: reviewSlice_def in_order_def Let_def split: prod.splits)
qed

lemma reviews_settled:
  "key_set H ds \<Longrightarrow> key_set H (all_endpoints slices) \<Longrightarrow> list_all (in_order H service ds) slices \<Longrightarrow>
   \<exists>ss. reviewSlices H service (desiredPorts service) slices ds =
     (map RUntouched ss, filter (\<lambda>d. hashEndpoint H d \<notin> set (keys H (all_endpoints slices))) ds)"
proof (induction slices arbitrary: ds)
  case (Cons s slices)
  let ?left = "filter (\<lambda>d. hashEndpoint H d \<notin> set (keys H (es_Endpoints s))) ds"
  from Cons.prems obtain s' where s': "reviewSlice H service (desiredPorts service) s ds = (RUntouched s', ?left)"
    using review_settled [of H ds s service] by auto
  have "in_order H service ?left x" if x: "x \<in> set slices" for x
  proof -
    have "list_ex (\<lambda>d. stands_for H d ep) ?left" if "ep \<in> set (es_Endpoints x)" for ep
    proof -
      from Cons.prems(3) x have "in_order H service ds x" by (simp add: list_all_iff)
      with that obtain d where "d \<in> set ds" "stands_for H d ep"
        unfolding in_order_def list_all_iff list_ex_iff by blast
      moreover have "hashEndpoint H ep \<in> set (keys H (all_endpoints slices))" using x that by auto
      then have "hashEndpoint H ep \<notin> set (keys H (es_Endpoints s))" using Cons.prems(2) by auto
      ultimately have "d \<in> set ?left" by (auto simp: stands_for_def)
      with \<open>stands_for H d ep\<close> show ?thesis unfolding list_ex_iff by blast
    qed
    with Cons.prems(3) x show ?thesis by (auto simp: in_order_def list_all_iff)
  qed
  with Cons.IH [of ?left] Cons.prems(1,2) obtain ss where
    "reviewSlices H service (desiredPorts service) slices ?left =
      (map RUntouched ss, filter (\<lambda>d. hashEndpoint H d \<notin> set (keys H (all_endpoints slices))) ?left)"
    by (auto simp: list_all_iff distinct_map_filter)
  with s' show ?case
    by (auto intro!: exI [of _ "s' # ss"] filter_cong simp: conj_commute)
qed auto

lemma settled_no_change:
  assumes "settled H service (set_Insert H [] des) slices"
  shows "pl_create (planSlices H pick mx service des slices t) = [] \<and>
    pl_update (planSlices H pick mx service des slices t) = [] \<and> pl_delete (planSlices H pick mx service des slices t) = []"
proof -
  let ?D = "set_Insert H [] des"
  have D: "key_set H ?D" by (rule key_set_Insert) simp
  moreover from assms have eq: "mset (keys H (all_endpoints slices)) = mset (keys H ?D)" by (simp add: settled_def)
  then have "key_set H (all_endpoints slices)" using D by (metis mset_eq_imp_distinct_iff)
  ultimately obtain ss where "reviewSlices H service (desiredPorts service) slices ?D =
      (map RUntouched ss, filter (\<lambda>d. hashEndpoint H d \<notin> set (keys H (all_endpoints slices))) ?D)"
    using reviews_settled assms unfolding settled_def by blast
  moreover have "set (keys H (all_endpoints slices)) = set (keys H ?D)" using eq by (metis set_mset_mset)
  then have "filter (\<lambda>d. hashEndpoint H d \<notin> set (keys H (all_endpoints slices))) ?D = []"
    by (auto simp: filter_empty_conv)
  moreover have "to_update (map RUntouched ss) = []" "to_delete (map RUntouched ss) = []"
    by (induction ss) (simp_all add: to_update_def to_delete_def map_filter_simps)
  ultimately show ?thesis by (simp add: planSlices_def Let_def)
qed

text \<open>The API server names the created slices; nothing in a plan depends on the names.\<close>

definition unnamed :: "EndpointSlice \<Rightarrow> EndpointSlice" where
  "unnamed s = s\<lparr>es_Name := '''', es_GenerateName := ''''\<rparr>"

lemma all_endpoints_unnamed: "all_endpoints (map unnamed slices) = all_endpoints slices"
  by (simp add: unnamed_def comp_def)

lemma list_all_unnamed: "list_all (in_order H service D) (map unnamed slices) = list_all (in_order H service D) slices"
proof -
  have "in_order H service D (unnamed s) = in_order H service D s" for s
    using ensure_labels_cong [of "unnamed s" s service] by (simp add: in_order_def unnamed_def)
  then show ?thesis by (simp add: list_all_iff)
qed

lemma settled_unnamed: "settled H service D (map unnamed slices) = settled H service D slices"
  unfolding settled_def all_endpoints_unnamed list_all_unnamed ..

lemma settled_mset: "mset slices = mset slices' \<Longrightarrow> settled H service D slices = settled H service D slices'"
  unfolding settled_def by (simp only: all_endpoints_mset [of slices slices'] list_all_mset [of slices slices'])

text \<open>Without existing slices the plan is one new slice, filled to the limit.\<close>

lemma plan_one_create: "length (pl_create (planSlices H pick mx service des existing t)) \<le> 1"
  by (auto simp: planSlices_def Let_def split: prod.splits)

lemma plan_left_length:
  "length (pl_left (planSlices H pick mx service des [] t)) = length (set_Insert H [] des) - mx"
proof -
  let ?p = "planSlices H pick mx service des [] t" and ?D = "set_Insert H [] des"
  note ok = planSlices_ok [where H = H and pick = pick and mx = mx and service = service and des = des and existing = "[]" and t = t]
  have new: "planned ?p = pl_create ?p"
    by (auto simp: planSlices_def planned_def to_update_def untouched_def map_filter_simps Let_def split: prod.splits)
  then have "length (all_endpoints (planned ?p)) \<le> mx"
    using ok(1) plan_one_create [of H pick mx service des "[]" t] by (cases "pl_create ?p") (auto simp: staged_def)
  moreover have "mx \<le> length (all_endpoints (planned ?p))" if "pl_left ?p \<noteq> []"
    using ok(2) [OF that] new by (cases "pl_create ?p") auto
  moreover have "length (all_endpoints (planned ?p)) + length (pl_left ?p) = length ?D"
    using ok(1) unfolding staged_def by (metis length_map mset_append size_mset length_append)
  ultimately show ?thesis by (cases "pl_left ?p = []") auto
qed

lemma plan_places_all:
  assumes "length (set_Insert H [] des) \<le> mx"
  shows "pl_left (planSlices H pick mx service des existing t) = []"
proof (rule ccontr)
  let ?p = "planSlices H pick mx service des existing t"
  note ok = planSlices_ok [where H = H and pick = pick and mx = mx and service = service and des = des and existing = existing and t = t]
  assume left: "pl_left ?p \<noteq> []"
  with ok(2) obtain s rest where "planned ?p = s # rest" "mx \<le> length (es_Endpoints s)"
    by (cases "pl_create ?p") (auto simp: planned_def)
  moreover have "length (all_endpoints (planned ?p)) + length (pl_left ?p) = length (set_Insert H [] des)"
    using ok(1) unfolding staged_def by (metis length_map mset_append size_mset length_append)
  ultimately show False using left assms by (cases "pl_left ?p") auto
qed

lemma planned_settled:
  assumes "pl_left (planSlices H pick mx service des existing t) = []"
  shows "settled H service (set_Insert H [] des) (planned (planSlices H pick mx service des existing t))"
  using planSlices_ok(1) [of H mx service des existing pick t] assms by (simp add: staged_def settled_def)

section \<open>A concrete service\<close>

definition demo_hash :: endpoint_hash where
  "demo_hash ho = concat (ho_Addresses ho)"

definition infra_service :: EpsService where
  "infra_service = \<lparr>sv_Name = ''lb'', sv_Namespace = ''infra'', sv_UID = ''u1'', sv_Labels = [],
     sv_DeletionTimestamp = None, sv_Type = ''LoadBalancer'', sv_Selector = None, sv_IPFamilies = [''IPv4''],
     sv_ClusterIP = ''10.96.0.9'', sv_ExternalTrafficPolicy = ''Local'',
     sv_Ports = [\<lparr>sp_Name = ''web'', sp_Protocol = ''TCP'', sp_TargetPort = 30080\<rparr>]\<rparr>"

definition node_endpoint :: "string \<Rightarrow> string \<Rightarrow> Endpoint" where
  "node_endpoint ip node = \<lparr>ep_Addresses = [ip], ep_Ready = Some True, ep_Serving = Some True, ep_Terminating = Some False,
     ep_Hostname = None, ep_TargetRef = None, ep_NodeName = Some node, ep_Zone = None\<rparr>"

definition demo_nodes :: "Endpoint list" where
  "demo_nodes = [node_endpoint ''10.0.0.1'' ''n1'', node_endpoint ''10.0.0.2'' ''n2'']"

abbreviation demo_plan :: "EndpointSlice list \<Rightarrow> plan" where
  "demo_plan existing \<equiv> planSlices demo_hash (\<lambda>_. 0) 100 infra_service demo_nodes existing AddressTypeIPv4"

lemma demo_desired:
  "set_Insert demo_hash [] demo_nodes = demo_nodes" "keys demo_hash demo_nodes = [''10.0.0.1'', ''10.0.0.2'']"
  by (simp_all add: set_Insert_def set_Delete_def sortAddresses_def hashEndpoint_def demo_hash_def node_endpoint_def
      demo_nodes_def)

section \<open>Properties\<close>

text \<open>
  C5. A plan distributes the desired endpoints: every desired endpoint (by hash) is in exactly one
  of the slices there are after the plan, and these hold nothing else, as long as there are no more
  desired endpoints than one slice may hold. Every such slice has the ports and labels of the
  service and only endpoints equal to desired ones, and no slice exceeds the limit that none
  exceeded before.
\<close>

theorem plan_distributes:
  assumes "length (set_Insert H [] des) \<le> mx" "list_all (\<lambda>s. length (es_Endpoints s) \<le> mx) existing"
    and p_def: "p = planSlices H pick mx service des existing t"
  shows "mset (keys H (all_endpoints (planned p))) = mset (keys H (set_Insert H [] des)) \<and>
    key_set H (all_endpoints (planned p)) \<and>
    list_all (in_order H service (set_Insert H [] des)) (planned p) \<and>
    list_all (\<lambda>s. length (es_Endpoints s) \<le> mx) (planned p)"
proof -
  let ?D = "set_Insert H [] des"
  note ok = planSlices_ok [where H = H and pick = pick and mx = mx and service = service and des = des and existing = existing and t = t, folded p_def]
  from plan_places_all [OF assms(1)] ok(1) assms(2,3) have eq: "mset (keys H (all_endpoints (planned p))) = mset (keys H ?D)"
    and rest: "list_all (in_order H service ?D) (planned p)" "list_all (\<lambda>s. length (es_Endpoints s) \<le> mx) (planned p)"
    by (simp_all add: staged_def)
  have "key_set H ?D" by (rule key_set_Insert) simp
  with eq rest show ?thesis using mset_eq_imp_distinct_iff by blast
qed

theorem plan_distributes_witness:
  "mset (keys demo_hash (all_endpoints (planned (demo_plan [])))) = {#''10.0.0.1'', ''10.0.0.2''#}"
proof -
  have "length (set_Insert demo_hash [] demo_nodes) \<le> 100" "list_all (\<lambda>s. length (es_Endpoints s) \<le> 100) ([] :: EndpointSlice list)"
    by (simp_all add: demo_desired(1)) (simp add: demo_nodes_def)
  from plan_distributes [OF this refl, of "\<lambda>_. 0" infra_service AddressTypeIPv4] show ?thesis
    unfolding demo_desired by simp
qed

text \<open>
  Reconciling converges: when a plan that placed every endpoint has been carried out, a later
  plan for the same desired endpoints creates, updates and deletes nothing, whatever names the API
  server gave the slices, in whatever order it lists them, and however the iteration over the set
  of endpoints goes.
\<close>

lemma plan_converges:
  assumes "pl_left (planSlices H pick mx service des existing t) = []"
    and "mset (map unnamed slices) = mset (map unnamed (planned (planSlices H pick mx service des existing t)))"
  shows "pl_create (planSlices H pick' mx service des slices t') = [] \<and>
    pl_update (planSlices H pick' mx service des slices t') = [] \<and>
    pl_delete (planSlices H pick' mx service des slices t') = []"
  using settled_no_change planned_settled [OF assms(1)] settled_mset [OF assms(2)] by (simp add: settled_unnamed)

text \<open>
  C36. Endpoints beyond one new slice are dropped: for a service without slices the plan creates one
  slice, and of the desired endpoints exactly those beyond the limit are left without a place.
\<close>

theorem plan_drops:
  "length (pl_create (planSlices H pick mx service des [] t)) \<le> 1 \<and>
   length (pl_left (planSlices H pick mx service des [] t)) = length (set_Insert H [] des) - mx"
  using plan_one_create plan_left_length by blast

end
