(* ===== verification/EPS_Controller.thy ===== *)
theory EPS_Controller
  imports EPS_Plan Provider_Config
begin

text \<open>
  The endpoint slice controller of \<^verbatim>\<open>pkg/controller/kubevirteps/kubevirteps_controller.go\<close>: the
  informer callbacks, the work queue, and the reconcile of one Service. The state is the register
  of the tracker, the queue and a history of the calls to the API servers; every answer of an API
  server, of a lister and of the iteration over a Go map is a function of the state, fixed by the
  environment. Requests in the queue are pointers and are identified by a number.
\<close>

section \<open>State and environment\<close>

datatype ReqType = AddReq | UpdateReq | DeleteReq

text \<open>The \<^verbatim>\<open>interface{}\<close> in a request: a \<^verbatim>\<open>*v1.Service\<close>, which may be nil, or something else.\<close>

datatype req_obj = ObjService "EpsService option" | ObjOther

record Request =
  rq_Type :: ReqType
  rq_Obj :: req_obj
  rq_OldObj :: "req_obj option"

datatype ecall =
    EListInfra string string "goerror + EndpointSlice list"
  | EListTenant string string "goerror + EndpointSlice list"
  | EListServices string string "goerror + EpsService list"
  | EGetService string string "goerror + EpsService"
  | ELister string string "goerror + EpsService"
  | EGetVMI string string "goerror + VirtualMachineInstance option"
  | ECreate string EndpointSlice "goerror + EndpointSlice"
  | EUpdate string EndpointSlice "goerror option"
  | EDelete string string "goerror option"
  | EAttempt nat

record est =
  ecalls :: "ecall list"
  register :: "namespaced_name list"
  q_items :: "(nat \<times> Request) list"
  q_delayed :: "(nat \<times> Request) list"
  q_failures :: "nat \<Rightarrow> nat"
  q_next :: nat
  q_shutdown :: bool

text \<open>
  The dynamic client's answer for a virtual machine instance is \<^term>\<open>Inr None\<close> when the object
  cannot be converted. \<open>ee_pick\<close> and \<open>ee_swap\<close> are the iteration orders over the set of endpoints
  and over the set of address types.
\<close>

record eps_env =
  ee_hash :: endpoint_hash
  ee_IsIPv6String :: "string \<Rightarrow> bool"
  ee_pick :: "est \<Rightarrow> Endpoint list \<Rightarrow> nat"
  ee_swap :: "est \<Rightarrow> bool"
  ee_infra_EPS_List :: "est \<Rightarrow> string \<Rightarrow> string \<Rightarrow> goerror + EndpointSlice list"
  ee_tenant_EPS_List :: "est \<Rightarrow> string \<Rightarrow> string \<Rightarrow> goerror + EndpointSlice list"
  ee_Services_List :: "est \<Rightarrow> string \<Rightarrow> string \<Rightarrow> goerror + EpsService list"
  ee_Services_Get :: "est \<Rightarrow> string \<Rightarrow> string \<Rightarrow> goerror + EpsService"
  ee_Lister_Get :: "est \<Rightarrow> string \<Rightarrow> string \<Rightarrow> goerror + EpsService"
  ee_VMI_Get :: "est \<Rightarrow> string \<Rightarrow> string \<Rightarrow> goerror + VirtualMachineInstance option"
  ee_EPS_Create :: "est \<Rightarrow> string \<Rightarrow> EndpointSlice \<Rightarrow> goerror + EndpointSlice"
  ee_EPS_Update :: "est \<Rightarrow> string \<Rightarrow> EndpointSlice \<Rightarrow> goerror option"
  ee_EPS_Delete :: "est \<Rightarrow> string \<Rightarrow> string \<Rightarrow> goerror option"

definition init_est :: est where
  "init_est = \<lparr>ecalls = [], register = [], q_items = [], q_delayed = [], q_failures = (\<lambda>_. 0), q_next = 0, q_shutdown = False\<rparr>"

record Controller =
  ct_infraNamespace :: string
  ct_maxRetries :: nat
  ct_maxEndPointsPerSlice :: nat

definition NewKubevirtEPSController :: "string \<Rightarrow> Controller" where
  "NewKubevirtEPSController infraNamespace =
     \<lparr>ct_infraNamespace = infraNamespace, ct_maxRetries = 25, ct_maxEndPointsPerSlice = 100\<rparr>"

definition eask :: "(est \<Rightarrow> 'r) \<Rightarrow> ('r \<Rightarrow> ecall) \<Rightarrow> (est, 'r) go" where
  "eask f ev = (\<lambda>s. Some (Val (f s), s\<lparr>ecalls := ecalls s @ [ev (f s)]\<rparr>))"

section \<open>The queue\<close>

definition newRequest :: "ReqType \<Rightarrow> req_obj \<Rightarrow> req_obj option \<Rightarrow> Request" where
  "newRequest reqType obj oldObj = \<lparr>rq_Type = reqType, rq_Obj = obj, rq_OldObj = oldObj\<rparr>"

text \<open>\<^verbatim>\<open>queue.Add\<close> of a fresh pointer; a queue that was shut down ignores it.\<close>

definition queue_Add :: "Request \<Rightarrow> (est, unit) go" where
  "queue_Add r = go_modify (\<lambda>s. if q_shutdown s then s
     else s\<lparr>q_items := q_items s @ [(q_next s, r)], q_next := q_next s + 1\<rparr>)"

text \<open>\<^verbatim>\<open>queue.Get\<close> blocks for ever on a queue that stays empty; \<^term>\<open>None\<close> is quit.\<close>

definition queue_Get :: "(est, (nat \<times> Request) option) go" where
  "queue_Get = (\<lambda>s. case q_items s of
       [] \<Rightarrow> if q_shutdown s then Some (Val None, s) else None
     | (i, r) # items \<Rightarrow> Some (Val (Some (i, r)), s\<lparr>q_items := items, ecalls := ecalls s @ [EAttempt i]\<rparr>))"

definition queue_Forget :: "nat \<Rightarrow> (est, unit) go" where
  "queue_Forget i = go_modify (\<lambda>s. s\<lparr>q_failures := (q_failures s)(i := 0)\<rparr>)"

text \<open>
  \<^verbatim>\<open>queue.AddRateLimited\<close>: the rate limiter counts the failure, and unless the queue was shut down
  the item comes back later.
\<close>

definition queue_AddRateLimited :: "nat \<times> Request \<Rightarrow> (est, unit) go" where
  "queue_AddRateLimited ir = go_modify (\<lambda>s. s\<lparr>q_failures := (q_failures s)(fst ir := q_failures s (fst ir) + 1),
     q_delayed := (if q_shutdown s then q_delayed s else q_delayed s @ [ir])\<rparr>)"

section \<open>Lookups\<close>

definition getInfraServiceForEPS :: "eps_env \<Rightarrow> Controller \<Rightarrow> EndpointSlice \<Rightarrow> (est, goerror + EpsService option) go" where
  "getInfraServiceForEPS e c eps =
     (let svcName = lget (es_Labels eps) LabelServiceName
      in if svcName = '''' then go_ret (Inr None)
         else go_bind (eask (\<lambda>s. ee_Services_Get e s (ct_infraNamespace c) svcName) (EGetService (ct_infraNamespace c) svcName))
           (\<lambda>r. case r of
               Inl err \<Rightarrow> if IsNotFound err then go_ret (Inr None) else go_ret (Inl err)
             | Inr svc \<Rightarrow> go_ret (Inr (Some svc))))"

definition getInfraServiceFromTenantEPS :: "eps_env \<Rightarrow> Controller \<Rightarrow> EndpointSlice \<Rightarrow> (est, goerror + EpsService option) go" where
  "getInfraServiceFromTenantEPS e c slc =
     (let selector = TenantServiceNameLabelKey @ ''='' @ lget (es_Labels slc) ''kubernetes.io/service-name'' @ '','' @
                     TenantServiceNamespaceLabelKey @ ''='' @ es_Namespace slc
      in go_bind (eask (\<lambda>s. ee_Services_List e s (ct_infraNamespace c) selector) (EListServices (ct_infraNamespace c) selector))
           (\<lambda>r. case r of
               Inl err \<Rightarrow> go_ret (Inl err)
             | Inr items \<Rightarrow>
                 if length items > 1 then go_ret (Inl (ErrText ''multiple services found for tenant endpoint slice''))
                 else if length items = 1 then go_ret (Inr (Some (hd items)))
                 else go_ret (Inr None)))"

definition getTenantEPSFromInfraService :: "eps_env \<Rightarrow> EpsService \<Rightarrow> (est, goerror + EndpointSlice list) go" where
  "getTenantEPSFromInfraService e svc =
     (let tenantServiceName = lget (sv_Labels svc) TenantServiceNameLabelKey;
          tenantServiceNamespace = lget (sv_Labels svc) TenantServiceNamespaceLabelKey;
          selector = LabelServiceName @ ''='' @ tenantServiceName
      in go_bind (eask (\<lambda>s. ee_tenant_EPS_List e s tenantServiceNamespace selector) (EListTenant tenantServiceNamespace selector))
           (\<lambda>r. case r of
               Inl err \<Rightarrow> go_ret (Inl err)
             | Inr items \<Rightarrow> go_then (go_modify (\<lambda>s. s\<lparr>register := foldl tracker_add (register s) items\<rparr>)) (go_ret (Inr items))))"

definition getInfraEPSFromInfraService :: "eps_env \<Rightarrow> EpsService \<Rightarrow> (est, goerror + EndpointSlice list) go" where
  "getInfraEPSFromInfraService e svc =
     (let selector = LabelServiceName @ ''='' @ sv_Name svc
      in eask (\<lambda>s. ee_infra_EPS_List e s (sv_Namespace svc) selector) (EListInfra (sv_Namespace svc) selector))"

section \<open>Desired endpoints\<close>

definition tenantNodes :: "EndpointSlice list \<Rightarrow> string option list" where
  "tenantNodes slices = map ep_NodeName (concat (map es_Endpoints slices))"

definition vmiEndpoints :: "VirtualMachineInstance \<Rightarrow> Endpoint list" where
  "vmiEndpoints vmi =
     (let ready = (vmi_Phase vmi = ''Running'');
          terminating = (vmi_Phase vmi = ''Failed'' \<or> vmi_Phase vmi = ''Succeeded'')
      in map (\<lambda>i. \<lparr>ep_Addresses = [if_IP i], ep_Ready = Some ready, ep_Serving = Some ready,
                    ep_Terminating = Some terminating, ep_Hostname = None, ep_TargetRef = None,
                    ep_NodeName = Some (vmi_NodeName vmi), ep_Zone = None\<rparr>)
           (filter (\<lambda>i. if_Name i = ''default'') (vmi_Interfaces vmi)))"

primrec desiredForNodes :: "eps_env \<Rightarrow> Controller \<Rightarrow> string list \<Rightarrow> (est, Endpoint list) go" where
  "desiredForNodes e c [] = go_ret []"
| "desiredForNodes e c (node # nodes) =
     go_bind (eask (\<lambda>s. ee_VMI_Get e s (ct_infraNamespace c) node) (EGetVMI (ct_infraNamespace c) node)) (\<lambda>r. case r of
         Inl err \<Rightarrow> desiredForNodes e c nodes
       | Inr obj \<Rightarrow>
           (case obj of
              None \<Rightarrow> go_panic FatalExit
            | Some vmi \<Rightarrow> go_bind (desiredForNodes e c nodes) (\<lambda>eps. go_ret (vmiEndpoints vmi @ eps))))"

text \<open>Dereferencing the node name of an endpoint that has none panics.\<close>

definition getDesiredEndpoints :: "eps_env \<Rightarrow> Controller \<Rightarrow> EpsService \<Rightarrow> EndpointSlice list \<Rightarrow> (est, Endpoint list) go" where
  "getDesiredEndpoints e c service tenantSlices =
     (if sv_ExternalTrafficPolicy service = ''Local'' \<or> sv_Selector service = None
      then if None \<in> set (tenantNodes tenantSlices) then go_panic NilDereference
           else desiredForNodes e c (sort (remdups (map the (tenantNodes tenantSlices))))
      else go_ret [])"

section \<open>Writing the slices\<close>

text \<open>
  The loop that turns a deletion and a creation into an update. It names the first slice of the
  creation list, steps past it and then reads the new first element; \<^term>\<open>None\<close> is the run-time
  panic when there is none. The creation list is an array with a position, because the update list
  shares its elements.
\<close>

fun mergeLoop ::
  "EpsService \<Rightarrow> EndpointSlice list \<Rightarrow> nat \<Rightarrow> nat list \<Rightarrow> EndpointSlice list \<Rightarrow> EndpointSlice list
   \<Rightarrow> (EndpointSlice list \<times> nat \<times> nat list \<times> EndpointSlice list) option" where
  "mergeLoop service arr pos upd stays [] = Some (arr, pos, upd, stays)"
| "mergeLoop service arr pos upd stays (d # deletes) =
     (if length arr \<le> pos then Some (arr, pos, upd, stays @ d # deletes)
      else if es_AddressType d = es_AddressType (arr ! pos) \<and> ownedBy d service
      then (let arr' = arr[pos := (arr ! pos)\<lparr>es_Name := es_Name d\<rparr>]
            in if length arr' \<le> pos + 1 then None
               else mergeLoop service arr' (pos + 1) (upd @ [pos + 1]) stays deletes)
      else mergeLoop service arr pos upd (stays @ [d]) deletes)"

text \<open>Calls in sequence until the first error.\<close>

primrec go_each :: "('a \<Rightarrow> ('s, goerror option) go) \<Rightarrow> 'a list \<Rightarrow> ('s, goerror option) go" where
  "go_each f [] = go_ret None"
| "go_each f (x # xs) = go_bind (f x) (\<lambda>r. case r of Some err \<Rightarrow> go_ret (Some err) | None \<Rightarrow> go_each f xs)"

definition NamespaceTerminating :: "goerror \<Rightarrow> bool" where
  "NamespaceTerminating err = (case err of KubeError ReasonNamespaceTerminating _ \<Rightarrow> True | _ \<Rightarrow> False)"

definition createSlice :: "eps_env \<Rightarrow> EndpointSlice \<Rightarrow> (est, goerror option) go" where
  "createSlice e slc = go_bind (eask (\<lambda>s. ee_EPS_Create e s (es_Namespace slc) slc) (ECreate (es_Namespace slc) slc))
     (\<lambda>r. case r of Inl err \<Rightarrow> go_ret (Some err) | Inr _ \<Rightarrow> go_ret None)"

definition updateSlice :: "eps_env \<Rightarrow> EndpointSlice \<Rightarrow> (est, goerror option) go" where
  "updateSlice e slc = eask (\<lambda>s. ee_EPS_Update e s (es_Namespace slc) slc) (EUpdate (es_Namespace slc) slc)"

definition deleteSlice :: "eps_env \<Rightarrow> EndpointSlice \<Rightarrow> (est, goerror option) go" where
  "deleteSlice e slc = eask (\<lambda>s. ee_EPS_Delete e s (es_Namespace slc) (es_Name slc)) (EDelete (es_Namespace slc) (es_Name slc))"

definition finalize ::
  "eps_env \<Rightarrow> EpsService \<Rightarrow> EndpointSlice list \<Rightarrow> EndpointSlice list \<Rightarrow> EndpointSlice list \<Rightarrow> (est, goerror option) go" where
  "finalize e service slicesToCreate slicesToUpdate slicesToDelete =
     (case mergeLoop service slicesToCreate 0 [] [] slicesToDelete of
        None \<Rightarrow> go_panic IndexOutOfRange
      | Some (arr, pos, upd, deletes) \<Rightarrow>
          go_bind (if sv_DeletionTimestamp service = None then go_each (createSlice e) (drop pos arr) else go_ret None)
            (\<lambda>created. case created of
               Some err \<Rightarrow> if NamespaceTerminating err then go_ret None else go_ret (Some err)
             | None \<Rightarrow>
                 go_bind (go_each (updateSlice e) (slicesToUpdate @ map ((!) arr) upd)) (\<lambda>updated. case updated of
                     Some err \<Rightarrow> go_ret (Some err)
                   | None \<Rightarrow> go_each (deleteSlice e) deletes)))"

section \<open>The reconcile\<close>

definition reconcileByAddressType ::
  "eps_env \<Rightarrow> Controller \<Rightarrow> EpsService \<Rightarrow> EndpointSlice list \<Rightarrow> EndpointSlice list \<Rightarrow> AddressType \<Rightarrow> (est, goerror option) go" where
  "reconcileByAddressType e c service tenantSlices existingSlices addressType =
     go_bind (getDesiredEndpoints e c service tenantSlices) (\<lambda>desiredEndpoints.
     go_bind (go_read (ee_pick e)) (\<lambda>pick.
       let p = planSlices (ee_hash e) pick (ct_maxEndPointsPerSlice c) service desiredEndpoints existingSlices addressType
       in finalize e service (pl_create p) (pl_update p) (pl_delete p)))"

text \<open>Which of the existing slices are deleted, and which are handed on by address type.\<close>

fun sortSlices :: "EpsService \<Rightarrow> bool \<Rightarrow> AddressType list \<Rightarrow> EndpointSlice list \<Rightarrow> EndpointSlice list \<times> EndpointSlice list" where
  "sortSlices service serviceDeleted types [] = ([], [])"
| "sortSlices service serviceDeleted types (eps # slices) =
     (case sortSlices service serviceDeleted types slices of (deletes, rest) \<Rightarrow>
        if sv_Selector service \<noteq> None \<or> serviceDeleted
        then (if managedByController eps then (eps # deletes, rest) else (deletes, rest))
        else if es_AddressType eps \<notin> set types then (eps # deletes, rest)
        else (deletes, eps # rest))"

definition reconcileTypes ::
  "eps_env \<Rightarrow> Controller \<Rightarrow> EpsService \<Rightarrow> EndpointSlice list \<Rightarrow> AddressType list \<Rightarrow> (est, goerror option) go" where
  "reconcileTypes e c service slices types =
     go_bind (getTenantEPSFromInfraService e service) (\<lambda>r. case r of
         Inl err \<Rightarrow> go_ret (Some err)
       | Inr tenantSlices \<Rightarrow>
           go_bind (go_read (\<lambda>s. if ee_swap e s then rev types else types)) (\<lambda>ordered.
             go_each (\<lambda>t. reconcileByAddressType e c service tenantSlices (filter (\<lambda>s. es_AddressType s = t) slices) t) ordered))"

text \<open>The part of \<^verbatim>\<open>reconcile\<close> after the slices of the service have been listed.\<close>

definition reconcileListed ::
  "eps_env \<Rightarrow> Controller \<Rightarrow> EpsService \<Rightarrow> bool \<Rightarrow> EndpointSlice list \<Rightarrow> (est, goerror option) go" where
  "reconcileListed e c service serviceDeleted infraExistingEpSlices =
     (let types = getAddressTypesForService (ee_IsIPv6String e) service;
          (slicesToDelete, slices) = sortSlices service serviceDeleted types infraExistingEpSlices
      in go_bind (if serviceDeleted then go_ret None else reconcileTypes e c service slices types)
           (\<lambda>err. case err of
               Some x \<Rightarrow> go_ret (Some x)
             | None \<Rightarrow> go_each (deleteSlice e) slicesToDelete))"

definition reconcile :: "eps_env \<Rightarrow> Controller \<Rightarrow> Request \<Rightarrow> (est, goerror option) go" where
  "reconcile e c r =
     (case rq_Obj r of
        ObjOther \<Rightarrow> go_ret (Some (ErrText ''could not cast object to service''))
      | ObjService None \<Rightarrow> go_ret (Some (ErrText ''could not cast object to service''))
      | ObjService (Some service0) \<Rightarrow>
          if lget (sv_Labels service0) TenantServiceNameLabelKey = '''' \<or>
             lget (sv_Labels service0) TenantServiceNamespaceLabelKey = '''' \<or>
             lget (sv_Labels service0) TenantClusterNameLabelKey = ''''
          then go_ret None
          else go_bind (eask (\<lambda>s. ee_Lister_Get e s (ct_infraNamespace c) (sv_Name service0))
                             (ELister (ct_infraNamespace c) (sv_Name service0))) (\<lambda>found.
            let serviceDeleted = (case found of Inl _ \<Rightarrow> True | Inr _ \<Rightarrow> False);
                service = (case found of Inl _ \<Rightarrow> service0 | Inr svc \<Rightarrow> svc)
            in go_bind (getInfraEPSFromInfraService e service) (\<lambda>listed. case listed of
                 Inl err \<Rightarrow> go_ret (Some err)
               | Inr infraExistingEpSlices \<Rightarrow> reconcileListed e c service serviceDeleted infraExistingEpSlices)))"

text \<open>What becomes of a request after its reconcile.\<close>

definition finishItem :: "Controller \<Rightarrow> nat \<Rightarrow> Request \<Rightarrow> goerror option \<Rightarrow> (est, unit) go" where
  "finishItem c i req err =
     (if err = None then queue_Forget i
      else go_bind (go_read (\<lambda>s. q_failures s i)) (\<lambda>requeues.
        if requeues < ct_maxRetries c then queue_AddRateLimited (i, req)
        else queue_Forget i))"

text \<open>One round of a worker; false when the queue has been shut down.\<close>

definition processNextItem :: "eps_env \<Rightarrow> Controller \<Rightarrow> (est, bool) go" where
  "processNextItem e c =
     go_bind queue_Get (\<lambda>got. case got of
         None \<Rightarrow> go_ret False
       | Some (i, req) \<Rightarrow>
           go_bind (reconcile e c req) (\<lambda>err. go_then (finishItem c i req err) (go_ret True)))"

text \<open>The loop of a worker, from one round to the next.\<close>

partial_function (option) runWorker :: "eps_env \<Rightarrow> Controller \<Rightarrow> est \<Rightarrow> (unit outcome \<times> est) option" where
  "runWorker e c s =
     Option.bind (processNextItem e c s) (\<lambda>(r, s'). case r of
         Panic p \<Rightarrow> Some (Panic p, s')
       | Val continue \<Rightarrow> if continue then runWorker e c s' else Some (Val (), s'))"

section \<open>Informer callbacks\<close>

text \<open>
  What an informer hands to a callback: an object, or after a missed deletion a tombstone
  (\<^verbatim>\<open>cache.DeletedFinalStateUnknown\<close>), on which the type assertions of the callbacks panic.
\<close>

datatype 'a informed = Obj 'a | DeletedFinalStateUnknown

datatype event =
    ServiceAdded "EpsService informed"
  | ServiceUpdated "EpsService informed" "EpsService informed"
  | ServiceDeleted "EpsService informed"
  | TenantAdded "EndpointSlice informed"
  | TenantUpdated "EndpointSlice informed"
  | TenantDeleted "EndpointSlice informed"
  | InfraAdded "EndpointSlice informed"
  | InfraUpdated "EndpointSlice informed"
  | InfraDeleted "EndpointSlice informed"

definition asserted :: "'a informed \<Rightarrow> ('a \<Rightarrow> (est, unit) go) \<Rightarrow> (est, unit) go" where
  "asserted obj k = (case obj of Obj x \<Rightarrow> k x | DeletedFinalStateUnknown \<Rightarrow> go_panic TypeAssertion)"

definition onService :: "ReqType \<Rightarrow> EpsService \<Rightarrow> req_obj option \<Rightarrow> (est, unit) go" where
  "onService t svc oldObj =
     (if sv_Type svc = ''LoadBalancer'' then queue_Add (newRequest t (ObjService (Some svc)) oldObj) else go_ret ())"

text \<open>A tenant slice: the deletion also takes it out of the tracker.\<close>

definition onTenantSlice :: "eps_env \<Rightarrow> Controller \<Rightarrow> ReqType \<Rightarrow> EndpointSlice \<Rightarrow> (est, unit) go" where
  "onTenantSlice e c t eps =
     go_bind (go_read (\<lambda>s. tracker_contains (register s) eps)) (\<lambda>tracked.
       if \<not> tracked then go_ret ()
       else go_then (if t = DeleteReq then go_modify (\<lambda>s. s\<lparr>register := tracker_remove (register s) eps\<rparr>) else go_ret ())
         (go_bind (getInfraServiceFromTenantEPS e c eps) (\<lambda>r. case r of
             Inl err \<Rightarrow> go_ret ()
           | Inr infraSvc \<Rightarrow> queue_Add (newRequest t (ObjService infraSvc) None))))"

definition onInfraSlice :: "eps_env \<Rightarrow> Controller \<Rightarrow> ReqType \<Rightarrow> EndpointSlice \<Rightarrow> (est, unit) go" where
  "onInfraSlice e c t eps =
     (if \<not> managedByController eps then go_ret ()
      else go_bind (getInfraServiceForEPS e c eps) (\<lambda>r. case r of
          Inl err \<Rightarrow> go_ret ()
        | Inr None \<Rightarrow> go_ret ()
        | Inr (Some svc) \<Rightarrow> queue_Add (newRequest t (ObjService (Some svc)) None)))"

definition old_obj :: "EpsService informed \<Rightarrow> req_obj option" where
  "old_obj obj = Some (case obj of Obj svc \<Rightarrow> ObjService (Some svc) | DeletedFinalStateUnknown \<Rightarrow> ObjOther)"

text \<open>The callbacks that \<^verbatim>\<open>Init\<close> registers.\<close>

fun handle :: "eps_env \<Rightarrow> Controller \<Rightarrow> event \<Rightarrow> (est, unit) go" where
  "handle e c (ServiceAdded obj) = asserted obj (\<lambda>svc. onService AddReq svc None)"
| "handle e c (ServiceUpdated old obj) = asserted obj (\<lambda>svc. onService UpdateReq svc (old_obj old))"
| "handle e c (ServiceDeleted obj) = asserted obj (\<lambda>svc. onService DeleteReq svc None)"
| "handle e c (TenantAdded obj) = asserted obj (onTenantSlice e c AddReq)"
| "handle e c (TenantUpdated obj) = asserted obj (onTenantSlice e c UpdateReq)"
| "handle e c (TenantDeleted obj) = asserted obj (onTenantSlice e c DeleteReq)"
| "handle e c (InfraAdded obj) = asserted obj (onInfraSlice e c AddReq)"
| "handle e c (InfraUpdated obj) = asserted obj (onInfraSlice e c UpdateReq)"
| "handle e c (InfraDeleted obj) = asserted obj (onInfraSlice e c DeleteReq)"

section \<open>Rules\<close>

lemma wp_eask [go_wp]: "wp (eask f ev) Q s = Q (Val (f s)) (s\<lparr>ecalls := ecalls s @ [ev (f s)]\<rparr>)"
  by (simp add: wp_def eask_def)

lemma eask_simps [simp]: "eask f ev s = Some (Val (f s), s\<lparr>ecalls := ecalls s @ [ev (f s)]\<rparr>)"
  by (simp add: eask_def)

lemma preserves_eask [go_frame]: "(\<And>s r. g (s\<lparr>ecalls := ecalls s @ [ev r]\<rparr>) = g s) \<Longrightarrow> preserves g (eask f ev)"
  by (auto simp: preserves_def eask_def)

lemma preserves_each [go_frame]: "(\<And>x. preserves g (f x)) \<Longrightarrow> preserves g (go_each f xs)"
  by (induction xs) (auto intro!: go_frame)

lemma preserves_modify: "(\<And>s. g (h s) = g s) \<Longrightarrow> preserves g (go_modify h)"
  by (auto simp: preserves_def)

text \<open>
  The calls a computation makes: \<open>emits P m\<close> says that every run of \<open>m\<close> only extends the history,
  by calls that satisfy \<open>P\<close>.
\<close>

definition emits :: "(ecall \<Rightarrow> bool) \<Rightarrow> (est, 'a) go \<Rightarrow> bool" where
  "emits P m \<longleftrightarrow> (\<forall>s r s'. m s = Some (r, s') \<longrightarrow> (\<exists>cs. ecalls s' = ecalls s @ cs \<and> list_all P cs))"

named_theorems eps_emits \<open>which calls a computation makes\<close>

lemma emitsD: "emits P m \<Longrightarrow> m s = Some (r, s') \<Longrightarrow> \<exists>cs. ecalls s' = ecalls s @ cs \<and> list_all P cs"
  by (auto simp: emits_def)

lemma emits_prim [eps_emits]: "emits P (go_ret a)" "emits P (go_panic p)" "emits P (go_read g)"
  by (auto simp: emits_def)

lemma emits_eask [eps_emits]: "(\<And>r. P (ev r)) \<Longrightarrow> emits P (eask f ev)"
  by (auto simp: emits_def eask_def)

lemma emits_modify [eps_emits]: "(\<And>s. ecalls (h s) = ecalls s) \<Longrightarrow> emits P (go_modify h)"
  by (auto simp: emits_def)

lemma emits_bind [eps_emits]:
  assumes "emits P m" "\<And>a. emits P (f a)"
  shows "emits P (go_bind m f)"
  unfolding emits_def
proof (intro allI impI)
  fix s r s' assume run: "go_bind m f s = Some (r, s')"
  then obtain r1 s1 where m: "m s = Some (r1, s1)" by (auto simp: go_bind_def split: option.splits)
  then obtain cs where cs: "ecalls s1 = ecalls s @ cs" "list_all P cs" using emitsD [OF assms(1)] by blast
  show "\<exists>cs. ecalls s' = ecalls s @ cs \<and> list_all P cs"
  proof (cases r1)
    case (Val a)
    with run m have "f a s1 = Some (r, s')" by (simp add: go_bind_Some)
    then obtain cs' where "ecalls s' = ecalls s1 @ cs'" "list_all P cs'" using emitsD [OF assms(2)] by blast
    with cs show ?thesis by (intro exI [of _ "cs @ cs'"]) simp
  next
    case (Panic p)
    with run m have "s' = s1" by (simp add: go_bind_Some)
    with cs show ?thesis by blast
  qed
qed

lemma emits_then [eps_emits]: "emits P m \<Longrightarrow> emits P k \<Longrightarrow> emits P (go_then m k)"
  unfolding go_then_def by (rule emits_bind)

lemma emits_each [eps_emits]: "(\<And>x. x \<in> set xs \<Longrightarrow> emits P (f x)) \<Longrightarrow> emits P (go_each f xs)"
  by (induction xs) (auto intro!: eps_emits split: option.split)

lemma emits_mono: "emits P m \<Longrightarrow> (\<And>c. P c \<Longrightarrow> Q c) \<Longrightarrow> emits Q m"
  unfolding emits_def by (meson list.pred_mono_strong)

subsection \<open>Plans keep the identity of slices\<close>

definition slice_id :: "EndpointSlice \<Rightarrow> string \<times> string \<times> AddressType \<times> OwnerReference list" where
  "slice_id s = (es_Namespace s, es_Name s, es_AddressType s, es_OwnerReferences s)"

fun review_slice :: "review \<Rightarrow> EndpointSlice" where
  "review_slice (RUpdate s) = s"
| "review_slice (RDelete s) = s"
| "review_slice (RUntouched s) = s"

lemma review_id: "reviewSlice H service ports x ds = (r, left) \<Longrightarrow> slice_id (review_slice r) = slice_id x"
  by (auto simp: reviewSlice_def Let_def slice_id_def split: prod.splits if_splits)

lemma reviews_id:
  "reviewSlices H service ports slices ds = (rs, left) \<Longrightarrow> map (slice_id \<circ> review_slice) rs = map slice_id slices"
  by (induction slices arbitrary: ds rs left) (auto simp: review_id split: prod.splits)

lemma review_lists:
  "set (to_update rs) \<union> set (to_delete rs) \<union> set (untouched rs) = review_slice ` set rs"
proof (induction rs)
  case (Cons r rs)
  then show ?case by (cases r) (auto simp: to_update_def to_delete_def untouched_def map_filter_simps)
qed (simp add: to_update_def to_delete_def untouched_def map_filter_simps)

lemma fillSlice_id: "fillSlice H pick mx s ds = (s', left) \<Longrightarrow> slice_id s' = slice_id s \<and> es_Labels s' = es_Labels s"
  by (auto simp: fillSlice_def slice_id_def split: prod.splits)

lemma fillSlices_id: "fillSlices H pick mx slices ds = (slices', left) \<Longrightarrow> map slice_id slices' = map slice_id slices"
proof (induction slices arbitrary: ds slices' left)
  case (Cons s slices)
  then obtain s' l rest where "fillSlice H pick mx s ds = (s', l)" "fillSlices H pick mx slices l = (rest, left)" "slices' = s' # rest"
    by (auto split: prod.splits)
  with Cons.IH show ?case by (simp add: fillSlice_id)
qed simp

lemma plan_ids:
  fixes H pick mx service des existing t
  defines "p \<equiv> planSlices H pick mx service des existing t"
  shows "slice_id ` set (pl_update p) \<subseteq> slice_id ` set existing" "slice_id ` set (pl_delete p) \<subseteq> slice_id ` set existing"
    and "s \<in> set (pl_create p) \<Longrightarrow> slice_id s = slice_id (newSlice service (desiredPorts service) t)"
proof -
  obtain rs l1 where rs: "reviewSlices H service (desiredPorts service) existing (set_Insert H [] des) = (rs, l1)" by fastforce
  have "slice_id ` set existing = slice_id ` review_slice ` set rs"
    using arg_cong [OF reviews_id [OF rs], of set] by (simp add: image_comp)
  moreover have "set (to_update rs) \<subseteq> review_slice ` set rs" "set (to_delete rs) \<subseteq> review_slice ` set rs"
    "set (untouched rs) \<subseteq> review_slice ` set rs" unfolding review_lists [symmetric] by auto
  ultimately have ids: "slice_id ` set (to_update rs) \<subseteq> slice_id ` set existing"
    "slice_id ` set (to_delete rs) \<subseteq> slice_id ` set existing" "slice_id ` set (untouched rs) \<subseteq> slice_id ` set existing"
    by (simp_all only: image_mono)
  let ?new = "newSlice service (desiredPorts service) t"
  obtain ups l2 where ups: "fillSlices H pick mx (to_update rs) l1 = (ups, l2)" by fastforce
  obtain us l3 where us: "fillSlices H pick mx (untouched rs) l2 = (us, l3)" by fastforce
  obtain n l4 where n: "fillSlice H pick mx (?new\<lparr>es_Labels := fst (ensureEndpointSliceLabels ?new service)\<rparr>) l3 = (n, l4)"
    by fastforce
  note p = planSlices_eq [OF rs ups us n, folded p_def]
  show "slice_id ` set (pl_delete p) \<subseteq> slice_id ` set existing" using ids(2) by (simp add: p)
  have "slice_id ` set ups = slice_id ` set (to_update rs)" "slice_id ` set us = slice_id ` set (untouched rs)"
    using fillSlices_id [OF ups] fillSlices_id [OF us] by (metis list.set_map)+
  with ids(1,3) show "slice_id ` set (pl_update p) \<subseteq> slice_id ` set existing" by (simp add: p image_Un)
  have "slice_id n = slice_id ?new" using fillSlice_id [OF n] by (simp add: slice_id_def)
  then show "s \<in> set (pl_create p) \<Longrightarrow> slice_id s = slice_id ?new" by (simp add: p split: if_splits)
qed

subsection \<open>Finalizing\<close>

text \<open>A plan creates at most one slice; then the merge either changes nothing or panics.\<close>

lemma mergeLoop_none: "mergeLoop service [] 0 upd stays ds = Some ([], 0, upd, stays @ ds)"
  by (cases ds) simp_all

lemma mergeLoop_one:
  "mergeLoop service [a] 0 [] stays ds =
     (if \<exists>d\<in>set ds. es_AddressType d = es_AddressType a \<and> ownedBy d service then None else Some ([a], 0, [], stays @ ds))"
  by (induction ds arbitrary: stays) (auto simp: Let_def)

lemma mergeLoop_plan:
  assumes "length creates \<le> 1"
  shows "mergeLoop service creates 0 [] [] ds =
    (if \<exists>a\<in>set creates. \<exists>d\<in>set ds. es_AddressType d = es_AddressType a \<and> ownedBy d service then None
     else Some (creates, 0, [], ds))"
  using assms by (cases creates) (auto simp: mergeLoop_none mergeLoop_one)

text \<open>What the three kinds of writes may touch.\<close>

fun touches :: "EpsService \<Rightarrow> EndpointSlice list \<Rightarrow> ecall \<Rightarrow> bool" where
  "touches svc listed (ECreate ns s _) \<longleftrightarrow> ns = sv_Namespace svc \<and> es_Namespace s = ns \<and> es_Name s = '''' \<and> ownedBy s svc"
| "touches svc listed (EUpdate ns s _) \<longleftrightarrow> ns = es_Namespace s \<and> list_ex (\<lambda>x. eps_name x = eps_name s) listed"
| "touches svc listed (EDelete ns n _) \<longleftrightarrow> list_ex (\<lambda>x. eps_name x = (ns, n)) listed"
| "touches svc listed (EAttempt i) \<longleftrightarrow> False"
| "touches svc listed _ \<longleftrightarrow> True"

lemma emits_writes:
  "(\<And>r. P (ECreate (es_Namespace s) s r)) \<Longrightarrow> emits P (createSlice e s)"
  "(\<And>r. P (EUpdate (es_Namespace s) s r)) \<Longrightarrow> emits P (updateSlice e s)"
  "(\<And>r. P (EDelete (es_Namespace s) (es_Name s) r)) \<Longrightarrow> emits P (deleteSlice e s)"
  by (auto simp: createSlice_def updateSlice_def deleteSlice_def intro!: eps_emits split: sum.split)

lemma slice_id_name: "slice_id ` A \<subseteq> slice_id ` set B \<Longrightarrow> x \<in> A \<Longrightarrow> list_ex (\<lambda>y. eps_name y = eps_name x) B"
proof -
  assume "slice_id ` A \<subseteq> slice_id ` set B" "x \<in> A"
  then obtain y where "y \<in> set B" "slice_id x = slice_id y" by (metis imageE imageI subsetD)
  then show ?thesis by (auto simp: slice_id_def eps_name_def list_ex_iff)
qed

lemma finalize_emits:
  assumes p: "p = planSlices H pick mx service des existing t" and "set existing \<subseteq> set listed"
  shows "emits (touches service listed) (finalize e service (pl_create p) (pl_update p) (pl_delete p))"
proof -
  have one: "length (pl_create p) \<le> 1" unfolding p by (rule plan_one_create)
  have listed: "list_ex P existing \<Longrightarrow> list_ex P listed" for P using assms(2) by (auto simp: list_ex_iff)
  note ids = plan_ids [where H = H and pick = pick and mx = mx and service = service and des = des and existing = existing
      and t = t, folded p]
  have "emits (touches service listed) (createSlice e s)" if "s \<in> set (pl_create p)" for s
    using ids(3) [OF that] by (intro emits_writes) (simp add: slice_id_def newSlice_def ownedBy_def)
  moreover have "emits (touches service listed) (updateSlice e s)" if "s \<in> set (pl_update p)" for s
    using listed [OF slice_id_name [OF ids(1) that]] by (intro emits_writes) simp
  moreover have "emits (touches service listed) (deleteSlice e s)" if "s \<in> set (pl_delete p)" for s
    using listed [OF slice_id_name [OF ids(2) that]] by (intro emits_writes) (simp add: eps_name_def)
  ultimately show ?thesis
    unfolding finalize_def mergeLoop_plan [OF one]
    by (auto intro!: eps_emits split: option.split)
qed

subsection \<open>The calls of a reconcile\<close>

lemma desired_emits:
  assumes "\<And>ns n r. P (EGetVMI ns n r)"
  shows "emits P (getDesiredEndpoints e c service ts)"
proof -
  have "emits P (desiredForNodes e c nodes)" for nodes
    using assms by (induction nodes) (auto intro!: eps_emits split: sum.split option.split)
  then show ?thesis by (auto simp: getDesiredEndpoints_def intro!: eps_emits)
qed

lemma reconcileByAddressType_emits:
  "set existing \<subseteq> set listed \<Longrightarrow> emits (touches service listed) (reconcileByAddressType e c service ts existing t)"
  unfolding reconcileByAddressType_def Let_def
  by (intro eps_emits desired_emits finalize_emits [OF refl]) simp_all

lemma reconcileTypes_emits:
  "set slices \<subseteq> set listed \<Longrightarrow> emits (touches service listed) (reconcileTypes e c service slices types)"
  unfolding reconcileTypes_def getTenantEPSFromInfraService_def Let_def
  by (auto intro!: eps_emits reconcileByAddressType_emits split: sum.split) blast

lemma sortSlices_subset:
  "sortSlices service del types slices = (ds, rest) \<Longrightarrow> set ds \<subseteq> set slices \<and> set rest \<subseteq> set slices"
  by (induction slices arbitrary: ds rest) (fastforce split: prod.splits if_splits)+

lemma reconcileListed_emits: "emits (touches service listed) (reconcileListed e c service del listed)"
proof -
  obtain ds rest where sorted: "sortSlices service del (getAddressTypesForService (ee_IsIPv6String e) service) listed = (ds, rest)"
    by fastforce
  note sub = sortSlices_subset [OF sorted]
  have "emits (touches service listed) (deleteSlice e s)" if "s \<in> set ds" for s
    using that sub by (intro emits_writes) (auto simp: list_ex_iff eps_name_def)
  then show ?thesis
    using sub unfolding reconcileListed_def Let_def sorted
    by (auto intro!: eps_emits reconcileTypes_emits split: option.split)
qed

text \<open>A request is skipped, fails at once, or is handled after two reads.\<close>

definition is_write :: "ecall \<Rightarrow> bool" where
  "is_write w = (case w of ECreate _ _ _ \<Rightarrow> True | EUpdate _ _ _ \<Rightarrow> True | EDelete _ _ _ \<Rightarrow> True | _ \<Rightarrow> False)"

definition service_selector :: "EpsService \<Rightarrow> string" where
  "service_selector svc = LabelServiceName @ ''='' @ sv_Name svc"

definition tenant_labelled :: "EpsService \<Rightarrow> bool" where
  "tenant_labelled svc \<longleftrightarrow> lget (sv_Labels svc) TenantServiceNameLabelKey \<noteq> '''' \<and>
     lget (sv_Labels svc) TenantServiceNamespaceLabelKey \<noteq> '''' \<and> lget (sv_Labels svc) TenantClusterNameLabelKey \<noteq> ''''"

lemma reconcile_skips:
  assumes "\<And>svc. rq_Obj r = ObjService (Some svc) \<Longrightarrow> \<not> tenant_labelled svc"
  shows "\<exists>res. reconcile e c r s = Some (Val res, s)"
  using assms by (auto simp: reconcile_def tenant_labelled_def split: req_obj.split option.split)

lemma reconcile_reads:
  fixes e c service0 s
  defines "found \<equiv> ee_Lister_Get e s (ct_infraNamespace c) (sv_Name service0)"
  defines "service \<equiv> (case found of Inl _ \<Rightarrow> service0 | Inr svc \<Rightarrow> svc)"
  defines "lister \<equiv> ELister (ct_infraNamespace c) (sv_Name service0) found"
  defines "listed \<equiv> ee_infra_EPS_List e (s\<lparr>ecalls := ecalls s @ [lister]\<rparr>) (sv_Namespace service) (service_selector service)"
  assumes "rq_Obj r = ObjService (Some service0)" "tenant_labelled service0"
  shows "reconcile e c r s =
    (case listed of Inl err \<Rightarrow> go_ret (Some err) | Inr l \<Rightarrow> reconcileListed e c service (isl found) l)
      (s\<lparr>ecalls := ecalls s @ [lister, EListInfra (sv_Namespace service) (service_selector service) listed]\<rparr>)"
  using assms(5,6)
  by (simp add: reconcile_def tenant_labelled_def getInfraEPSFromInfraService_def go_bind_def found_def [symmetric]
      service_def [symmetric] lister_def [symmetric] listed_def service_selector_def isl_def Let_def split: sum.splits)

lemma reconcile_runs:
  assumes "reconcile e c r s = Some (res, s')"
  obtains (quiet) cs where "ecalls s' = ecalls s @ cs" "filter is_write cs = []" "list_all (touches svc []) cs"
      "register s' = register s"
  | (handled) service0 found listed s2 where "rq_Obj r = ObjService (Some service0)"
      "found = ee_Lister_Get e s (ct_infraNamespace c) (sv_Name service0)"
      "s2 = s\<lparr>ecalls := ecalls s @ [ELister (ct_infraNamespace c) (sv_Name service0) found,
         EListInfra (sv_Namespace (case found of Inl _ \<Rightarrow> service0 | Inr svc \<Rightarrow> svc))
           (service_selector (case found of Inl _ \<Rightarrow> service0 | Inr svc \<Rightarrow> svc)) (Inr listed)]\<rparr>"
      "reconcileListed e c (case found of Inl _ \<Rightarrow> service0 | Inr svc \<Rightarrow> svc) (isl found) listed s2 = Some (res, s')"
proof (cases "\<exists>svc. rq_Obj r = ObjService (Some svc) \<and> tenant_labelled svc")
  case False
  then have "s' = s" using reconcile_skips [of r e c s] assms by auto
  then show ?thesis by (intro quiet [of "[]"]) simp_all
next
  case True
  then obtain service0 where r: "rq_Obj r = ObjService (Some service0)" "tenant_labelled service0" by blast
  define found where "found = ee_Lister_Get e s (ct_infraNamespace c) (sv_Name service0)"
  let ?svc = "case found of Inl _ \<Rightarrow> service0 | Inr svc \<Rightarrow> svc" and ?l = "ELister (ct_infraNamespace c) (sv_Name service0) found"
  note run = assms [unfolded reconcile_reads [OF r, of e c s], folded found_def]
  show ?thesis
  proof (cases "ee_infra_EPS_List e (s\<lparr>ecalls := ecalls s @ [?l]\<rparr>) (sv_Namespace ?svc) (service_selector ?svc)")
    case (Inl err)
    with run show ?thesis
      by (intro quiet [of "[?l, EListInfra (sv_Namespace ?svc) (service_selector ?svc) (Inl err)]"]) (auto simp: is_write_def)
  next
    case (Inr l)
    with run show ?thesis by (intro handled [OF r(1) found_def, of _ l]) simp_all
  qed
qed

subsection \<open>Deleting\<close>

lemma wp_writes [go_wp]:
  "wp (createSlice e x) Q s =
     Q (Val (case ee_EPS_Create e s (es_Namespace x) x of Inl err \<Rightarrow> Some err | Inr _ \<Rightarrow> None))
       (s\<lparr>ecalls := ecalls s @ [ECreate (es_Namespace x) x (ee_EPS_Create e s (es_Namespace x) x)]\<rparr>)"
  "wp (updateSlice e x) Q s = Q (Val (ee_EPS_Update e s (es_Namespace x) x))
     (s\<lparr>ecalls := ecalls s @ [EUpdate (es_Namespace x) x (ee_EPS_Update e s (es_Namespace x) x)]\<rparr>)"
  "wp (deleteSlice e x) Q s = Q (Val (ee_EPS_Delete e s (es_Namespace x) (es_Name x)))
     (s\<lparr>ecalls := ecalls s @ [EDelete (es_Namespace x) (es_Name x) (ee_EPS_Delete e s (es_Namespace x) (es_Name x))]\<rparr>)"
  unfolding createSlice_def updateSlice_def deleteSlice_def by (simp_all only: go_wp) (simp split: sum.split add: go_wp)

lemma deletes_run:
  "wp (go_each (deleteSlice e) ds) (\<lambda>r s'. \<exists>cs. ecalls s' = ecalls s @ cs \<and>
     list_all (\<lambda>w. list_ex (\<lambda>d. \<exists>a. w = EDelete (es_Namespace d) (es_Name d) a) ds) cs \<and>
     (case r of Val None \<Rightarrow> cs = map (\<lambda>d. EDelete (es_Namespace d) (es_Name d) None) ds | Val (Some err) \<Rightarrow> True | Panic q \<Rightarrow> False)) s"
proof (induction ds arbitrary: s)
  case (Cons d ds)
  let ?a = "ee_EPS_Delete e s (es_Namespace d) (es_Name d)"
  let ?w = "EDelete (es_Namespace d) (es_Name d) None"
  show ?case
  proof (cases ?a)
    case None
    have "wp (go_each (deleteSlice e) ds) (\<lambda>r s'. \<exists>cs. ecalls s' = ecalls s @ cs \<and>
        list_all (\<lambda>w. list_ex (\<lambda>d. \<exists>a. w = EDelete (es_Namespace d) (es_Name d) a) (d # ds)) cs \<and>
        (case r of Val None \<Rightarrow> cs = map (\<lambda>d. EDelete (es_Namespace d) (es_Name d) None) (d # ds)
         | Val (Some err) \<Rightarrow> True | Panic q \<Rightarrow> False)) (s\<lparr>ecalls := ecalls s @ [?w]\<rparr>)"
    proof (rule wp_conseq [OF Cons.IH], elim exE conjE)
      fix r s' cs
      assume "ecalls s' = ecalls (s\<lparr>ecalls := ecalls s @ [?w]\<rparr>) @ cs"
        "list_all (\<lambda>w. list_ex (\<lambda>d. \<exists>a. w = EDelete (es_Namespace d) (es_Name d) a) ds) cs"
        "case r of Val None \<Rightarrow> cs = map (\<lambda>d. EDelete (es_Namespace d) (es_Name d) None) ds
         | Val (Some err) \<Rightarrow> True | Panic q \<Rightarrow> False"
      then show "\<exists>cs. ecalls s' = ecalls s @ cs \<and>
          list_all (\<lambda>w. list_ex (\<lambda>d. \<exists>a. w = EDelete (es_Namespace d) (es_Name d) a) (d # ds)) cs \<and>
          (case r of Val None \<Rightarrow> cs = map (\<lambda>d. EDelete (es_Namespace d) (es_Name d) None) (d # ds)
           | Val (Some err) \<Rightarrow> True | Panic q \<Rightarrow> False)"
        by (intro exI [of _ "?w # cs"]) (auto simp: list_all_iff split: outcome.splits option.splits)
    qed
    with None show ?thesis by (simp add: go_wp)
  next
    case (Some err)
    then show ?thesis by (simp add: go_wp)
  qed
qed (simp add: go_wp)

lemma sortSlices_deleted: "sortSlices service True types slices = (filter managedByController slices, [])"
  by (induction slices) simp_all

lemma sortSlices_selector:
  "sv_Selector service \<noteq> None \<Longrightarrow> sortSlices service del types slices = (filter managedByController slices, [])"
  by (induction slices) auto

subsection \<open>Desired endpoints\<close>

lemma desiredForNodes_spec:
  assumes vmis: "\<And>s n. ee_VMI_Get e s (ct_infraNamespace c) n = vmis n"
  shows "\<exists>s'. desiredForNodes e c nodes s = Some (if Inr None \<in> vmis ` set nodes then Panic FatalExit
    else Val (concat (map (\<lambda>n. case vmis n of Inr (Some v) \<Rightarrow> vmiEndpoints v | _ \<Rightarrow> []) nodes)), s')"
proof (induction nodes arbitrary: s)
  case Nil
  show ?case by simp
next
  case (Cons n nodes)
  let ?s = "s\<lparr>ecalls := ecalls s @ [EGetVMI (ct_infraNamespace c) n (vmis n)]\<rparr>"
  obtain s' where "desiredForNodes e c nodes ?s = Some (if Inr None \<in> vmis ` set nodes then Panic FatalExit
    else Val (concat (map (\<lambda>n. case vmis n of Inr (Some v) \<Rightarrow> vmiEndpoints v | _ \<Rightarrow> []) nodes)), s')"
    using Cons.IH by blast
  then show ?case
    by (auto simp: go_bind_def vmis split: sum.split option.split)
qed

subsection \<open>When a slice has to be replaced\<close>

lemma cover_disjoint:
  "set (keys H eps) \<inter> set (keys H ds) = {} \<Longrightarrow> coverEndpoints H eps ds = ([], False, ds)"
proof (induction eps)
  case (Cons ep eps)
  then have "set_Get H ds ep = None" by (auto simp: set_Get_None)
  with Cons show ?case by auto
qed simp

lemma reviews_disjoint:
  assumes "list_all (\<lambda>s. es_Endpoints s \<noteq> [] \<and> set (keys H (es_Endpoints s)) \<inter> set (keys H ds) = {}) slices"
  shows "\<exists>ss. reviewSlices H service ports slices ds = (map RDelete ss, ds) \<and> map slice_id ss = map slice_id slices"
  using assms
proof (induction slices)
  case (Cons x slices)
  then obtain ss where ss: "reviewSlices H service ports slices ds = (map RDelete ss, ds)" "map slice_id ss = map slice_id slices"
    by auto
  have "coverEndpoints H (es_Endpoints x) ds = ([], False, ds)" using Cons.prems by (intro cover_disjoint) simp
  with Cons.prems obtain y where "reviewSlice H service ports x ds = (RDelete y, ds)" "slice_id y = slice_id x"
    by (auto simp: reviewSlice_def slice_id_def Let_def split: prod.splits)
  with ss show ?case by (intro exI [of _ "y # ss"]) simp
qed simp

lemma plan_replaces:
  fixes H pick mx service des existing t
  defines "p \<equiv> planSlices H pick mx service des existing t"
  assumes "list_all (\<lambda>s. es_Endpoints s \<noteq> [] \<and> set (keys H (es_Endpoints s)) \<inter> set (keys H (set_Insert H [] des)) = {}) existing"
    and "set_Insert H [] des \<noteq> []"
  shows "map slice_id (pl_delete p) = map slice_id existing \<and> pl_update p = [] \<and> length (pl_create p) = 1"
proof -
  obtain ss where ss: "reviewSlices H service (desiredPorts service) existing (set_Insert H [] des) = (map RDelete ss, set_Insert H [] des)"
    "map slice_id ss = map slice_id existing" using reviews_disjoint [OF assms(2)] by blast
  have lists: "to_update (map RDelete ss) = []" "untouched (map RDelete ss) = []" "to_delete (map RDelete ss) = ss"
    by (induction ss) (simp_all add: to_update_def untouched_def to_delete_def map_filter_simps)
  obtain n l where "fillSlice H pick mx ((newSlice service (desiredPorts service) t)
      \<lparr>es_Labels := fst (ensureEndpointSliceLabels (newSlice service (desiredPorts service) t) service)\<rparr>) (set_Insert H [] des) = (n, l)"
    by fastforce
  moreover have "fillSlices H pick mx (to_update (map RDelete ss)) (set_Insert H [] des) = ([], set_Insert H [] des)"
    "fillSlices H pick mx (untouched (map RDelete ss)) (set_Insert H [] des) = ([], set_Insert H [] des)"
    by (simp_all add: lists)
  ultimately have "p = \<lparr>pl_create = [n], pl_update = [], pl_delete = ss, pl_same = [], pl_left = l\<rparr>"
    unfolding p_def using planSlices_eq [OF ss(1)] lists assms(3) by simp
  with ss(2) show ?thesis by simp
qed

lemma slice_id_owned: "slice_id x = slice_id y \<Longrightarrow> ownedBy x service = ownedBy y service \<and> es_AddressType x = es_AddressType y"
  by (simp add: slice_id_def ownedBy_def)

section \<open>A concrete cluster\<close>

text \<open>
  The service of \<^const>\<open>infra_service\<close> with the tenant labels; its tenant slice names the node
  \<^verbatim>\<open>n2\<close>, the infra slice still holds the address of \<^verbatim>\<open>n1\<close>, and every write succeeds.
\<close>

definition tenant_service :: EpsService where
  "tenant_service = infra_service\<lparr>sv_Labels := [(TenantServiceNameLabelKey, ''web''),
     (TenantServiceNamespaceLabelKey, ''shop''), (TenantClusterNameLabelKey, ''t1'')]\<rparr>"

definition old_slice :: EndpointSlice where
  "old_slice = (newSlice tenant_service (desiredPorts tenant_service) AddressTypeIPv4)
     \<lparr>es_Name := ''lb-x1'', es_Labels := [(LabelManagedBy, dashed ControllerName)],
      es_Endpoints := [node_endpoint ''10.0.0.1'' ''h1'']\<rparr>"

definition tenant_slice :: EndpointSlice where
  "tenant_slice = old_slice\<lparr>es_Name := ''web-abc'', es_Namespace := ''shop'', es_Endpoints := [node_endpoint ''10.200.0.7'' ''n2'']\<rparr>"

definition cluster_vmi :: "string \<Rightarrow> VirtualMachineInstance" where
  "cluster_vmi n = \<lparr>vmi_Name = n, vmi_Annotations = Map.empty, vmi_Phase = ''Running'', vmi_NodeName = ''h2'',
     vmi_Interfaces = [\<lparr>if_Name = ''default'', if_IP = ''10.0.0.2'', if_IPs = [''10.0.0.2'']\<rparr>]\<rparr>"

definition cluster_env :: eps_env where
  "cluster_env = \<lparr>ee_hash = demo_hash, ee_IsIPv6String = (\<lambda>_. False), ee_pick = (\<lambda>_ _. 0), ee_swap = (\<lambda>_. False),
     ee_infra_EPS_List = (\<lambda>_ _ _. Inr [old_slice]), ee_tenant_EPS_List = (\<lambda>_ _ _. Inr [tenant_slice]),
     ee_Services_List = (\<lambda>_ _ _. Inr [tenant_service]), ee_Services_Get = (\<lambda>_ _ _. Inr tenant_service),
     ee_Lister_Get = (\<lambda>_ _ n. if n = ''lb'' then Inr tenant_service else Inl (KubeError ReasonNotFound ''no such service'')),
     ee_VMI_Get = (\<lambda>_ _ n. Inr (Some (cluster_vmi n))), ee_EPS_Create = (\<lambda>_ _ s. Inr s),
     ee_EPS_Update = (\<lambda>_ _ _. None), ee_EPS_Delete = (\<lambda>_ _ _. None)\<rparr>"

abbreviation cluster_controller :: Controller where
  "cluster_controller \<equiv> NewKubevirtEPSController ''infra''"

lemma cluster_desired:
  "getDesiredEndpoints cluster_env cluster_controller tenant_service [tenant_slice] init_est =
     Some (Val [node_endpoint ''10.0.0.2'' ''h2''],
       init_est\<lparr>ecalls := [EGetVMI ''infra'' ''n2'' (Inr (Some (cluster_vmi ''n2'')))]\<rparr>)"
  by (simp add: getDesiredEndpoints_def tenantNodes_def tenant_slice_def tenant_service_def infra_service_def
      node_endpoint_def cluster_env_def cluster_vmi_def vmiEndpoints_def NewKubevirtEPSController_def go_bind_def init_est_def)

section \<open>Properties\<close>

text \<open>
  C6. What a reconcile may write: every created slice is a new, unnamed slice in the namespace of the
  service that the service owns; every updated or deleted slice is one that the API server listed
  for that service in the same reconcile; without such a listing nothing is written.
\<close>

theorem reconcile_writes:
  "wp (reconcile e c r) (\<lambda>_ s'. \<exists>cs svc listed. ecalls s' = ecalls s @ cs \<and>
     list_all (touches svc listed) (filter is_write cs) \<and>
     (filter is_write cs = [] \<or> EListInfra (sv_Namespace svc) (service_selector svc) (Inr listed) \<in> set cs)) s"
proof (rule wpI)
  fix res s'
  assume "reconcile e c r s = Some (res, s')"
  then show "\<exists>cs svc listed. ecalls s' = ecalls s @ cs \<and> list_all (touches svc listed) (filter is_write cs) \<and>
     (filter is_write cs = [] \<or> EListInfra (sv_Namespace svc) (service_selector svc) (Inr listed) \<in> set cs)"
  proof (cases rule: reconcile_runs [where svc = infra_service])
    case (quiet cs)
    then show ?thesis by (intro exI [of _ cs]) simp
  next
    case (handled service0 found listed s2)
    let ?svc = "case found of Inl _ \<Rightarrow> service0 | Inr svc \<Rightarrow> svc"
    let ?reads = "[ELister (ct_infraNamespace c) (sv_Name service0) found,
      EListInfra (sv_Namespace ?svc) (service_selector ?svc) (Inr listed)]"
    from emitsD [OF reconcileListed_emits handled(4)] obtain cs where
      "ecalls s' = ecalls s2 @ cs" "list_all (touches ?svc listed) cs" by blast
    with handled(3) show ?thesis
      by (intro exI [of _ "?reads @ cs"] exI [of _ ?svc] exI [of _ listed]) (auto simp: is_write_def list_all_iff)
  qed
qed

text \<open>
  C20. Cleaning up after a deleted service: when the lister no longer knows the service, a reconcile
  that succeeds has deleted exactly the slices managed by this controller among those listed for the
  service, in the order of the listing, and has created and updated none; it never panics.
\<close>

theorem deleted_service_cleanup:
  assumes "rq_Obj r = ObjService (Some svc)" "ee_Lister_Get e s (ct_infraNamespace c) (sv_Name svc) = Inl gone"
    and "lget (sv_Labels svc) TenantServiceNameLabelKey \<noteq> ''''" "lget (sv_Labels svc) TenantServiceNamespaceLabelKey \<noteq> ''''"
    and "lget (sv_Labels svc) TenantClusterNameLabelKey \<noteq> ''''"
  shows "wp (reconcile e c r) (\<lambda>res s'. case res of
      Val None \<Rightarrow> \<exists>cs listed. ecalls s' = ecalls s @ cs \<and>
        EListInfra (sv_Namespace svc) (service_selector svc) (Inr listed) \<in> set cs \<and>
        filter is_write cs = map (\<lambda>d. EDelete (es_Namespace d) (es_Name d) None) (filter managedByController listed)
    | Val (Some err) \<Rightarrow> True
    | Panic p \<Rightarrow> False) s"
proof -
  let ?l = "ELister (ct_infraNamespace c) (sv_Name svc) (Inl gone)" and ?sel = "service_selector svc"
  let ?s1 = "s\<lparr>ecalls := ecalls s @ [?l]\<rparr>"
  let ?listed = "ee_infra_EPS_List e ?s1 (sv_Namespace svc) ?sel"
  have "tenant_labelled svc" using assms(3-5) by (simp add: tenant_labelled_def)
  then have run: "reconcile e c r s =
      (case ?listed of Inl err \<Rightarrow> go_ret (Some err) | Inr l \<Rightarrow> go_each (deleteSlice e) (filter managedByController l))
        (s\<lparr>ecalls := ecalls s @ [?l, EListInfra (sv_Namespace svc) ?sel ?listed]\<rparr>)"
    using reconcile_reads [OF assms(1), of e c s] assms(2)
    by (simp add: reconcileListed_def sortSlices_deleted go_bind_def Let_def split: sum.split)
  show ?thesis
  proof (cases ?listed)
    case (Inl err)
    then show ?thesis unfolding wp_def run by simp
  next
    case (Inr l)
    let ?d = "EDelete" and ?reads = "[?l, EListInfra (sv_Namespace svc) ?sel (Inr l)]"
    have "filter is_write (?reads @ map (\<lambda>d. EDelete (es_Namespace d) (es_Name d) None) ds)
        = map (\<lambda>d. EDelete (es_Namespace d) (es_Name d) None) ds" for ds :: "EndpointSlice list"
      by (simp add: is_write_def filter_map comp_def)
    then have "wp (go_each (deleteSlice e) (filter managedByController l)) (\<lambda>res s'. case res of
        Val None \<Rightarrow> \<exists>cs listed. ecalls s' = ecalls s @ cs \<and> EListInfra (sv_Namespace svc) ?sel (Inr listed) \<in> set cs \<and>
          filter is_write cs = map (\<lambda>d. EDelete (es_Namespace d) (es_Name d) None) (filter managedByController listed)
      | Val (Some err) \<Rightarrow> True | Panic p \<Rightarrow> False) (s\<lparr>ecalls := ecalls s @ ?reads\<rparr>)"
      by (intro wp_conseq [OF deletes_run])
         (auto split: outcome.splits option.splits intro!: exI [of _ "?reads @ map _ (filter managedByController l)"] exI [of _ l])
    with Inr show ?thesis unfolding wp_def run by simp
  qed
qed

theorem deleted_service_cleanup_witness:
  "\<exists>s'. reconcile cluster_env cluster_controller (newRequest DeleteReq (ObjService (Some (tenant_service\<lparr>sv_Name := ''gone''\<rparr>))) None)
     init_est = Some (Val None, s') \<and> filter is_write (ecalls s') = [EDelete ''infra'' ''lb-x1'' None]"
proof -
  let ?svc = "tenant_service\<lparr>sv_Name := ''gone''\<rparr>"
  let ?r = "newRequest DeleteReq (ObjService (Some ?svc)) None"
  have "managedByController old_slice" by (simp add: managedByController_def old_slice_def lget_def)
  then have run: "\<exists>s'. reconcile cluster_env cluster_controller ?r init_est = Some (Val None, s') \<and>
      ecalls s' = [ELister ''infra'' ''gone'' (Inl (KubeError ReasonNotFound ''no such service'')),
        EListInfra ''infra'' (service_selector ?svc) (Inr [old_slice]), EDelete ''infra'' ''lb-x1'' None]"
    by (simp add: reconcile_def reconcileListed_def sortSlices_deleted getInfraEPSFromInfraService_def deleteSlice_def
        service_selector_def go_bind_def Let_def newRequest_def cluster_env_def NewKubevirtEPSController_def lget_def init_est_def)
       (simp add: tenant_service_def infra_service_def old_slice_def newSlice_def TenantServiceNameLabelKey_def
         TenantServiceNamespaceLabelKey_def TenantClusterNameLabelKey_def)
  have hyp: "rq_Obj ?r = ObjService (Some ?svc)"
    "ee_Lister_Get cluster_env init_est (ct_infraNamespace cluster_controller) (sv_Name ?svc) = Inl (KubeError ReasonNotFound ''no such service'')"
    "lget (sv_Labels ?svc) TenantServiceNameLabelKey \<noteq> ''''" "lget (sv_Labels ?svc) TenantServiceNamespaceLabelKey \<noteq> ''''"
    "lget (sv_Labels ?svc) TenantClusterNameLabelKey \<noteq> ''''"
    by (simp_all add: newRequest_def cluster_env_def lget_def tenant_service_def TenantServiceNameLabelKey_def
         TenantServiceNamespaceLabelKey_def TenantClusterNameLabelKey_def)
  from run obtain s' where s': "reconcile cluster_env cluster_controller ?r init_est = Some (Val None, s')"
    "ecalls s' = [ELister ''infra'' ''gone'' (Inl (KubeError ReasonNotFound ''no such service'')),
        EListInfra ''infra'' (service_selector ?svc) (Inr [old_slice]), EDelete ''infra'' ''lb-x1'' None]" by blast
  from wpD [OF deleted_service_cleanup [OF hyp] s'(1)] s' show ?thesis
    by (auto simp: is_write_def)
qed

text \<open>
  C16. A service that moves crashes the controller: when none of the endpoints of the existing slices
  is desired any more, at least one other endpoint is, and the service owns one of the slices, then
  \<^verbatim>\<open>reconcileByAddressType\<close> panics with an index out of range before it writes anything.
\<close>

theorem moved_service_panics:
  assumes desired: "getDesiredEndpoints e c service ts s = Some (Val des, s1)" "des \<noteq> []"
    and gone: "list_all (\<lambda>x. es_Endpoints x \<noteq> [] \<and>
      set (keys (ee_hash e) (es_Endpoints x)) \<inter> set (keys (ee_hash e) (set_Insert (ee_hash e) [] des)) = {}) existing"
    and owned: "x \<in> set existing" "es_AddressType x = t" "ownedBy x service"
  shows "reconcileByAddressType e c service ts existing t s = Some (Panic IndexOutOfRange, s1)"
proof -
  let ?p = "planSlices (ee_hash e) (ee_pick e s1) (ct_maxEndPointsPerSlice c) service des existing t"
  have "set_Insert (ee_hash e) [] des \<noteq> []"
    using desired(2) by (cases des rule: rev_cases) (simp_all add: set_Insert_def)
  note p = plan_replaces [OF gone this, where pick = "ee_pick e s1" and mx = "ct_maxEndPointsPerSlice c"
      and service = service and t = t]
  then obtain n where n: "pl_create ?p = [n]" by (cases "pl_create ?p") auto
  then have "es_AddressType n = t"
    using plan_ids(3) [of n "ee_hash e" "ee_pick e s1" "ct_maxEndPointsPerSlice c" service des existing t]
    by (simp add: slice_id_def newSlice_def)
  have "slice_id x \<in> set (map slice_id (pl_delete ?p))" using p owned(1) by simp
  then obtain d where d: "d \<in> set (pl_delete ?p)" "slice_id d = slice_id x" by auto
  then have "ownedBy d service" "es_AddressType d = t"
    using slice_id_owned [OF d(2), of service] owned(2,3) by (simp_all only:)

  with d(1) \<open>es_AddressType n = t\<close> have "\<exists>d\<in>set (pl_delete ?p). es_AddressType d = es_AddressType n \<and> ownedBy d service" by blast
  then have "mergeLoop service (pl_create ?p) 0 [] [] (pl_delete ?p) = None"
    by (simp only: n mergeLoop_one if_True)
  then show ?thesis
    unfolding reconcileByAddressType_def using desired(1) by (simp add: go_bind_Some(1) finalize_def)
qed

theorem moved_service_panics_witness:
  "reconcileByAddressType cluster_env cluster_controller tenant_service [tenant_slice] [old_slice] AddressTypeIPv4 init_est =
     Some (Panic IndexOutOfRange, init_est\<lparr>ecalls := [EGetVMI ''infra'' ''n2'' (Inr (Some (cluster_vmi ''n2'')))]\<rparr>)"
  by (rule moved_service_panics [OF cluster_desired, where x = old_slice])
     (simp_all add: old_slice_def newSlice_def ownedBy_def cluster_env_def set_Insert_def set_Delete_def hashEndpoint_def
       demo_hash_def node_endpoint_def sortAddresses_def)

text \<open>
  C35. The tracker never shrinks back: every reconcile registers every listed tenant slice again, so
  that the register grows by the length of each listing, and a slice that was listed in two
  reconciles is still tracked after the callback for its deletion.
\<close>

theorem tracker_outlives_deletion:
  assumes "getTenantEPSFromInfraService e svc s = Some (Val (Inr items), s1)" "eps \<in> set items"
    and "getTenantEPSFromInfraService e' svc' s1 = Some (Val (Inr items'), s2)" "eps \<in> set items'"
    and "handle e'' c (TenantDeleted (Obj eps)) s2 = Some (Val (), s3)"
  shows "length (register s2) = length (register s) + length items + length items' \<and> tracker_contains (register s3) eps"
proof -
  have add: "register b = foldl tracker_add (register a) xs"
    if "getTenantEPSFromInfraService f v a = Some (Val (Inr xs), b)" for f v a xs b
    using that by (auto simp: getTenantEPSFromInfraService_def go_bind_def go_then_def Let_def split: sum.splits)
  have len: "length (foldl tracker_add reg xs) = length reg + length xs" for reg xs
    by (induction xs arbitrary: reg) (simp_all add: tracker_add_def)
  have c1: "tracker_contains (register s1) eps" using add [OF assms(1)] tracker.contains_added [OF assms(2)] by simp
  have "tracker_contains (register s2) eps" using add [OF assms(3)] tracker.add_all_mono [OF c1] by simp
  then have "register s3 = tracker_remove (register s2) eps"
    using assms(5) by (auto simp: asserted_def onTenantSlice_def getInfraServiceFromTenantEPS_def go_bind_def go_then_def
        queue_Add_def Let_def split: sum.splits if_splits)
  moreover have "tracker_contains (tracker_remove (register s2) eps) eps"
    using add [OF assms(3)] tracker.registered_twice [OF assms(4) c1] by simp
  ultimately show ?thesis using add [OF assms(1)] add [OF assms(3)] by (simp add: len)
qed

theorem tracker_outlives_deletion_witness:
  "\<exists>s2 s3. register s2 = [eps_name tenant_slice, eps_name tenant_slice] \<and>
     handle cluster_env cluster_controller (TenantDeleted (Obj tenant_slice)) s2 = Some (Val (), s3) \<and>
     tracker_contains (register s3) tenant_slice"
proof -
  let ?get = "getTenantEPSFromInfraService cluster_env tenant_service"
  obtain s1 where s1: "?get init_est = Some (Val (Inr [tenant_slice]), s1)" "register s1 = [eps_name tenant_slice]"
    by (auto simp: getTenantEPSFromInfraService_def go_bind_def go_then_def cluster_env_def Let_def tracker_add_def init_est_def)
  obtain s2 where s2: "?get s1 = Some (Val (Inr [tenant_slice]), s2)" "register s2 = [eps_name tenant_slice, eps_name tenant_slice]"
    by (auto simp: getTenantEPSFromInfraService_def go_bind_def go_then_def cluster_env_def Let_def tracker_add_def s1(2))
  obtain s3 where s3: "handle cluster_env cluster_controller (TenantDeleted (Obj tenant_slice)) s2 = Some (Val (), s3)"
    by (auto simp: asserted_def onTenantSlice_def tracker_contains_def s2(2) getInfraServiceFromTenantEPS_def go_bind_def
        go_then_def queue_Add_def Let_def cluster_env_def)
  from tracker_outlives_deletion [OF s1(1) _ s2(1) _ s3] s2(2) s3 show ?thesis by auto
qed

text \<open>
  C21. The desired endpoints of a service, on an API server whose answers for machines stay the same
  during the call. A service with a selector whose traffic policy is not \<^verbatim>\<open>Local\<close> has none. For any
  other service: an endpoint of a tenant slice without a node name makes the process panic, and so
  does (as an exit) a machine that cannot be converted; else the result depends only on the set of
  nodes that the slices name: for each such node, in alphabetical order, one endpoint per interface
  named \<^verbatim>\<open>default\<close> of the machine of that name; machines that cannot be read are left out.
\<close>

theorem desired_endpoints_spec:
  assumes vmis: "\<And>s n. ee_VMI_Get e s (ct_infraNamespace c) n = vmis n"
    and nodes: "nodes = {n. Some n \<in> set (tenantNodes ts)}"
  shows "\<exists>r s'. getDesiredEndpoints e c service ts s = Some (r, s') \<and>
    r = (if sv_ExternalTrafficPolicy service \<noteq> ''Local'' \<and> sv_Selector service \<noteq> None then Val []
         else if None \<in> set (tenantNodes ts) then Panic NilDereference
         else if Inr None \<in> vmis ` nodes then Panic FatalExit
         else Val (concat (map (\<lambda>n. case vmis n of Inr (Some v) \<Rightarrow> vmiEndpoints v | _ \<Rightarrow> []) (sorted_list_of_set nodes))))"
proof (cases "(sv_ExternalTrafficPolicy service = ''Local'' \<or> sv_Selector service = None) \<and> None \<notin> set (tenantNodes ts)")
  case False
  then show ?thesis by (auto simp: getDesiredEndpoints_def)
next
  case True
  have "x = Some (the x)" if "x \<in> set (tenantNodes ts)" for x using True that by (cases x) auto
  then have "set (map the (tenantNodes ts)) = nodes" unfolding nodes by (auto intro!: image_eqI [where x = "Some _"])
  then have sorted: "sort (remdups (map the (tenantNodes ts))) = sorted_list_of_set nodes" "set (sorted_list_of_set nodes) = nodes"
    by (metis sorted_list_of_set_sort_remdups, metis List.finite_set set_sorted_list_of_set)
  then have "getDesiredEndpoints e c service ts = desiredForNodes e c (sorted_list_of_set nodes)"
    using True by (simp add: getDesiredEndpoints_def)
  with True desiredForNodes_spec [OF vmis, of "sorted_list_of_set nodes" s] sorted(2) show ?thesis by auto
qed

theorem desired_endpoints_spec_witness:
  "\<exists>s'. getDesiredEndpoints cluster_env cluster_controller tenant_service [tenant_slice] init_est =
    Some (Val [node_endpoint ''10.0.0.2'' ''h2''], s')"
proof -
  have "{n. Some n \<in> set (tenantNodes [tenant_slice])} = {''n2''}"
    by (auto simp: tenantNodes_def tenant_slice_def node_endpoint_def)
  moreover have "vmiEndpoints (cluster_vmi n) = [node_endpoint ''10.0.0.2'' ''h2'']" for n
    by (simp add: vmiEndpoints_def cluster_vmi_def node_endpoint_def)
  ultimately show ?thesis
    using desired_endpoints_spec [of cluster_env cluster_controller "\<lambda>n. Inr (Some (cluster_vmi n))" "{''n2''}" "[tenant_slice]" tenant_service init_est]
    by (simp add: tenant_service_def infra_service_def cluster_env_def tenantNodes_def tenant_slice_def node_endpoint_def image_iff)
qed

end
