(* ===== verification/EPS_Settle.thy ===== *)
theory EPS_Settle
  imports EPS_Controller
begin

text \<open>
  What the writes of a reconcile do to the slices the API server stores. The store is the list of
  slices of a service; the confirmed writes in the call history are applied to it in order. The
  theory shows that after a successful reconcile the stored slices are settled: the next reconcile
  for the same desired endpoints writes nothing.
\<close>

section \<open>The store\<close>

datatype store_write = WCreate EndpointSlice | WUpdate EndpointSlice | WDelete namespaced_name

text \<open>The writes that the API server confirmed; a create stores the slice the server answers with.\<close>

fun confirmed :: "ecall \<Rightarrow> store_write option" where
  "confirmed (ECreate ns s (Inr stored)) = Some (WCreate stored)"
| "confirmed (EUpdate ns s None) = Some (WUpdate s)"
| "confirmed (EDelete ns n None) = Some (WDelete (ns, n))"
| "confirmed _ = None"

fun apply_write :: "EndpointSlice list \<Rightarrow> store_write \<Rightarrow> EndpointSlice list" where
  "apply_write st (WCreate s) = st @ [s]"
| "apply_write st (WUpdate s) = map (\<lambda>x. if eps_name x = eps_name s then s else x) st"
| "apply_write st (WDelete n) = filter (\<lambda>x. eps_name x \<noteq> n) st"

definition store_after :: "EndpointSlice list \<Rightarrow> ecall list \<Rightarrow> EndpointSlice list" where
  "store_after st cs = foldl apply_write st (List.map_filter confirmed cs)"

section \<open>The sequence of writes\<close>

text \<open>
  An API server that stores what it is given: a created slice gets a name that no other slice has,
  and is otherwise stored as sent.
\<close>

definition stores_creates :: "eps_env \<Rightarrow> EndpointSlice list \<Rightarrow> bool" where
  "stores_creates e existing \<longleftrightarrow> (\<forall>s ns x y. ee_EPS_Create e s ns x = Inr y \<longrightarrow>
     unnamed y = unnamed x \<and> eps_name y \<notin> eps_name ` set existing)"

lemma creates_success:
  assumes "stores_creates e existing"
  shows "wp (go_each (createSlice e) xs) (\<lambda>r s'. r = Val None \<longrightarrow> (\<exists>cs ys. ecalls s' = ecalls s @ cs \<and>
    List.map_filter confirmed cs = map WCreate ys \<and> map unnamed ys = map unnamed xs \<and>
    list_all (\<lambda>y. eps_name y \<notin> eps_name ` set existing) ys)) s"
proof (induction xs arbitrary: s)
  case (Cons x xs)
  let ?a = "ee_EPS_Create e s (es_Namespace x) x"
  show ?case
  proof (cases ?a)
    case (Inr y)
    let ?s = "s\<lparr>ecalls := ecalls s @ [ECreate (es_Namespace x) x (Inr y)]\<rparr>"
    have y: "unnamed y = unnamed x" "eps_name y \<notin> eps_name ` set existing"
      using assms Inr by (auto simp: stores_creates_def)
    have "wp (go_each (createSlice e) xs) (\<lambda>r s'. r = Val None \<longrightarrow> (\<exists>cs ys. ecalls s' = ecalls s @ cs \<and>
        List.map_filter confirmed cs = map WCreate ys \<and> map unnamed ys = map unnamed (x # xs) \<and>
        list_all (\<lambda>y. eps_name y \<notin> eps_name ` set existing) ys)) ?s"
    proof (rule wp_conseq [OF Cons.IH], intro impI)
      fix r s'
      assume "r = Val None \<longrightarrow> (\<exists>cs ys. ecalls s' = ecalls ?s @ cs \<and> List.map_filter confirmed cs = map WCreate ys \<and>
          map unnamed ys = map unnamed xs \<and> list_all (\<lambda>y. eps_name y \<notin> eps_name ` set existing) ys)" "r = Val None"
      then obtain cs ys where "ecalls s' = ecalls ?s @ cs" "List.map_filter confirmed cs = map WCreate ys"
        "map unnamed ys = map unnamed xs" "list_all (\<lambda>y. eps_name y \<notin> eps_name ` set existing) ys" by blast
      with y show "\<exists>cs ys. ecalls s' = ecalls s @ cs \<and> List.map_filter confirmed cs = map WCreate ys \<and>
          map unnamed ys = map unnamed (x # xs) \<and> list_all (\<lambda>y. eps_name y \<notin> eps_name ` set existing) ys"
        by (intro exI [of _ "ECreate (es_Namespace x) x (Inr y) # cs"] exI [of _ "y # ys"]) (simp add: map_filter_simps)
    qed
    with Inr show ?thesis by (simp add: go_wp)
  qed (simp add: go_wp)
qed (simp add: go_wp map_filter_simps)

lemma updates_success:
  "wp (go_each (updateSlice e) xs) (\<lambda>r s'. r = Val None \<longrightarrow> (\<exists>cs. ecalls s' = ecalls s @ cs \<and>
    List.map_filter confirmed cs = map WUpdate xs)) s"
proof (induction xs arbitrary: s)
  case (Cons x xs)
  show ?case
  proof (cases "ee_EPS_Update e s (es_Namespace x) x")
    case None
    let ?s = "s\<lparr>ecalls := ecalls s @ [EUpdate (es_Namespace x) x None]\<rparr>"
    have "wp (go_each (updateSlice e) xs) (\<lambda>r s'. r = Val None \<longrightarrow> (\<exists>cs. ecalls s' = ecalls s @ cs \<and>
        List.map_filter confirmed cs = map WUpdate (x # xs))) ?s"
    proof (rule wp_conseq [OF Cons.IH], intro impI)
      fix r s'
      assume "r = Val None \<longrightarrow> (\<exists>cs. ecalls s' = ecalls ?s @ cs \<and> List.map_filter confirmed cs = map WUpdate xs)" "r = Val None"
      then obtain cs where "ecalls s' = ecalls ?s @ cs" "List.map_filter confirmed cs = map WUpdate xs" by blast
      then show "\<exists>cs. ecalls s' = ecalls s @ cs \<and> List.map_filter confirmed cs = map WUpdate (x # xs)"
        by (intro exI [of _ "EUpdate (es_Namespace x) x None # cs"]) (simp add: map_filter_simps)
    qed
    with None show ?thesis by (simp add: go_wp)
  qed (simp add: go_wp)
qed (simp add: go_wp map_filter_simps)

lemma deletes_success:
  "wp (go_each (deleteSlice e) xs) (\<lambda>r s'. r = Val None \<longrightarrow> (\<exists>cs. ecalls s' = ecalls s @ cs \<and>
    List.map_filter confirmed cs = map (WDelete \<circ> eps_name) xs)) s"
proof (rule wp_conseq [OF deletes_run], intro impI)
  fix r s'
  have eq: "List.map_filter confirmed (map (\<lambda>d. EDelete (es_Namespace d) (es_Name d) None) xs) = map (WDelete \<circ> eps_name) xs"
    by (induction xs) (simp_all add: map_filter_simps eps_name_def)
  assume "\<exists>cs. ecalls s' = ecalls s @ cs \<and> list_all (\<lambda>w. list_ex (\<lambda>d. \<exists>a. w = EDelete (es_Namespace d) (es_Name d) a) xs) cs \<and>
      (case r of Val None \<Rightarrow> cs = map (\<lambda>d. EDelete (es_Namespace d) (es_Name d) None) xs | Val (Some err) \<Rightarrow> True | Panic q \<Rightarrow> False)"
    "r = Val None"
  with eq show "\<exists>cs. ecalls s' = ecalls s @ cs \<and> List.map_filter confirmed cs = map (WDelete \<circ> eps_name) xs" by auto
qed

text \<open>A successful \<^verbatim>\<open>finalize\<close> has carried out the whole plan: creates, then updates, then deletes.\<close>

lemma map_filter_append: "List.map_filter f (xs @ ys) = List.map_filter f xs @ List.map_filter f ys"
  by (simp add: List.map_filter_def)

lemma creates_failure:
  "wp (go_each (createSlice e) xs) (\<lambda>r s'. \<forall>err. r = Val (Some err) \<longrightarrow> (\<exists>s ns x. ee_EPS_Create e s ns x = Inl err)) s"
proof (induction xs arbitrary: s)
  case (Cons x xs)
  show ?case
    using Cons.IH by (cases "ee_EPS_Create e s (es_Namespace x) x") (auto simp: go_wp)
qed (simp add: go_wp)

lemma go_bind_Val:
  assumes "go_bind m f s = Some (Val b, s')"
  obtains a s1 where "m s = Some (Val a, s1)" "f a s1 = Some (Val b, s')"
  using assms by (auto simp: go_bind_def split: option.splits outcome.splits)

lemma finalize_success:
  assumes run: "finalize e service creates updates deletes s = Some (Val None, s')" "length creates \<le> 1"
    and "sv_DeletionTimestamp service = None" "stores_creates e existing"
    and "\<And>s ns x err. ee_EPS_Create e s ns x = Inl err \<Longrightarrow> \<not> NamespaceTerminating err"
  obtains cs ys where "ecalls s' = ecalls s @ cs"
    "List.map_filter confirmed cs = map WCreate ys @ map WUpdate updates @ map (WDelete \<circ> eps_name) deletes"
    "map unnamed ys = map unnamed creates" "list_all (\<lambda>y. eps_name y \<notin> eps_name ` set existing) ys"
proof -
  have "mergeLoop service creates 0 [] [] deletes = Some (creates, 0, [], deletes)"
    using run(1) unfolding finalize_def mergeLoop_plan [OF run(2)] by (simp split: if_splits)
  then have "go_bind (go_each (createSlice e) creates) (\<lambda>created. case created of
      Some err \<Rightarrow> if NamespaceTerminating err then go_ret None else go_ret (Some err)
    | None \<Rightarrow> go_bind (go_each (updateSlice e) updates) (\<lambda>updated. case updated of
        Some err \<Rightarrow> go_ret (Some err) | None \<Rightarrow> go_each (deleteSlice e) deletes)) s = Some (Val None, s')"
    using run(1) assms(3) by (simp add: finalize_def)
  then obtain created s1 where c: "go_each (createSlice e) creates s = Some (Val created, s1)"
    and rest: "(case created of
      Some err \<Rightarrow> if NamespaceTerminating err then go_ret None else go_ret (Some err)
    | None \<Rightarrow> go_bind (go_each (updateSlice e) updates) (\<lambda>updated. case updated of
        Some err \<Rightarrow> go_ret (Some err) | None \<Rightarrow> go_each (deleteSlice e) deletes)) s1 = Some (Val None, s')"
    by (rule go_bind_Val)
  have "created = None"
  proof (rule ccontr)
    assume "created \<noteq> None"
    then obtain err where err: "created = Some err" by auto
    with c wpD [OF creates_failure] assms(5) have "\<not> NamespaceTerminating err" by blast
    with rest err show False by simp
  qed
  with rest obtain updated s2 where u: "go_each (updateSlice e) updates s1 = Some (Val updated, s2)"
    and rest2: "(case updated of Some err \<Rightarrow> go_ret (Some err) | None \<Rightarrow> go_each (deleteSlice e) deletes) s2 = Some (Val None, s')"
    by (auto elim: go_bind_Val)
  then have "updated = None" and d: "go_each (deleteSlice e) deletes s2 = Some (Val None, s')"
    by (auto split: option.splits)
  obtain cs1 ys where 1: "ecalls s1 = ecalls s @ cs1" "List.map_filter confirmed cs1 = map WCreate ys"
    "map unnamed ys = map unnamed creates" "list_all (\<lambda>y. eps_name y \<notin> eps_name ` set existing) ys"
    using wpD [OF creates_success [OF assms(4)] c] \<open>created = None\<close> by blast
  obtain cs2 where 2: "ecalls s2 = ecalls s1 @ cs2" "List.map_filter confirmed cs2 = map WUpdate updates"
    using wpD [OF updates_success u] \<open>updated = None\<close> by blast
  obtain cs3 where 3: "ecalls s' = ecalls s2 @ cs3" "List.map_filter confirmed cs3 = map (WDelete \<circ> eps_name) deletes"
    using wpD [OF deletes_success d] by blast
  show ?thesis
    by (rule that [of "cs1 @ cs2 @ cs3" ys]) (simp_all add: 1 2 3 map_filter_append)
qed

section \<open>The resulting store\<close>

definition sorted_slice :: "EndpointSlice \<Rightarrow> EndpointSlice" where
  "sorted_slice s = s\<lparr>es_Endpoints := map sortAddresses (es_Endpoints s)\<rparr>"

lemma all_endpoints_sorted: "keys H (all_endpoints (map sorted_slice slices)) = keys H (all_endpoints slices)"
  by (simp add: sorted_slice_def map_concat comp_def)

lemma list_all_sorted: "list_all (in_order H service D) (map sorted_slice slices) = list_all (in_order H service D) slices"
proof -
  have "in_order H service D (sorted_slice s) = in_order H service D s" for s
    using ensure_labels_cong [of "sorted_slice s" s service] by (simp add: in_order_def sorted_slice_def list_all_iff)
  then show ?thesis by (simp add: list_all_iff)
qed

lemma eps_name_id: "slice_id x = slice_id y \<Longrightarrow> eps_name x = eps_name y"
  by (simp add: slice_id_def eps_name_def)

lemma apply_creates: "foldl apply_write st (map WCreate ys) = st @ ys"
  by (induction ys arbitrary: st) simp_all

lemma apply_deletes: "foldl apply_write st (map (WDelete \<circ> eps_name) ds) = filter (\<lambda>x. eps_name x \<notin> eps_name ` set ds) st"
proof (induction ds arbitrary: st)
  case (Cons d ds)
  have "foldl apply_write st (map (WDelete \<circ> eps_name) (d # ds)) =
      filter (\<lambda>x. eps_name x \<notin> eps_name ` set ds) (filter (\<lambda>x. eps_name x \<noteq> eps_name d) st)"
    by (simp only: list.map foldl_Cons comp_apply apply_write.simps Cons.IH)
  also have "\<dots> = filter (\<lambda>x. eps_name x \<notin> eps_name ` set (d # ds)) st" by (auto intro!: filter_cong)
  finally show ?case .
qed simp

text \<open>An update by name, for updates with distinct names.\<close>

definition updated_by :: "EndpointSlice list \<Rightarrow> EndpointSlice \<Rightarrow> EndpointSlice" where
  "updated_by us x = (case List.find (\<lambda>u. eps_name u = eps_name x) us of None \<Rightarrow> x | Some u \<Rightarrow> u)"

lemma updated_by_name [simp]: "eps_name (updated_by us x) = eps_name x"
  by (auto simp: updated_by_def find_Some_iff split: option.split)

lemma updated_by_absent: "eps_name x \<notin> eps_name ` set us \<Longrightarrow> updated_by us x = x"
proof -
  assume "eps_name x \<notin> eps_name ` set us"
  then have "List.find (\<lambda>u. eps_name u = eps_name x) us = None" by (auto simp: find_None_iff image_iff)
  then show ?thesis by (simp add: updated_by_def)
qed

lemma updated_by_present:
  assumes "distinct (map eps_name us)" "u \<in> set us" "eps_name u = eps_name x"
  shows "updated_by us x = u"
proof (cases "List.find (\<lambda>u. eps_name u = eps_name x) us")
  case None
  with assms show ?thesis by (auto simp: find_None_iff)
next
  case (Some v)
  then have "v \<in> set us" "eps_name v = eps_name x" by (auto simp: find_Some_iff)
  with assms have "v = u" by (metis distinct_map inj_onD)
  with Some show ?thesis by (simp add: updated_by_def)
qed

lemma apply_updates:
  "distinct (map eps_name us) \<Longrightarrow> foldl apply_write st (map WUpdate us) = map (updated_by us) st"
proof (induction us arbitrary: st)
  case Nil
  have "updated_by [] = id" by (rule ext) (simp add: updated_by_def)
  then show ?case by simp
next
  case (Cons u us)
  have "updated_by us (if eps_name x = eps_name u then u else x) = updated_by (u # us) x" for x
    using Cons.prems updated_by_absent [of u us] by (auto simp: updated_by_def)
  with Cons show ?case by (simp add: comp_def)
qed

text \<open>A plan sorts the existing slices into those to update, to delete and to leave alone.\<close>

lemma review_partition:
  "mset (to_update rs) + mset (to_delete rs) + mset (untouched rs) = mset (map review_slice rs)"
proof (induction rs)
  case (Cons r rs)
  then show ?case by (cases r) (simp_all add: to_update_def to_delete_def untouched_def map_filter_simps)
qed (simp add: to_update_def to_delete_def untouched_def map_filter_simps)

lemma sortAddresses_idem [simp]: "sortAddresses (sortAddresses ep) = sortAddresses ep"
  by (simp add: sortAddresses_def sorted_sort_id)

lemma sorted_slice_idem [simp]: "sorted_slice (sorted_slice s) = sorted_slice s"
  by (simp add: sorted_slice_def comp_def)

lemma sorted_slice_name [simp]: "eps_name (sorted_slice s) = eps_name s"
  by (simp add: sorted_slice_def eps_name_def)

lemma sorted_distinct: "distinct (map eps_name xs) \<Longrightarrow> distinct (map sorted_slice xs)"
proof -
  have "map eps_name xs = map eps_name (map sorted_slice xs)" by simp
  then show "distinct (map eps_name xs) \<Longrightarrow> distinct (map sorted_slice xs)" by (metis distinct_map)
qed

lemma review_untouched:
  "reviewSlice H service ports x ds = (RUntouched y, left) \<Longrightarrow> y = sorted_slice x"
  by (auto simp: reviewSlice_def sorted_slice_def Let_def split: prod.splits if_splits)

lemma untouched_existing:
  "reviewSlices H service ports slices ds = (rs, left) \<Longrightarrow> set (untouched rs) \<subseteq> sorted_slice ` set slices"
proof (induction slices arbitrary: ds rs left)
  case (Cons x slices)
  then obtain r l rs' where r: "reviewSlice H service ports x ds = (r, l)"
    and "reviewSlices H service ports slices l = (rs', left)" "rs = r # rs'" by (auto split: prod.splits)
  with Cons.IH show ?case
    by (cases r) (auto simp: untouched_def map_filter_simps dest: review_untouched)
qed (simp add: untouched_def map_filter_simps)

lemma plan_partition:
  fixes H pick mx service des existing t
  defines "p \<equiv> planSlices H pick mx service des existing t"
  shows "mset (map eps_name (pl_update p @ pl_same p @ pl_delete p)) = mset (map eps_name existing)"
    and "set (pl_same p) \<subseteq> sorted_slice ` set existing"
proof -
  let ?new = "newSlice service (desiredPorts service) t"
  obtain rs l1 where rs: "reviewSlices H service (desiredPorts service) existing (set_Insert H [] des) = (rs, l1)" by fastforce
  obtain ups l2 where ups: "fillSlices H pick mx (to_update rs) l1 = (ups, l2)" by fastforce
  obtain us l3 where us: "fillSlices H pick mx (untouched rs) l2 = (us, l3)" by fastforce
  obtain n l4 where n: "fillSlice H pick mx (?new\<lparr>es_Labels := fst (ensureEndpointSliceLabels ?new service)\<rparr>) l3 = (n, l4)"
    by fastforce
  note p = planSlices_eq [OF rs ups us n, folded p_def]
  have names: "map eps_name xs = map eps_name ys" if "map slice_id xs = map slice_id ys" for xs ys
    using arg_cong [OF that, of "map (\<lambda>(ns, n, _). (ns, n))"] by (simp add: comp_def slice_id_def eps_name_def [abs_def])
  have ids: "mset (map eps_name ups) = mset (map eps_name (to_update rs))" "mset (map eps_name us) = mset (map eps_name (untouched rs))"
    "map eps_name (map review_slice rs) = map eps_name existing"
    using names [OF fillSlices_id [OF ups]] names [OF fillSlices_id [OF us]]
      names [of "map review_slice rs" existing] reviews_id [OF rs] by simp_all
  have "mset (map eps_name (pl_update p @ pl_same p @ pl_delete p)) =
      image_mset eps_name (mset (to_update rs) + mset (to_delete rs) + mset (untouched rs))"
    using ids(1,2) by (simp add: p)
  also have "\<dots> = mset (map eps_name existing)"
    unfolding review_partition mset_map [symmetric] ids(3) ..
  finally show "mset (map eps_name (pl_update p @ pl_same p @ pl_delete p)) = mset (map eps_name existing)" .
  show "set (pl_same p) \<subseteq> sorted_slice ` set existing"
    using untouched_existing [OF rs] by (auto simp: p)
qed

text \<open>Updating and deleting by name leaves what the plan says, up to the order of addresses.\<close>

lemma partition_names:
  assumes "mset (map eps_name (us @ same @ ds)) = mset (map eps_name existing)" "distinct (map eps_name existing)"
  shows "distinct (map eps_name (us @ same))" "eps_name ` set us \<inter> eps_name ` set same = {}"
    "(eps_name ` set us \<union> eps_name ` set same) \<inter> eps_name ` set ds = {}"
    "eps_name ` set existing = eps_name ` set us \<union> eps_name ` set same \<union> eps_name ` set ds"
proof -
  have "distinct (map eps_name (us @ same @ ds))" using assms by (metis mset_eq_imp_distinct_iff)
  then show "distinct (map eps_name (us @ same))" "eps_name ` set us \<inter> eps_name ` set same = {}"
    "(eps_name ` set us \<union> eps_name ` set same) \<inter> eps_name ` set ds = {}"
    by auto
  show "eps_name ` set existing = eps_name ` set us \<union> eps_name ` set same \<union> eps_name ` set ds"
    using arg_cong [OF assms(1), of set_mset] by (simp add: image_Un Un_assoc)
qed

lemma stored_is_planned:
  assumes "mset (map eps_name (us @ same @ ds)) = mset (map eps_name existing)" "distinct (map eps_name existing)"
    and "set same \<subseteq> sorted_slice ` set existing" "x \<in> set existing" "eps_name x \<notin> eps_name ` set ds"
  shows "sorted_slice (updated_by us x) \<in> sorted_slice ` set (us @ same)"
proof -
  note names = partition_names [OF assms(1,2)]
  have "eps_name x \<in> eps_name ` set us \<union> eps_name ` set same" using names(4) assms(4,5) by blast
  then consider u where "u \<in> set us" "eps_name u = eps_name x" | s where "s \<in> set same" "eps_name s = eps_name x"
    by (elim UnE imageE) (simp_all add: eq_commute)
  then show ?thesis
  proof cases
    case (1 u)
    then show ?thesis using updated_by_present [of us u x] names(1) by auto
  next
    case (2 s)
    with assms(3) obtain y where "y \<in> set existing" "s = sorted_slice y" by auto
    with 2 assms(2,4) have "s = sorted_slice x" by (metis distinct_map inj_onD sorted_slice_name)
    moreover have "updated_by us x = x" using names(2) 2 by (metis IntI empty_iff imageI updated_by_absent)
    ultimately show ?thesis using 2(1) by (auto intro!: image_eqI [where x = s])
  qed
qed

lemma planned_is_stored:
  assumes "mset (map eps_name (us @ same @ ds)) = mset (map eps_name existing)" "distinct (map eps_name existing)"
    and "set same \<subseteq> sorted_slice ` set existing" "z \<in> set (us @ same)"
  shows "\<exists>x\<in>set existing. eps_name x \<notin> eps_name ` set ds \<and> sorted_slice (updated_by us x) = sorted_slice z"
proof -
  note names = partition_names [OF assms(1,2)]
  have z: "eps_name z \<notin> eps_name ` set ds" using names(3) assms(4) by auto
  show ?thesis
  proof (cases "z \<in> set us")
    case True
    then have "eps_name z \<in> eps_name ` set existing" unfolding names(4) by blast
    then obtain x where "x \<in> set existing" "eps_name z = eps_name x" by (elim imageE)
    with z True updated_by_present [of us z x] names(1) show ?thesis by auto
  next
    case False
    with assms(3,4) obtain y where y: "y \<in> set existing" "z = sorted_slice y" "z \<in> set same" by auto
    then have "updated_by us y = y"
      using names(2) by (metis IntI empty_iff imageI updated_by_absent sorted_slice_name)
    with y z show ?thesis by (intro bexI [of _ y]) simp_all
  qed
qed

lemma store_planned:
  assumes "mset (map eps_name (us @ same @ ds)) = mset (map eps_name existing)" "distinct (map eps_name existing)"
    and "set same \<subseteq> sorted_slice ` set existing"
  shows "mset (map sorted_slice (filter (\<lambda>x. eps_name x \<notin> eps_name ` set ds) (map (updated_by us) existing)))
    = mset (map sorted_slice (us @ same))"
proof -
  let ?L = "filter (\<lambda>x. eps_name x \<notin> eps_name ` set ds) (map (updated_by us) existing)"
  have L: "set ?L = updated_by us ` {x \<in> set existing. eps_name x \<notin> eps_name ` set ds}" by auto
  have "sorted_slice ` set ?L = sorted_slice ` set (us @ same)"
  proof (intro subset_antisym subsetI)
    fix z assume "z \<in> sorted_slice ` set ?L"
    then show "z \<in> sorted_slice ` set (us @ same)" using stored_is_planned [OF assms] by (auto simp: L)
  next
    fix z assume "z \<in> sorted_slice ` set (us @ same)"
    then obtain y where y: "y \<in> set (us @ same)" "z = sorted_slice y" by blast
    obtain x where "x \<in> set existing" "eps_name x \<notin> eps_name ` set ds" "sorted_slice (updated_by us x) = z"
      using planned_is_stored [OF assms y(1)] y(2) by blast
    then have "updated_by us x \<in> set ?L" unfolding L by blast
    then show "z \<in> sorted_slice ` set ?L" using \<open>sorted_slice (updated_by us x) = z\<close> by blast
  qed
  moreover have "map eps_name (map (updated_by us) existing) = map eps_name existing" by simp
  then have "distinct (map eps_name ?L)" using assms(2) distinct_map_filter by metis
  then have "distinct (map sorted_slice ?L)" "distinct (map sorted_slice (us @ same))"
    using sorted_distinct partition_names(1) [OF assms(1,2)] by blast+
  ultimately show ?thesis using set_eq_iff_mset_eq_distinct by (metis list.set_map)
qed

lemma apply_plan:
  assumes part: "mset (map eps_name (us @ same @ ds)) = mset (map eps_name existing)" "distinct (map eps_name existing)"
    and same: "set same \<subseteq> sorted_slice ` set existing"
    and ys: "list_all (\<lambda>y. eps_name y \<notin> eps_name ` set existing) ys" "map unnamed ys = map unnamed creates"
  shows "settled H service D (foldl apply_write existing (map WCreate ys @ map WUpdate us @ map (WDelete \<circ> eps_name) ds))
    = settled H service D (creates @ us @ same)"
proof -
  let ?L = "filter (\<lambda>x. eps_name x \<notin> eps_name ` set ds) (map (updated_by us) existing)"
  note names = partition_names [OF part]
  have dus: "distinct (map eps_name us)" using names(1) by simp
  have new: "updated_by us y = y" "eps_name y \<notin> eps_name ` set ds" if "y \<in> set ys" for y
    using that ys(1) names(4) by (auto simp: list_all_iff intro!: updated_by_absent)
  then have "map (updated_by us) ys = ys" "filter (\<lambda>x. eps_name x \<notin> eps_name ` set ds) ys = ys"
    by (simp_all add: map_idI)
  then have store: "foldl apply_write existing (map WCreate ys @ map WUpdate us @ map (WDelete \<circ> eps_name) ds) = ?L @ ys"
    by (simp only: foldl_append apply_creates apply_updates [OF dus] apply_deletes map_append filter_append)
  have split: "settled H service D (as @ bs) \<longleftrightarrow> list_all (in_order H service D) as \<and> list_all (in_order H service D) bs \<and>
      mset (keys H (all_endpoints as)) + mset (keys H (all_endpoints bs)) = mset (keys H D)" for as bs
    by (auto simp: settled_def)
  have olds: "list_all (in_order H service D) ?L = list_all (in_order H service D) (us @ same)"
    "mset (keys H (all_endpoints ?L)) = mset (keys H (all_endpoints (us @ same)))"
    using list_all_sorted all_endpoints_sorted list_all_mset all_endpoints_mset store_planned [OF part same] by metis+
  have news: "list_all (in_order H service D) ys = list_all (in_order H service D) creates"
    "mset (keys H (all_endpoints ys)) = mset (keys H (all_endpoints creates))"
    using list_all_unnamed all_endpoints_unnamed ys(2) by metis+
  show ?thesis unfolding store split olds news by (auto simp: add.commute)
qed

section \<open>A successful reconcile\<close>

text \<open>
  C2. Reconciling settles the store: take an API server that stores a created slice as it was sent,
  under a name of its own, and refuses no create because the namespace is terminating, a service that
  is not being deleted and that has no more desired endpoints than one slice may hold, and slices
  with distinct names. When \<^verbatim>\<open>reconcileByAddressType\<close>
  succeeds, the slices stored after its confirmed writes hold every desired endpoint exactly once
  and nothing else, with the ports and labels of the service, and any later reconcile with the same
  desired endpoints succeeds without writing anything.
\<close>

theorem reconcile_settles:
  assumes run: "reconcileByAddressType e c service ts existing t s = Some (Val None, s')"
    and desired: "getDesiredEndpoints e c service ts s = Some (Val des, s1)"
    and fits: "length (set_Insert (ee_hash e) [] des) \<le> ct_maxEndPointsPerSlice c"
    and existing: "distinct (map eps_name existing)" "stores_creates e existing"
    and alive: "sv_DeletionTimestamp service = None" "\<And>s ns x err. ee_EPS_Create e s ns x = Inl err \<Longrightarrow> \<not> NamespaceTerminating err"
    and later: "ee_hash e' = ee_hash e" "getDesiredEndpoints e' c' service ts' s2 = Some (Val des, s3)"
    and st: "st = store_after existing (drop (length (ecalls s)) (ecalls s'))"
  shows "settled (ee_hash e) service (set_Insert (ee_hash e) [] des) st \<and>
    reconcileByAddressType e' c' service ts' st t' s2 = Some (Val None, s3)"
proof -
  let ?H = "ee_hash e"
  let ?p = "planSlices ?H (ee_pick e s1) (ct_maxEndPointsPerSlice c) service des existing t"
  have fin: "finalize e service (pl_create ?p) (pl_update ?p) (pl_delete ?p) s1 = Some (Val None, s')"
    using run desired by (simp add: reconcileByAddressType_def go_bind_Some(1) Let_def)
  obtain cs0 where cs0: "ecalls s1 = ecalls s @ cs0" "list_all (\<lambda>w. confirmed w = None) cs0"
    using emitsD [OF desired_emits desired, of "\<lambda>w. confirmed w = None"] by auto
  from cs0(2) have none: "List.map_filter confirmed cs0 = []" by (induction cs0) (simp_all add: map_filter_simps)
  obtain cs ys where cs: "ecalls s' = ecalls s1 @ cs"
    "List.map_filter confirmed cs = map WCreate ys @ map WUpdate (pl_update ?p) @ map (WDelete \<circ> eps_name) (pl_delete ?p)"
    "map unnamed ys = map unnamed (pl_create ?p)" "list_all (\<lambda>y. eps_name y \<notin> eps_name ` set existing) ys"
    by (rule finalize_success [OF fin plan_one_create alive(1) existing(2)]) (erule alive(2), blast)
  have "settled ?H service (set_Insert ?H [] des) st = settled ?H service (set_Insert ?H [] des) (planned ?p)"
    unfolding st store_after_def cs(1) cs0(1) planned_def
    by (simp add: map_filter_append none cs(2))
       (simp add: apply_plan [OF plan_partition(1) existing(1) plan_partition(2) cs(4,3)] flip: foldl_append)
  then have settled: "settled ?H service (set_Insert ?H [] des) st" using planned_settled plan_places_all [OF fits] by blast
  from settled_no_change [OF this] show ?thesis
    using settled later by (simp add: reconcileByAddressType_def go_bind_Some(1) Let_def finalize_def)
qed

theorem reconcile_settles_witness:
  "\<exists>s' st. reconcileByAddressType cluster_env cluster_controller tenant_service [tenant_slice] [] AddressTypeIPv4 init_est
       = Some (Val None, s') \<and> st = store_after [] (ecalls s') \<and>
     mset (keys demo_hash (all_endpoints st)) = {#''10.0.0.2''#} \<and>
     (\<exists>s3. reconcileByAddressType cluster_env cluster_controller tenant_service [tenant_slice] st AddressTypeIPv4 s' = Some (Val None, s3) \<and>
        filter is_write (ecalls s3) = filter is_write (ecalls s'))"
proof -
  let ?des = "[node_endpoint ''10.0.0.2'' ''h2'']"
  let ?rec = "reconcileByAddressType cluster_env cluster_controller tenant_service [tenant_slice]"
  let ?vmi = "EGetVMI ''infra'' ''n2'' (Inr (Some (cluster_vmi ''n2'')))"
  let ?p = "planSlices demo_hash (\<lambda>_. 0) 100 tenant_service ?des [] AddressTypeIPv4"
  have desired: "getDesiredEndpoints cluster_env cluster_controller tenant_service [tenant_slice] s =
      Some (Val ?des, s\<lparr>ecalls := ecalls s @ [?vmi]\<rparr>)" for s
    by (simp add: getDesiredEndpoints_def tenantNodes_def tenant_slice_def tenant_service_def infra_service_def
        node_endpoint_def cluster_env_def cluster_vmi_def vmiEndpoints_def NewKubevirtEPSController_def go_bind_def)
  have creates: "\<exists>s'. go_each (createSlice cluster_env) xs s = Some (Val None, s')" for xs s
    by (induction xs arbitrary: s) (simp_all add: createSlice_def go_bind_def cluster_env_def)
  have "pl_update ?p = []" "pl_delete ?p = []"
    by (auto simp: planSlices_def to_update_def to_delete_def untouched_def map_filter_simps Let_def split: prod.splits)
  moreover have "ee_hash cluster_env = demo_hash" "ee_pick cluster_env s = (\<lambda>_. 0)" "ct_maxEndPointsPerSlice cluster_controller = 100" for s
    by (simp_all add: cluster_env_def NewKubevirtEPSController_def)
  moreover obtain s' where "go_each (createSlice cluster_env) (pl_create ?p) (init_est\<lparr>ecalls := ecalls init_est @ [?vmi]\<rparr>) = Some (Val None, s')"
    using creates by blast
  ultimately have run: "?rec [] AddressTypeIPv4 init_est = Some (Val None, s')"
    by (simp add: reconcileByAddressType_def desired go_bind_Some(1) finalize_def Let_def)
       (simp add: tenant_service_def infra_service_def go_bind_def)
  have hyps: "length (set_Insert (ee_hash cluster_env) [] ?des) \<le> ct_maxEndPointsPerSlice cluster_controller"
    "distinct (map eps_name ([] :: EndpointSlice list))" "stores_creates cluster_env []" "sv_DeletionTimestamp tenant_service = None"
    "\<And>s ns x err. ee_EPS_Create cluster_env s ns x = Inl err \<Longrightarrow> \<not> NamespaceTerminating err"
    by (simp_all add: cluster_env_def NewKubevirtEPSController_def stores_creates_def tenant_service_def infra_service_def set_Insert_def
        set_Delete_def)
  have "settled (ee_hash cluster_env) tenant_service (set_Insert (ee_hash cluster_env) [] ?des) (store_after [] (ecalls s')) \<and>
      ?rec (store_after [] (ecalls s')) AddressTypeIPv4 s' = Some (Val None, s'\<lparr>ecalls := ecalls s' @ [?vmi]\<rparr>)"
    by (rule reconcile_settles [OF run desired hyps(1-4) _ refl desired]) (use hyps(5) in \<open>simp_all add: init_est_def\<close>)
  with run show ?thesis
    by (auto simp: settled_def cluster_env_def set_Insert_def set_Delete_def hashEndpoint_def demo_hash_def node_endpoint_def
        sortAddresses_def is_write_def)
qed

end
