(* ===== verification/EPS_Queue.thy ===== *)
theory EPS_Queue
  imports EPS_Controller "HOL-Library.Multiset"
begin

text \<open>
  The work queue of the endpoint slice controller as a protocol of small steps: an informer callback,
  taking a request (\<^verbatim>\<open>queue.Get\<close>), the reconcile, what becomes of the request afterwards, a delayed
  request coming back, and the shutdown. A locale states what an invariant has to satisfy, one law
  per step, where the invariant may speak about the requests that the workers hold; it is interpreted
  for the bound on the retries and for the order of listings and writes. Its client is \<^verbatim>\<open>Run\<close> with any
  number of interleaved workers (the next theory). Last comes the draining of a queue that was shut
  down.
\<close>

section \<open>The steps of the queue\<close>

text \<open>The \<open>k\<close>-th delayed request comes back; after the shutdown none does.\<close>

definition queue_Fire :: "nat \<Rightarrow> est \<Rightarrow> est option" where
  "queue_Fire k s =
     (if q_shutdown s \<or> length (q_delayed s) \<le> k then None
      else Some (s\<lparr>q_delayed := take k (q_delayed s) @ drop (Suc k) (q_delayed s), q_items := q_items s @ [q_delayed s ! k]\<rparr>))"

definition queue_ShutDown :: "est \<Rightarrow> est" where
  "queue_ShutDown s = s\<lparr>q_shutdown := True\<rparr>"

definition attempts :: "nat \<Rightarrow> est \<Rightarrow> nat" where
  "attempts i s = count_list (ecalls s) (EAttempt i)"

definition pending :: "est \<Rightarrow> nat list" where
  "pending s = map fst (q_items s @ q_delayed s)"

section \<open>Frames\<close>

definition queue_view :: "est \<Rightarrow> (nat \<times> Request) list \<times> (nat \<times> Request) list \<times> (nat \<Rightarrow> nat) \<times> nat \<times> bool" where
  "queue_view s = (q_items s, q_delayed s, q_failures s, q_next s, q_shutdown s)"

lemma queue_view_simps [simp]:
  "queue_view (s\<lparr>ecalls := x\<rparr>) = queue_view s" "queue_view (s\<lparr>register := y\<rparr>) = queue_view s"
  by (simp_all add: queue_view_def)

text \<open>The reconcile does not touch the queue and makes no attempts of its own.\<close>

abbreviation no_attempt :: "ecall \<Rightarrow> bool" where
  "no_attempt c \<equiv> (case c of EAttempt i \<Rightarrow> False | _ \<Rightarrow> True)"

lemma touches_no_attempt: "touches svc listed c \<Longrightarrow> no_attempt c"
  by (cases c) simp_all

lemma writes_frame [go_frame]:
  "preserves queue_view (createSlice e x)" "preserves queue_view (updateSlice e x)" "preserves queue_view (deleteSlice e x)"
  by (auto simp: preserves_wp go_wp)

lemma desired_frame [go_frame]: "preserves queue_view (getDesiredEndpoints e c service ts)"
proof -
  have "preserves queue_view (desiredForNodes e c nodes)" for nodes
  proof (induction nodes)
    case Nil
    have "desiredForNodes e c [] = go_ret []" by (rule ext) simp
    then show ?case by (simp only: preserves_prim)
  next
    case (Cons n nodes)
    then show ?case unfolding desiredForNodes.simps by (intro go_frame) simp_all
  qed
  then show ?thesis by (auto simp: getDesiredEndpoints_def intro!: go_frame)
qed

lemma finalize_frame [go_frame]: "preserves queue_view (finalize e service cs us ds)"
  unfolding finalize_def by (cases "mergeLoop service cs 0 [] [] ds") (auto intro!: go_frame split: prod.splits)

lemma reconcileListed_frame: "preserves queue_view (reconcileListed e c service del listed)"
  unfolding reconcileListed_def reconcileTypes_def getTenantEPSFromInfraService_def reconcileByAddressType_def Let_def
  by (auto intro!: go_frame preserves_modify split: prod.splits)

lemma reconcile_frame:
  assumes "reconcile e c r s = Some (res, s')"
  shows "queue_view s' = queue_view s \<and> attempts i s' = attempts i s"
proof -
  have none: "list_all no_attempt cs \<Longrightarrow> count_list cs (EAttempt i) = 0" for cs
    by (induction cs) auto
  have quiet_calls: "list_all (touches svc listed) cs \<Longrightarrow> list_all no_attempt cs" for svc listed cs
    unfolding list_all_iff using touches_no_attempt by blast
  have view: "preserves queue_view (reconcile e c r)"
    unfolding reconcile_def getInfraEPSFromInfraService_def Let_def
    by (auto intro!: go_frame reconcileListed_frame split: req_obj.split option.split)
  from assms show ?thesis
  proof (cases rule: reconcile_runs [where svc = infra_service])
    case (quiet cs)
    then have "count_list cs (EAttempt i) = 0" using quiet_calls none by blast
    with quiet preservesD [OF view assms] show ?thesis by (simp add: attempts_def)
  next
    case (handled service0 found listed s2)
    from emitsD [OF reconcileListed_emits handled(4)] obtain cs where
      "ecalls s' = ecalls s2 @ cs" "list_all no_attempt cs" using quiet_calls by blast
    with handled(3) preservesD [OF view assms] none show ?thesis by (simp add: attempts_def)
  qed
qed

lemma keeps_eask [go_keeps]: "(\<And>s r. I s \<Longrightarrow> I (s\<lparr>ecalls := ecalls s @ [ev r]\<rparr>)) \<Longrightarrow> keeps I (eask f ev)"
  by (auto simp: keeps_def)

subsection \<open>Taking and finishing\<close>

lemma queue_Get_cases:
  assumes "queue_Get s = Some (out, s')"
  obtains (quit) "q_shutdown s" "q_items s = []" "out = Val None" "s' = s"
  | (got) i r items where "q_items s = (i, r) # items" "out = Val (Some (i, r))"
      "s' = s\<lparr>q_items := items, ecalls := ecalls s @ [EAttempt i]\<rparr>"
  using assms unfolding queue_Get_def by (auto split: list.splits if_splits)

lemma finishItem_eq:
  "finishItem c i r err s = Some (Val (),
     if err \<noteq> None \<and> q_failures s i < ct_maxRetries c
     then s\<lparr>q_failures := (q_failures s)(i := q_failures s i + 1),
       q_delayed := (if q_shutdown s then q_delayed s else q_delayed s @ [(i, r)])\<rparr>
     else s\<lparr>q_failures := (q_failures s)(i := 0)\<rparr>)"
  by (simp add: finishItem_def queue_Forget_def queue_AddRateLimited_def)

text \<open>A round of a worker is a take, a reconcile and a finish.\<close>

lemma processNextItem_cases:
  assumes "processNextItem e c s = Some (out, s')"
  obtains (quit) "q_shutdown s" "q_items s = []" "out = Val False" "s' = s"
  | (panic) i r s1 p where "queue_Get s = Some (Val (Some (i, r)), s1)" "reconcile e c r s1 = Some (Panic p, s')" "out = Panic p"
  | (round) i r s1 err s2 where "queue_Get s = Some (Val (Some (i, r)), s1)" "reconcile e c r s1 = Some (Val err, s2)"
      "finishItem c i r err s2 = Some (Val (), s')" "out = Val True"
proof -
  obtain got s1 where get: "queue_Get s = Some (got, s1)"
    using assms by (auto simp: processNextItem_def go_bind_def split: option.splits)
  then show ?thesis
  proof (cases rule: queue_Get_cases)
    case quit
    with assms get show ?thesis by (intro that(1)) (simp_all add: processNextItem_def go_bind_Some)
  next
    case (got i r items)
    with assms get obtain rec s2 where rec: "reconcile e c r s1 = Some (rec, s2)"
      by (auto simp: processNextItem_def go_bind_Some go_bind_def split: option.splits)
    show ?thesis
    proof (cases rec)
      case (Val err)
      with assms get got rec show ?thesis
        by (intro that(3) [of i r s1 err s2])
           (simp_all add: processNextItem_def go_bind_Some go_then_def finishItem_eq)
    next
      case (Panic p)
      with assms get got rec show ?thesis
        by (intro that(2) [of i r s1 p]) (simp_all add: processNextItem_def go_bind_Some)
    qed
  qed
qed

section \<open>Invariants of the queue\<close>

text \<open>
  The laws of an invariant over the held requests and the state: one for each step. A held request
  was taken by a worker that has not finished it.
\<close>

locale queue_invariant =
  fixes e :: eps_env and c :: Controller and J :: "nat multiset \<Rightarrow> est \<Rightarrow> bool"
  assumes start: "J {#} init_est"
    and callback: "J H s \<Longrightarrow> handle e c ev s = Some (u, s') \<Longrightarrow> J H s'"
    and take: "J H s \<Longrightarrow> queue_Get s = Some (Val (Some (i, r)), s') \<Longrightarrow> J (add_mset i H) s'"
    and run: "J H s \<Longrightarrow> reconcile e c r s = Some (out, s') \<Longrightarrow> J H s'"
    and finish: "J (add_mset i H) s \<Longrightarrow> finishItem c i r err s = Some (u, s') \<Longrightarrow> J H s'"
    and fire: "J H s \<Longrightarrow> queue_Fire k s = Some s' \<Longrightarrow> J H s'"
    and shutdown: "J H s \<Longrightarrow> J H (queue_ShutDown s)"

subsection \<open>The bound on the retries\<close>

text \<open>
  No request is queued or held twice; a queued request was attempted as often as it failed, a held one
  once more, and nothing was attempted more often than allowed.
\<close>

definition held_ok :: "nat \<Rightarrow> nat multiset \<Rightarrow> est \<Rightarrow> bool" where
  "held_ok mx H s \<longleftrightarrow> (\<forall>i. count (mset (pending s) + H) i \<le> 1) \<and>
     (\<forall>i\<in>set (pending s). i < q_next s \<and> attempts i s = q_failures s i \<and> q_failures s i \<le> mx) \<and>
     (\<forall>i\<in>#H. i < q_next s \<and> attempts i s = q_failures s i + 1 \<and> q_failures s i \<le> mx) \<and>
     (\<forall>i. attempts i s \<le> mx + 1) \<and> (\<forall>i \<ge> q_next s. attempts i s = 0 \<and> q_failures s i = 0)"

lemma held_ok_cong:
  "queue_view s' = queue_view s \<Longrightarrow> (\<And>i. attempts i s' = attempts i s) \<Longrightarrow> held_ok mx H s' = held_ok mx H s"
  by (simp add: held_ok_def queue_view_def pending_def)

lemma held_ok_read [simp]:
  "no_attempt w \<Longrightarrow> held_ok mx H (s\<lparr>ecalls := ecalls s @ [w]\<rparr>) = held_ok mx H s"
  "held_ok mx H (s\<lparr>register := r\<rparr>) = held_ok mx H s"
  "held_ok mx H (queue_ShutDown s) = held_ok mx H s"
  by (auto simp: held_ok_def attempts_def pending_def queue_ShutDown_def split: ecall.splits)

lemma held_ok_fresh: "held_ok mx H s \<Longrightarrow> q_next s \<notin> set (pending s) \<and> q_next s \<notin># H"
  by (auto simp: held_ok_def)

lemma queue_Add_held [go_keeps]: "keeps (held_ok mx H) (queue_Add r)"
  unfolding queue_Add_def
proof (rule keeps_modify)
  fix s assume ok: "held_ok mx H s"
  with held_ok_fresh [OF ok] show "held_ok mx H (if q_shutdown s then s
     else s\<lparr>q_items := q_items s @ [(q_next s, r)], q_next := q_next s + 1\<rparr>)"
    by (auto simp: held_ok_def attempts_def pending_def not_in_iff intro: less_SucI)
qed

lemma handle_held: "keeps (held_ok mx H) (handle e c ev)"
proof -
  have "keeps (held_ok mx H) (onService t svc old)" for t svc old
    by (auto simp: onService_def intro!: go_keeps)
  moreover have "keeps (held_ok mx H) (onTenantSlice e c t eps)" for t eps
    unfolding onTenantSlice_def getInfraServiceFromTenantEPS_def Let_def
    by (auto intro!: go_keeps split: sum.split)
  moreover have "keeps (held_ok mx H) (onInfraSlice e c t eps)" for t eps
    unfolding onInfraSlice_def getInfraServiceForEPS_def Let_def
    by (auto intro!: go_keeps split: sum.split option.split)
  ultimately show ?thesis
    by (cases ev) (auto simp: asserted_def intro: go_keeps split: informed.split)
qed

lemma held_ok_once:
  assumes "held_ok mx H s" "mset (pending s) + H = add_mset i M"
  shows "i \<notin># M"
proof -
  have "count (mset (pending s) + H) i \<le> 1" using assms(1) unfolding held_ok_def by blast
  then show ?thesis unfolding assms(2) by (simp add: not_in_iff)
qed

lemma take_held:
  assumes "held_ok mx H s" "queue_Get s = Some (Val (Some (i, r)), s')"
  shows "held_ok mx (add_mset i H) s'"
  using assms(2)
proof (cases rule: queue_Get_cases)
  case (got i' r' items)
  then have s': "s' = s\<lparr>q_items := items, ecalls := ecalls s @ [EAttempt i]\<rparr>" "q_items s = (i, r) # items" by simp_all
  have "attempts j s' = attempts j s + (if j = i then 1 else 0)" for j by (simp add: s' attempts_def)
  moreover have p: "mset (pending s) = add_mset i (mset (pending s'))" by (simp add: pending_def s')
  then have "set (pending s) = insert i (set (pending s'))" by (metis set_mset_add_mset_insert set_mset_mset)
  moreover have "i \<notin># mset (pending s') + H" by (rule held_ok_once [OF assms(1)]) (simp add: p)
  ultimately show ?thesis using assms(1) p by (auto simp: held_ok_def s')
qed simp

text \<open>Finishing a request puts it at most once into the queue, and then counts one failure more.\<close>

lemma finishItem_effect:
  assumes "finishItem c i r err s = Some (out, s')" "i \<notin> set (pending s)"
  shows "attempts j s' = attempts j s" "q_next s' = q_next s" "q_shutdown s' = q_shutdown s"
    "j \<noteq> i \<Longrightarrow> q_failures s' j = q_failures s j" "mset (pending s') \<subseteq># add_mset i (mset (pending s))"
    "i \<in> set (pending s') \<Longrightarrow> q_failures s' i = q_failures s i + 1 \<and> q_failures s i < ct_maxRetries c"
    "q_items s' = q_items s"
  using assms by (auto simp: finishItem_eq attempts_def pending_def split: if_splits)

lemma finish_held:
  assumes "held_ok (ct_maxRetries c) (add_mset i H) s" "finishItem c i r err s = Some (out, s')"
  shows "held_ok (ct_maxRetries c) H s'"
proof -
  have "i \<notin># mset (pending s) + H" by (rule held_ok_once [OF assms(1)]) simp
  then have i: "i \<notin> set (pending s)" "i \<notin># H" by simp_all
  note eff = finishItem_effect [OF assms(2) i(1)]
  have sub: "set (pending s') \<subseteq> insert i (set (pending s))"
    using set_mset_mono [OF eff(5)] by simp
  have "count (mset (pending s') + H) j \<le> count (mset (pending s) + add_mset i H) j" for j
    using mset_subset_eq_count [OF eff(5), of j] by auto
  then have "\<forall>j. count (mset (pending s') + H) j \<le> 1"
    using assms(1) unfolding held_ok_def by (meson order_trans)
  moreover have "\<forall>j\<in>set (pending s'). j < q_next s' \<and> attempts j s' = q_failures s' j \<and> q_failures s' j \<le> ct_maxRetries c"
  proof
    fix j assume j: "j \<in> set (pending s')"
    then show "j < q_next s' \<and> attempts j s' = q_failures s' j \<and> q_failures s' j \<le> ct_maxRetries c"
      using assms(1) sub eff(4,6) unfolding held_ok_def eff(1-3) by (cases "j = i") auto
  qed
  moreover have "\<forall>j\<in>#H. j < q_next s' \<and> attempts j s' = q_failures s' j + 1 \<and> q_failures s' j \<le> ct_maxRetries c"
  proof
    fix j assume j: "j \<in># H"
    then have "q_failures s' j = q_failures s j" using i(2) by (intro eff(4)) auto
    with j show "j < q_next s' \<and> attempts j s' = q_failures s' j + 1 \<and> q_failures s' j \<le> ct_maxRetries c"
      using assms(1) unfolding held_ok_def eff(1-3) by simp
  qed
  moreover have "\<forall>j\<ge>q_next s'. attempts j s' = 0 \<and> q_failures s' j = 0"
  proof (intro allI impI)
    fix j assume j: "q_next s' \<le> j"
    then have "j \<noteq> i" using assms(1) unfolding held_ok_def eff(2) by auto
    with j show "attempts j s' = 0 \<and> q_failures s' j = 0"
      using assms(1) eff(4) unfolding held_ok_def eff(1-3) by simp
  qed
  moreover have "\<forall>j. attempts j s' \<le> ct_maxRetries c + 1"
    using assms(1) unfolding held_ok_def eff(1) by blast
  ultimately show ?thesis unfolding held_ok_def by blast
qed

lemma fire_held:
  assumes "held_ok mx H s" "queue_Fire k s = Some s'"
  shows "held_ok mx H s'"
proof -
  from assms(2) have k: "k < length (q_delayed s)"
    and s': "s' = s\<lparr>q_delayed := take k (q_delayed s) @ drop (Suc k) (q_delayed s), q_items := q_items s @ [q_delayed s ! k]\<rparr>"
    by (auto simp: queue_Fire_def split: if_splits)
  have "mset (pending s') = mset (map fst (q_items s @ take k (q_delayed s) @ q_delayed s ! k # drop (Suc k) (q_delayed s)))"
    by (simp add: pending_def s')
  then have p: "mset (pending s') = mset (pending s)" using k by (simp add: id_take_nth_drop [symmetric] pending_def)
  then have "set (pending s') = set (pending s)" by (metis set_mset_mset)
  with assms(1) p show ?thesis by (simp add: held_ok_def s' attempts_def)
qed

interpretation retries: queue_invariant e c "held_ok (ct_maxRetries c)" for e c
proof
  show "held_ok (ct_maxRetries c) {#} init_est" by (simp add: held_ok_def init_est_def attempts_def pending_def)
  show "held_ok (ct_maxRetries c) H s'" if "held_ok (ct_maxRetries c) H s" "reconcile e c r s = Some (out, s')" for H s r out s'
    using that(1) held_ok_cong [of s' s] reconcile_frame [OF that(2)] by blast
qed (auto intro: keepsD [OF handle_held] take_held finish_held fire_held)

subsection \<open>Writes over the whole life of the controller\<close>

text \<open>Every write is preceded by a listing of the slices of a service that allows it.\<close>

definition allowed_by :: "ecall list \<Rightarrow> ecall \<Rightarrow> bool" where
  "allowed_by cs w \<longleftrightarrow> (\<exists>svc listed. EListInfra (sv_Namespace svc) (service_selector svc) (Inr listed) \<in> set cs \<and> touches svc listed w)"

definition writes_listed :: "est \<Rightarrow> bool" where
  "writes_listed s \<longleftrightarrow> (\<forall>i < length (ecalls s). is_write (ecalls s ! i) \<longrightarrow> allowed_by (take i (ecalls s)) (ecalls s ! i))"

lemma allowed_by_more: "allowed_by cs w \<Longrightarrow> set cs \<subseteq> set cs' \<Longrightarrow> allowed_by cs' w"
  unfolding allowed_by_def by blast

lemma writes_listed_append:
  assumes "writes_listed s" "ecalls s' = ecalls s @ cs" "list_all (\<lambda>w. is_write w \<longrightarrow> allowed_by (ecalls s) w) cs"
  shows "writes_listed s'"
  unfolding writes_listed_def
proof (intro allI impI)
  fix i assume i: "i < length (ecalls s')" "is_write (ecalls s' ! i)"
  show "allowed_by (take i (ecalls s')) (ecalls s' ! i)"
  proof (cases "i < length (ecalls s)")
    case True
    with assms(1,2) i show ?thesis by (simp add: writes_listed_def nth_append)
  next
    case False
    then have "ecalls s' ! i \<in> set cs" using i(1) assms(2) by (simp add: nth_append)
    with assms(3) i(2) have "allowed_by (ecalls s) (ecalls s' ! i)" by (simp add: list_all_iff)
    then show ?thesis by (rule allowed_by_more) (use False assms(2) in simp)
  qed
qed

lemma quiet_writes:
  "writes_listed s \<Longrightarrow> ecalls s' = ecalls s @ cs \<Longrightarrow> filter is_write cs = [] \<Longrightarrow> writes_listed s'"
  by (rule writes_listed_append) (auto simp: filter_empty_conv list_all_iff)

lemma handle_quiet: "emits (\<lambda>w. \<not> is_write w) (handle e c ev)"
proof -
  have "emits (\<lambda>w. \<not> is_write w) (onService t svc old)" for t svc old
    by (auto simp: onService_def queue_Add_def intro!: eps_emits)
  moreover have "emits (\<lambda>w. \<not> is_write w) (onTenantSlice e c t eps)" for t eps
    unfolding onTenantSlice_def getInfraServiceFromTenantEPS_def queue_Add_def Let_def
    by (auto intro!: eps_emits simp: is_write_def split: sum.split)
  moreover have "emits (\<lambda>w. \<not> is_write w) (onInfraSlice e c t eps)" for t eps
    unfolding onInfraSlice_def getInfraServiceForEPS_def queue_Add_def Let_def
    by (auto intro!: eps_emits simp: is_write_def split: sum.split option.split)
  ultimately show ?thesis by (cases ev) (auto simp: asserted_def intro: eps_emits split: informed.split)
qed

lemma reconcile_writes_listed:
  assumes "writes_listed s" "reconcile e c r s = Some (res, s')"
  shows "writes_listed s'"
  using assms(2)
proof (cases rule: reconcile_runs [where svc = infra_service])
  case (quiet cs)
  then show ?thesis using quiet_writes [OF assms(1)] by blast
next
  case (handled service0 found listed s2)
  let ?svc = "case found of Inl _ \<Rightarrow> service0 | Inr svc \<Rightarrow> svc"
  have s2: "writes_listed s2" by (rule quiet_writes [OF assms(1)]) (simp add: handled(3), simp add: is_write_def)
  obtain cs where cs: "ecalls s' = ecalls s2 @ cs" "list_all (touches ?svc listed) cs"
    using emitsD [OF reconcileListed_emits handled(4)] by blast
  have "EListInfra (sv_Namespace ?svc) (service_selector ?svc) (Inr listed) \<in> set (ecalls s2)" by (simp add: handled(3))
  then have "allowed_by (ecalls s2) w" if "touches ?svc listed w" for w using that unfolding allowed_by_def by blast
  with cs show ?thesis by (intro writes_listed_append [OF s2]) (auto simp: list_all_iff)
qed

interpretation writes: queue_invariant e c "\<lambda>_. writes_listed" for e c
proof
  show "writes_listed init_est" by (simp add: writes_listed_def init_est_def)
  show "writes_listed s'" if "writes_listed s" "handle e c ev s = Some (u, s')" for s ev u s'
    using that emitsD [OF handle_quiet] by (fastforce intro: quiet_writes simp: list_all_iff filter_empty_conv)
  show "writes_listed s'" if "writes_listed s" "queue_Get s = Some (Val (Some (i, r)), s')" for s i r s'
    using that(2) by (cases rule: queue_Get_cases) (use that(1) in \<open>auto intro!: quiet_writes [OF that(1)] simp: is_write_def\<close>)
  show "writes_listed s'" if "writes_listed s" "reconcile e c r s = Some (out, s')" for s r out s'
    using that by (rule reconcile_writes_listed)
  show "writes_listed s'" if "writes_listed s" "finishItem c i r err s = Some (out, s')" for s i r err out s'
    using that by (auto simp: finishItem_eq writes_listed_def)
qed (auto simp: queue_Fire_def queue_ShutDown_def writes_listed_def split: if_splits)

lemma writes_listedD:
  assumes "writes_listed s" "ecalls s = before @ w # after" "is_write w"
  shows "allowed_by before w"
  using assms unfolding writes_listed_def
  by (metis append_eq_conv_conj length_append length_Cons less_add_Suc1 add_Suc_right nth_append_length)

section \<open>Draining the queue\<close>

definition returns :: "('s, 'a) go \<Rightarrow> bool" where
  "returns m \<longleftrightarrow> (\<forall>s. \<exists>r s'. m s = Some (r, s'))"

named_theorems eps_returns \<open>computations that always return\<close>

lemma returns_prim [eps_returns]:
  "returns (go_ret a)" "returns (go_panic p)" "returns (go_read g)" "returns (go_modify h)" "returns (eask f ev)"
  by (simp_all add: returns_def)

lemma returns_bind [eps_returns]: "returns m \<Longrightarrow> (\<And>a. returns (f a)) \<Longrightarrow> returns (go_bind m f)"
  unfolding returns_def
proof
  fix s assume m: "\<forall>s. \<exists>r s'. m s = Some (r, s')" and f: "\<And>a. \<forall>s. \<exists>r s'. f a s = Some (r, s')"
  from m obtain r s1 where "m s = Some (r, s1)" by blast
  then show "\<exists>r s'. go_bind m f s = Some (r, s')" using f by (cases r) (auto simp: go_bind_Some)
qed

lemma returns_then [eps_returns]: "returns m \<Longrightarrow> returns k \<Longrightarrow> returns (go_then m k)"
  unfolding go_then_def by (rule returns_bind)

lemma returns_each [eps_returns]: "(\<And>x. returns (f x)) \<Longrightarrow> returns (go_each f xs)"
  by (induction xs) (auto intro!: eps_returns split: option.split)

lemma reconcile_returns: "returns (reconcile e c r)"
proof -
  have writes [eps_returns]: "returns (createSlice e x)" "returns (updateSlice e x)" "returns (deleteSlice e x)" for x
    unfolding createSlice_def updateSlice_def deleteSlice_def by (auto intro!: eps_returns split: sum.split)
  have "returns (desiredForNodes e c nodes)" for nodes
  proof (induction nodes)
    case Nil
    show ?case by (simp add: returns_def)
  qed (auto intro!: eps_returns split: sum.split option.split)
  then have "returns (getDesiredEndpoints e c service ts)" for service ts
    by (auto simp: getDesiredEndpoints_def intro!: eps_returns)
  moreover have "returns (finalize e service cs us ds)" for service cs us ds
    unfolding finalize_def
    by (cases "mergeLoop service cs 0 [] [] ds") (auto intro!: eps_returns writes split: prod.splits option.split)
  ultimately have "returns (reconcileByAddressType e c service ts existing t)" for service ts existing t
    unfolding reconcileByAddressType_def Let_def by (intro eps_returns)
  then have "returns (reconcileListed e c service del listed)" for service del listed
    unfolding reconcileListed_def reconcileTypes_def getTenantEPSFromInfraService_def Let_def
    by (auto intro!: eps_returns writes split: prod.splits sum.split option.split)
  then show ?thesis
    unfolding reconcile_def getInfraEPSFromInfraService_def Let_def
    by (auto intro!: eps_returns split: req_obj.split option.split sum.split)
qed

lemma round_drains:
  assumes "q_shutdown s" "q_items s = (i, r) # items"
  obtains s' where "processNextItem e c s = Some (Val True, s')" "q_shutdown s'" "q_items s' = items"
      "\<And>j. attempts j s' = attempts j s + (if j = i then 1 else 0)"
  | p s' where "processNextItem e c s = Some (Panic p, s')"
proof -
  let ?s1 = "s\<lparr>q_items := items, ecalls := ecalls s @ [EAttempt i]\<rparr>"
  obtain out s2 where rec: "reconcile e c r ?s1 = Some (out, s2)"
    using reconcile_returns unfolding returns_def by blast
  note frame = reconcile_frame [OF rec]
  show ?thesis
  proof (cases out)
    case (Panic p)
    with rec assms(2) show ?thesis by (intro that(2) [of p s2]) (simp add: processNextItem_def queue_Get_def go_bind_def)
  next
    case (Val err)
    then obtain s' where s': "processNextItem e c s = Some (Val True, s')" "q_items s' = q_items s2" "q_shutdown s' = q_shutdown s2"
      "ecalls s' = ecalls s2"
      using rec assms(2) by (cases "err = None"; cases "q_failures s2 i < ct_maxRetries c")
        (auto simp: processNextItem_def queue_Get_def finishItem_eq go_bind_def go_then_def)
    moreover from s' have "attempts j s' = attempts j s + (if j = i then 1 else 0)" for j
      using frame by (simp add: attempts_def)
    ultimately show ?thesis using frame assms by (intro that(1) [of s']) (simp_all add: queue_view_def)
  qed
qed

text \<open>
  Shutting down drains the queue: once the queue is shut down, the loop of a worker ends; unless
  a reconcile panics it ends with an empty queue, and it has tried every request that was queued
  exactly once.
\<close>

lemma runWorker_drains:
  "q_shutdown s \<Longrightarrow> \<exists>r s'. runWorker e c s = Some (r, s') \<and>
     (r = Val () \<longrightarrow> q_items s' = [] \<and> (\<forall>i. attempts i s' = attempts i s + count_list (map fst (q_items s)) i))"
proof (induction "q_items s" arbitrary: s)
  case Nil
  then have "processNextItem e c s = Some (Val False, s)"
    by (simp add: processNextItem_def queue_Get_def go_bind_def)
  with Nil show ?case by (subst runWorker.simps) (simp flip: Nil(1))
next
  case (Cons ir items)
  obtain i r where ir: "ir = (i, r)" by (cases ir)
  from Cons(2) ir have "q_items s = (i, r) # items" by simp
  with Cons.prems show ?case
  proof (cases rule: round_drains [where e = e and c = c])
    case (1 s1)
    with Cons(1) [of s1] obtain out s' where rest: "runWorker e c s1 = Some (out, s')"
      "out = Val () \<longrightarrow> q_items s' = [] \<and> (\<forall>i. attempts i s' = attempts i s1 + count_list (map fst items) i)" by auto
    have "runWorker e c s = Some (out, s')" using 1(1) rest(1) by (subst runWorker.simps) simp
    with rest(2) 1(4) ir show ?thesis by (auto simp flip: Cons(2))
  next
    case (2 p s1)
    then have "runWorker e c s = Some (Panic p, s1)" by (subst runWorker.simps) simp
    then show ?thesis by auto
  qed
qed

end
