(* ===== verification/EPS_Run.thy ===== *)
theory EPS_Run
  imports EPS_Queue
begin

text \<open>
  \<^verbatim>\<open>Run\<close> of \<^verbatim>\<open>pkg/controller/kubevirteps/kubevirteps_controller.go\<close>: it starts the informers, waits for
  two of their caches, spawns the workers, waits for the stop channel, and then runs its deferred
  calls, which shut the queue down and cancel the context of the workers. The state adds to the one of
  the controller the position in \<^verbatim>\<open>Run\<close> and the position of every worker goroutine; a label names the
  goroutine that moves. Takes, reconciles and the handling of their results are separate steps, so
  that callbacks, timers, the shutdown and other workers come in between; a reconcile itself is one
  step. A panic in any goroutine ends the process.
\<close>

section \<open>The goroutines\<close>

text \<open>
  A worker is a goroutine of \<^verbatim>\<open>wait.UntilWithContext(ctx, c.runWorker, time.Second)\<close>: at the top of
  the loop it looks at the context, inside \<^verbatim>\<open>runWorker\<close> it takes, reconciles and finishes requests,
  and when \<^verbatim>\<open>runWorker\<close> has returned it pauses for a second.
\<close>

datatype worker =
    WTop
  | WIdle
  | WBusy nat Request
  | WDone nat Request "goerror option"
  | WPaused
  | WGone

fun worker_step :: "eps_env \<Rightarrow> Controller \<Rightarrow> bool \<Rightarrow> worker \<Rightarrow> (est, worker) go" where
  "worker_step e c cancelled WTop = go_ret (if cancelled then WGone else WIdle)"
| "worker_step e c cancelled WIdle = go_bind queue_Get (\<lambda>got. case got of
       None \<Rightarrow> go_ret WPaused
     | Some (i, req) \<Rightarrow> go_ret (WBusy i req))"
| "worker_step e c cancelled (WBusy i req) = go_bind (reconcile e c req) (\<lambda>err. go_ret (WDone i req err))"
| "worker_step e c cancelled (WDone i req err) = go_then (finishItem c i req err) (go_ret WIdle)"
| "worker_step e c cancelled WPaused = go_ret WTop"
| "worker_step e c cancelled WGone = (\<lambda>s. None)"

datatype run_phase = Fresh | Informing | Serving | Stopping | Closed | Returned | Crashed panic

text \<open>
  \<open>rs_stop\<close> is the closed stop channel, \<open>rs_services\<close> and \<open>rs_slices\<close> are the caches that have synced
  (the infra Services and the tenant EndpointSlices), \<open>rs_metric\<close> is the metric of the controller
  manager and \<open>rs_cancelled\<close> the context of the workers.
\<close>

record run_state =
  rs_phase :: run_phase
  rs_est :: est
  rs_stop :: bool
  rs_services :: bool
  rs_slices :: bool
  rs_metric :: bool
  rs_cancelled :: bool
  rs_workers :: "worker list"

datatype run_label =
    StartInformers
  | ServicesSynced
  | SlicesSynced
  | Callback event
  | Serve
  | GiveUp
  | CloseStop
  | NoticeStop
  | CloseQueue
  | CancelContext
  | DelayOver nat
  | WorkerStep nat

text \<open>The goroutine of a callback or of a worker moves; its panic ends the process.\<close>

definition run_go :: "(est, 'a) go \<Rightarrow> ('a \<Rightarrow> run_state \<Rightarrow> run_state) \<Rightarrow> run_state \<Rightarrow> run_state option" where
  "run_go m k rs = (case m (rs_est rs) of
       None \<Rightarrow> None
     | Some (Val a, s) \<Rightarrow> Some (k a (rs\<lparr>rs_est := s\<rparr>))
     | Some (Panic p, s) \<Rightarrow> Some (rs\<lparr>rs_est := s, rs_phase := Crashed p\<rparr>))"

abbreviation crashed :: "run_state \<Rightarrow> bool" where
  "crashed rs \<equiv> (case rs_phase rs of Crashed p \<Rightarrow> True | _ \<Rightarrow> False)"

text \<open>
  The steps; \<^term>\<open>None\<close> means that the goroutine is blocked or has ended. The deferred calls of \<^verbatim>\<open>Run\<close>
  come in the reverse order of their \<^verbatim>\<open>defer\<close> statements.
\<close>

fun run_step :: "eps_env \<Rightarrow> Controller \<Rightarrow> nat \<Rightarrow> run_label \<Rightarrow> run_state \<Rightarrow> run_state option" where
  "run_step e c n StartInformers rs =
     (if rs_phase rs = Fresh then Some (rs\<lparr>rs_phase := Informing, rs_metric := True\<rparr>) else None)"
| "run_step e c n ServicesSynced rs =
     (if rs_phase rs = Fresh \<or> crashed rs then None else Some (rs\<lparr>rs_services := True\<rparr>))"
| "run_step e c n SlicesSynced rs =
     (if rs_phase rs = Fresh \<or> crashed rs then None else Some (rs\<lparr>rs_slices := True\<rparr>))"
| "run_step e c n (Callback ev) rs =
     (if rs_phase rs = Fresh \<or> crashed rs then None else run_go (handle e c ev) (\<lambda>_ rs. rs) rs)"
| "run_step e c n Serve rs =
     (if rs_phase rs = Informing \<and> rs_services rs \<and> rs_slices rs
      then Some (rs\<lparr>rs_phase := Serving, rs_workers := replicate n WTop\<rparr>) else None)"
| "run_step e c n GiveUp rs =
     (if rs_phase rs = Informing \<and> rs_stop rs then Some (rs\<lparr>rs_phase := Stopping, rs_metric := False\<rparr>) else None)"
| "run_step e c n CloseStop rs =
     (if rs_stop rs \<or> crashed rs then None else Some (rs\<lparr>rs_stop := True\<rparr>))"
| "run_step e c n NoticeStop rs =
     (if rs_phase rs = Serving \<and> rs_stop rs then Some (rs\<lparr>rs_phase := Stopping, rs_metric := False\<rparr>) else None)"
| "run_step e c n CloseQueue rs =
     (if rs_phase rs = Stopping then Some (rs\<lparr>rs_phase := Closed, rs_est := queue_ShutDown (rs_est rs)\<rparr>) else None)"
| "run_step e c n CancelContext rs =
     (if rs_phase rs = Closed then Some (rs\<lparr>rs_phase := Returned, rs_cancelled := True\<rparr>) else None)"
| "run_step e c n (DelayOver k) rs =
     (if crashed rs then None else map_option (\<lambda>s. rs\<lparr>rs_est := s\<rparr>) (queue_Fire k (rs_est rs)))"
| "run_step e c n (WorkerStep k) rs =
     (if crashed rs \<or> length (rs_workers rs) \<le> k then None
      else run_go (worker_step e c (rs_cancelled rs) (rs_workers rs ! k))
        (\<lambda>w rs. rs\<lparr>rs_workers := (rs_workers rs)[k := w]\<rparr>) rs)"

definition run_init :: run_state where
  "run_init = \<lparr>rs_phase = Fresh, rs_est = init_est, rs_stop = False, rs_services = False, rs_slices = False,
     rs_metric = False, rs_cancelled = False, rs_workers = []\<rparr>"

fun run_exec :: "eps_env \<Rightarrow> Controller \<Rightarrow> nat \<Rightarrow> run_label list \<Rightarrow> run_state \<Rightarrow> run_state option" where
  "run_exec e c n [] rs = Some rs"
| "run_exec e c n (l # ls) rs = Option.bind (run_step e c n l rs) (run_exec e c n ls)"

inductive run_reach :: "eps_env \<Rightarrow> Controller \<Rightarrow> nat \<Rightarrow> run_state \<Rightarrow> bool" for e c n where
  init: "run_reach e c n run_init"
| step: "run_reach e c n rs \<Longrightarrow> run_step e c n l rs = Some rs' \<Longrightarrow> run_reach e c n rs'"

lemma run_exec_append:
  "run_exec e c n (ls @ ls') rs = Option.bind (run_exec e c n ls rs) (run_exec e c n ls')"
  by (induction ls arbitrary: rs) (auto split: bind_split)

lemma run_reach_exec: "run_reach e c n rs \<Longrightarrow> run_exec e c n ls rs = Some rs' \<Longrightarrow> run_reach e c n rs'"
  by (induction ls arbitrary: rs) (auto split: bind_splits intro: run_reach.step)

section \<open>Rules\<close>

lemma run_go_cases:
  assumes "run_go m k rs = Some rs'"
  obtains (Val) a s where "m (rs_est rs) = Some (Val a, s)" "rs' = k a (rs\<lparr>rs_est := s\<rparr>)"
  | (Panic) p s where "m (rs_est rs) = Some (Panic p, s)" "rs' = rs\<lparr>rs_est := s, rs_phase := Crashed p\<rparr>"
  using assms by (auto simp: run_go_def split: option.splits outcome.splits)

text \<open>A step of a worker, by the position it starts from.\<close>

lemma worker_step_cases:
  assumes "worker_step e c b w s = Some (out, s')"
  obtains (top) "w = WTop" "out = Val (if b then WGone else WIdle)" "s' = s"
  | (quit) "w = WIdle" "out = Val WPaused" "s' = s" "q_shutdown s" "q_items s = []"
  | (got) i r where "w = WIdle" "out = Val (WBusy i r)" "queue_Get s = Some (Val (Some (i, r)), s')"
  | (ran) i r err where "w = WBusy i r" "out = Val (WDone i r err)" "reconcile e c r s = Some (Val err, s')"
  | (panic) i r p where "w = WBusy i r" "out = Panic p" "reconcile e c r s = Some (Panic p, s')"
  | (finished) i r err where "w = WDone i r err" "out = Val WIdle" "finishItem c i r err s = Some (Val (), s')"
  | (pause) "w = WPaused" "out = Val WTop" "s' = s"
proof (cases w)
  case WIdle
  with assms obtain got s1 where "queue_Get s = Some (got, s1)"
    by (auto simp: go_bind_def split: option.splits)
  then show ?thesis
    by (cases rule: queue_Get_cases) (use assms WIdle that(2,3) in \<open>auto simp: go_bind_def queue_Get_def\<close>)
next
  case (WBusy i r)
  from assms obtain rec where rec: "reconcile e c r s = Some (rec, s')" "out = (case rec of Val err \<Rightarrow> Val (WDone i r err) | Panic p \<Rightarrow> Panic p)"
    unfolding WBusy worker_step.simps go_bind_def by (auto split: option.splits outcome.splits)
  with that(4,5) WBusy show ?thesis by (cases rec) simp_all
next
  case (WDone i r err)
  obtain s1 where s1: "finishItem c i r err s = Some (Val (), s1)" using finishItem_eq by blast
  with assms WDone have "out = Val WIdle" "s' = s1" by (simp_all add: go_then_def go_bind_Some)
  with that(6) WDone s1 show ?thesis by simp
qed (use assms that(1,7) in simp_all)

text \<open>The steps of the goroutines, and the moves of \<^verbatim>\<open>Run\<close> itself.\<close>

lemma run_step_cases:
  assumes "run_step e c n l rs = Some rs'"
  obtains (called) ev s where "\<not> crashed rs" "rs_phase rs \<noteq> Fresh" "handle e c ev (rs_est rs) = Some (Val (), s)" "rs' = rs\<lparr>rs_est := s\<rparr>" "l = Callback ev"
  | (fired) k s where "queue_Fire k (rs_est rs) = Some s" "rs' = rs\<lparr>rs_est := s\<rparr>" "l = DelayOver k"
  | (worker) k w s where "\<not> crashed rs" "k < length (rs_workers rs)"
      "worker_step e c (rs_cancelled rs) (rs_workers rs ! k) (rs_est rs) = Some (Val w, s)"
      "rs' = rs\<lparr>rs_est := s, rs_workers := (rs_workers rs)[k := w]\<rparr>" "l = WorkerStep k"
  | (callback_panic) ev p s where "\<not> crashed rs" "rs_phase rs \<noteq> Fresh" "handle e c ev (rs_est rs) = Some (Panic p, s)"
      "rs' = rs\<lparr>rs_est := s, rs_phase := Crashed p\<rparr>" "l = Callback ev"
  | (worker_panic) k i r p s where "\<not> crashed rs" "k < length (rs_workers rs)" "rs_workers rs ! k = WBusy i r"
      "reconcile e c r (rs_est rs) = Some (Panic p, s)" "rs' = rs\<lparr>rs_est := s, rs_phase := Crashed p\<rparr>" "l = WorkerStep k"
  | (main) "\<not> crashed rs" "rs_est rs' = rs_est rs \<or> rs_phase rs = Stopping \<and> rs_est rs' = queue_ShutDown (rs_est rs)"
      "rs_workers rs' = rs_workers rs \<or> rs_phase rs = Informing \<and> rs_workers rs' = replicate n WTop"
      "\<forall>k. l \<noteq> WorkerStep k" "\<forall>ev. l \<noteq> Callback ev"
proof (cases l)
  case (Callback ev)
  with assms have go: "run_go (handle e c ev) (\<lambda>_ rs. rs) rs = Some rs'" and "\<not> crashed rs" "rs_phase rs \<noteq> Fresh"
    by (auto split: if_splits)
  from go show ?thesis by (cases rule: run_go_cases) (use that(1,4) Callback \<open>\<not> crashed rs\<close> \<open>rs_phase rs \<noteq> Fresh\<close> in auto)
next
  case (WorkerStep k)
  with assms have go: "run_go (worker_step e c (rs_cancelled rs) (rs_workers rs ! k))
      (\<lambda>w rs. rs\<lparr>rs_workers := (rs_workers rs)[k := w]\<rparr>) rs = Some rs'"
    and k: "\<not> crashed rs" "k < length (rs_workers rs)" by (auto split: if_splits)
  from go show ?thesis
  proof (cases rule: run_go_cases)
    case (Val w s)
    with that(3) [of k w s] WorkerStep k show ?thesis by simp
  next
    case (Panic p s)
    from Panic(1) show ?thesis
      by (cases rule: worker_step_cases) (use that(5) WorkerStep k Panic(2) in \<open>auto split: if_splits\<close>)
  qed
next
  case (DelayOver k)
  with assms that(2) show ?thesis by (auto split: if_splits)
qed (use assms that(6) in \<open>auto split: if_splits\<close>)


text \<open>The requests that the workers hold.\<close>

fun worker_ids :: "worker \<Rightarrow> nat multiset" where
  "worker_ids (WBusy i req) = {#i#}"
| "worker_ids (WDone i req err) = {#i#}"
| "worker_ids _ = {#}"

definition held :: "worker list \<Rightarrow> nat multiset" where
  "held ws = sum_list (map worker_ids ws)"

lemma held_simps [simp]: "held [] = {#}" "held (w # ws) = worker_ids w + held ws" "held (replicate n WTop) = {#}"
  by (simp_all add: held_def) (induction n; simp)

lemma sum_list_update_add:
  fixes f :: "'a \<Rightarrow> 'b :: comm_monoid_add"
  shows "k < length xs \<Longrightarrow> sum_list (map f (xs[k := y])) + f (xs ! k) = sum_list (map f xs) + f y"
proof (induction xs arbitrary: k)
  case (Cons x xs)
  then show ?case by (cases k) (auto simp: add.assoc add.commute add.left_commute)
qed simp

lemma held_update: "k < length ws \<Longrightarrow> held (ws[k := w]) + worker_ids (ws ! k) = held ws + worker_ids w"
  unfolding held_def by (rule sum_list_update_add)

lemma held_moves:
  assumes "k < length ws"
  shows "worker_ids w = worker_ids (ws ! k) \<Longrightarrow> held (ws[k := w]) = held ws"
    "worker_ids (ws ! k) = {#} \<Longrightarrow> worker_ids w = {#i#} \<Longrightarrow> held (ws[k := w]) = add_mset i (held ws)"
    "worker_ids (ws ! k) = {#i#} \<Longrightarrow> worker_ids w = {#} \<Longrightarrow> held ws = add_mset i (held (ws[k := w]))"
  using held_update [OF assms, of w] by auto

section \<open>What the steps leave alone\<close>

text \<open>Once the queue is shut down it stays so, and no step but a take changes its requests.\<close>

definition shut_view :: "est \<Rightarrow> bool \<times> (nat \<times> Request) list" where
  "shut_view s = (q_shutdown s, if q_shutdown s then q_items s else [])"

lemma shut_view_simps [simp]:
  "shut_view (s\<lparr>ecalls := x\<rparr>) = shut_view s" "shut_view (s\<lparr>register := y\<rparr>) = shut_view s"
  by (simp_all add: shut_view_def)

lemma handle_shut: "preserves shut_view (handle e c ev)"
proof -
  have add [go_frame]: "preserves shut_view (queue_Add r)" for r
    unfolding queue_Add_def by (rule preserves_modify) (simp add: shut_view_def)
  have "preserves shut_view (onService t svc old)" for t svc old
    by (auto simp: onService_def intro!: go_frame add)
  moreover have "preserves shut_view (onTenantSlice e c t eps)" for t eps
    unfolding onTenantSlice_def getInfraServiceFromTenantEPS_def Let_def
    by (auto intro!: go_frame add preserves_modify split: sum.split)
  moreover have "preserves shut_view (onInfraSlice e c t eps)" for t eps
    unfolding onInfraSlice_def getInfraServiceForEPS_def Let_def
    by (auto intro!: go_frame add split: sum.split option.split)
  ultimately show ?thesis
    by (cases ev) (auto simp: asserted_def intro: go_frame split: informed.split)
qed

lemma reconcile_shut: "reconcile e c r s = Some (out, s') \<Longrightarrow> shut_view s' = shut_view s"
  using reconcile_frame by (fastforce simp: queue_view_def shut_view_def)

definition calm :: "est \<Rightarrow> est \<Rightarrow> bool" where
  "calm s s' \<longleftrightarrow> q_shutdown s' = q_shutdown s \<and> (q_shutdown s \<longrightarrow> length (q_items s') \<le> length (q_items s))"

lemma calm_shut: "shut_view s' = shut_view s \<Longrightarrow> calm s s'"
  by (auto simp: shut_view_def calm_def split: if_splits)

lemma calm_refl [simp]: "calm s s"
  by (simp add: calm_def)

lemma worker_calm:
  assumes "worker_step e c b w s = Some (out, s')"
  shows "calm s s'"
  using assms
proof (cases rule: worker_step_cases)
  case (got i r)
  from got(3) show ?thesis by (cases rule: queue_Get_cases) (auto simp: calm_def)
next
  case (finished i r err)
  then show ?thesis by (auto simp: finishItem_eq calm_def split: if_splits)
qed (auto intro: calm_shut reconcile_shut)

section \<open>The course of a run\<close>

text \<open>
  The invariant of \<^verbatim>\<open>Run\<close>: the workers exist only after both caches synced, the queue is shut down
  exactly when \<^verbatim>\<open>Run\<close> has got so far, a pausing worker has left an empty queue that was shut down, and
  before the workers start nothing is attempted or written.
\<close>

definition run_ok :: "nat \<Rightarrow> run_state \<Rightarrow> bool" where
  "run_ok n rs \<longleftrightarrow>
     (rs_workers rs \<noteq> [] \<longrightarrow> rs_services rs \<and> rs_slices rs \<and> length (rs_workers rs) = n) \<and>
     (rs_phase rs \<in> {Fresh, Informing} \<longrightarrow> rs_workers rs = []) \<and>
     (rs_phase rs \<in> {Fresh, Informing, Serving, Stopping} \<longrightarrow> \<not> q_shutdown (rs_est rs)) \<and>
     (rs_phase rs \<in> {Closed, Returned} \<longrightarrow> q_shutdown (rs_est rs)) \<and>
     (rs_phase rs = Returned \<longrightarrow> rs_cancelled rs) \<and>
     (rs_phase rs \<in> {Stopping, Closed, Returned} \<longrightarrow> rs_stop rs) \<and>
     (WPaused \<in> set (rs_workers rs) \<longrightarrow> q_shutdown (rs_est rs) \<and> q_items (rs_est rs) = []) \<and>
     (rs_workers rs = [] \<longrightarrow> list_all (\<lambda>w. \<not> is_write w \<and> no_attempt w) (ecalls (rs_est rs)))"

lemma handle_calls: "emits (\<lambda>w. \<not> is_write w \<and> no_attempt w) (handle e c ev)"
proof -
  have "emits (\<lambda>w. \<not> is_write w \<and> no_attempt w) (onService t svc old)" for t svc old
    by (auto simp: onService_def queue_Add_def intro!: eps_emits)
  moreover have "emits (\<lambda>w. \<not> is_write w \<and> no_attempt w) (onTenantSlice e c t eps)" for t eps
    unfolding onTenantSlice_def getInfraServiceFromTenantEPS_def queue_Add_def Let_def
    by (auto intro!: eps_emits simp: is_write_def split: sum.split)
  moreover have "emits (\<lambda>w. \<not> is_write w \<and> no_attempt w) (onInfraSlice e c t eps)" for t eps
    unfolding onInfraSlice_def getInfraServiceForEPS_def queue_Add_def Let_def
    by (auto intro!: eps_emits simp: is_write_def split: sum.split option.split)
  ultimately show ?thesis by (cases ev) (auto simp: asserted_def intro: eps_emits split: informed.split)
qed

lemma run_ok_est:
  assumes "run_ok n rs" and calm: "calm (rs_est rs) s"
    and quiet: "rs_workers rs = [] \<Longrightarrow> list_all (\<lambda>w. \<not> is_write w \<and> no_attempt w) (ecalls s)"
  shows "run_ok n (rs\<lparr>rs_est := s\<rparr>)" "run_ok n (rs\<lparr>rs_est := s, rs_phase := Crashed p\<rparr>)"
proof -
  have "q_shutdown s = q_shutdown (rs_est rs)" "q_shutdown (rs_est rs) \<Longrightarrow> q_items (rs_est rs) = [] \<Longrightarrow> q_items s = []"
    using calm by (auto simp: calm_def)
  with assms(1) quiet show "run_ok n (rs\<lparr>rs_est := s\<rparr>)" "run_ok n (rs\<lparr>rs_est := s, rs_phase := Crashed p\<rparr>)"
    unfolding run_ok_def by simp_all
qed

lemma run_ok_worker:
  assumes "run_ok n rs" "k < length (rs_workers rs)" "w = WPaused \<Longrightarrow> q_shutdown (rs_est rs) \<and> q_items (rs_est rs) = []"
  shows "run_ok n (rs\<lparr>rs_workers := (rs_workers rs)[k := w]\<rparr>)"
proof -
  have ne: "rs_workers rs \<noteq> []" using assms(2) by auto
  have "WPaused \<in> set ((rs_workers rs)[k := w]) \<Longrightarrow> w = WPaused \<or> WPaused \<in> set (rs_workers rs)"
    using set_update_subset_insert [of "rs_workers rs" k w] by auto
  with assms(1,3) have "WPaused \<in> set ((rs_workers rs)[k := w]) \<Longrightarrow> q_shutdown (rs_est rs) \<and> q_items (rs_est rs) = []"
    unfolding run_ok_def by blast
  with assms(1) ne show ?thesis unfolding run_ok_def by simp
qed

lemma run_ok_callback:
  assumes ok: "run_ok n rs" and step: "run_step e c n (Callback ev) rs = Some rs'"
  shows "run_ok n rs'"
proof -
  from step obtain out s where h: "handle e c ev (rs_est rs) = Some (out, s)" and
    rs': "rs' = rs\<lparr>rs_est := s\<rparr> \<or> (\<exists>p. rs' = rs\<lparr>rs_est := s, rs_phase := Crashed p\<rparr>)"
    by (auto elim!: run_go_cases split: if_splits)
  have calm: "calm (rs_est rs) s" by (rule calm_shut, rule preservesD [OF handle_shut h])
  obtain cs where "ecalls s = ecalls (rs_est rs) @ cs" "list_all (\<lambda>w. \<not> is_write w \<and> no_attempt w) cs"
    using emitsD [OF handle_calls h] by blast
  then have quiet: "rs_workers rs = [] \<Longrightarrow> list_all (\<lambda>w. \<not> is_write w \<and> no_attempt w) (ecalls s)"
    using ok by (simp add: run_ok_def)
  from rs' run_ok_est [OF ok calm quiet] show ?thesis by auto
qed

lemma run_ok_work:
  assumes ok: "run_ok n rs" and step: "run_step e c n (WorkerStep k) rs = Some rs'"
  shows "run_ok n rs'"
proof -
  from step obtain out s where k: "k < length (rs_workers rs)" and
    w: "worker_step e c (rs_cancelled rs) (rs_workers rs ! k) (rs_est rs) = Some (out, s)" and
    rs': "\<And>w. out = Val w \<Longrightarrow> rs' = rs\<lparr>rs_est := s, rs_workers := (rs_workers rs)[k := w]\<rparr>"
      "\<And>p. out = Panic p \<Longrightarrow> rs' = rs\<lparr>rs_est := s, rs_phase := Crashed p\<rparr>"
    by (auto elim!: run_go_cases split: if_splits)
  have calm: "calm (rs_est rs) s" by (rule worker_calm [OF w])
  have ok': "run_ok n (rs\<lparr>rs_est := s\<rparr>)" "run_ok n (rs\<lparr>rs_est := s, rs_phase := Crashed p\<rparr>)" for p
    using k by (intro run_ok_est [OF ok calm]; auto)+
  show ?thesis
  proof (cases out)
    case (Val v)
    have "v = WPaused \<Longrightarrow> q_shutdown s \<and> q_items s = []" using w Val by (auto elim!: worker_step_cases split: if_splits)
    with run_ok_worker [OF ok'(1)] rs'(1) [OF Val] k show ?thesis by simp
  next
    case (Panic p)
    with ok'(2) rs'(2) show ?thesis by simp
  qed
qed

lemma run_ok_delay:
  assumes ok: "run_ok n rs" and step: "run_step e c n (DelayOver k) rs = Some rs'"
  shows "run_ok n rs'"
proof -
  from step obtain s where s: "queue_Fire k (rs_est rs) = Some s" "rs' = rs\<lparr>rs_est := s\<rparr>" by (auto split: if_splits)
  then have "calm (rs_est rs) s" "ecalls s = ecalls (rs_est rs)" by (auto simp: queue_Fire_def calm_def split: if_splits)
  moreover from this ok have "rs_workers rs = [] \<Longrightarrow> list_all (\<lambda>w. \<not> is_write w \<and> no_attempt w) (ecalls s)"
    unfolding run_ok_def by simp
  ultimately show ?thesis unfolding s(2) using run_ok_est(1) [OF ok] by blast
qed

lemma run_ok_step:
  assumes ok: "run_ok n rs" and step: "run_step e c n l rs = Some rs'"
  shows "run_ok n rs'"
proof (cases l)
  case StartInformers
  with step have "rs_phase rs = Fresh" "rs' = rs\<lparr>rs_phase := Informing, rs_metric := True\<rparr>" by (simp_all split: if_splits)
  with ok show ?thesis by (simp add: run_ok_def queue_ShutDown_def)
next
  case ServicesSynced
  with step have "rs' = rs\<lparr>rs_services := True\<rparr>" by (simp_all split: if_splits)
  with ok show ?thesis by (simp add: run_ok_def queue_ShutDown_def)
next
  case SlicesSynced
  with step have "rs' = rs\<lparr>rs_slices := True\<rparr>" by (simp_all split: if_splits)
  with ok show ?thesis by (simp add: run_ok_def queue_ShutDown_def)
next
  case Serve
  with step have "rs_phase rs = Informing" "rs_services rs" "rs_slices rs" "rs' = rs\<lparr>rs_phase := Serving, rs_workers := replicate n WTop\<rparr>" by (simp_all split: if_splits)
  with ok show ?thesis by (simp add: run_ok_def queue_ShutDown_def)
next
  case GiveUp
  with step have "rs_phase rs = Informing" "rs_stop rs" "rs' = rs\<lparr>rs_phase := Stopping, rs_metric := False\<rparr>" by (simp_all split: if_splits)
  with ok show ?thesis by (simp add: run_ok_def queue_ShutDown_def)
next
  case CloseStop
  with step have "rs' = rs\<lparr>rs_stop := True\<rparr>" by (simp_all split: if_splits)
  with ok show ?thesis by (simp add: run_ok_def queue_ShutDown_def)
next
  case NoticeStop
  with step have "rs_phase rs = Serving" "rs_stop rs" "rs' = rs\<lparr>rs_phase := Stopping, rs_metric := False\<rparr>" by (simp_all split: if_splits)
  with ok show ?thesis by (simp add: run_ok_def) blast
next
  case CloseQueue
  with step have "rs_phase rs = Stopping" "rs' = rs\<lparr>rs_phase := Closed, rs_est := queue_ShutDown (rs_est rs)\<rparr>" by (simp_all split: if_splits)
  with ok show ?thesis by (simp add: run_ok_def queue_ShutDown_def)
next
  case CancelContext
  with step have "rs_phase rs = Closed" "rs' = rs\<lparr>rs_phase := Returned, rs_cancelled := True\<rparr>" by (simp_all split: if_splits)
  with ok show ?thesis by (simp add: run_ok_def queue_ShutDown_def)
qed (use step run_ok_callback [OF ok] run_ok_work [OF ok] run_ok_delay [OF ok] in simp_all)

lemma run_reach_ok: "run_reach e c n rs \<Longrightarrow> run_ok n rs"
proof (induction rule: run_reach.induct)
  case init
  show ?case by (simp add: run_ok_def run_init_def init_est_def)
qed (rule run_ok_step)

section \<open>The queue in a run\<close>

context queue_invariant begin

lemma worker_moves:
  assumes J: "J (held ws) s" and k: "k < length ws" and move: "worker_step e c b (ws ! k) s = Some (Val w, s')"
  shows "J (held (ws[k := w])) s'"
  using move
proof (cases rule: worker_step_cases)
  case (got i r)
  then show ?thesis using J held_moves(2) [OF k, of w i] by (auto intro: take)
next
  case (finished i r err)
  then have "held ws = add_mset i (held (ws[k := w]))" by (intro held_moves(3) [OF k]) simp_all
  with J finished show ?thesis by (auto intro: finish)
qed (use J k held_moves(1) [OF k, of w] in \<open>auto intro: run\<close>)

lemma run_reachable: "run_reach e c n rs \<Longrightarrow> J (held (rs_workers rs)) (rs_est rs)"
proof (induction rule: run_reach.induct)
  case init
  show ?case using start by (simp add: run_init_def)
next
  case (step rs l rs')
  from step(2) show ?case
  proof (cases rule: run_step_cases)
    case (called ev s)
    with callback [OF step(3)] show ?thesis by simp
  next
    case (fired k s)
    with fire [OF step(3)] show ?thesis by simp
  next
    case (worker k w s)
    with step(3) worker_moves show ?thesis by simp
  next
    case (callback_panic ev p s)
    with callback [OF step(3)] show ?thesis by simp
  next
    case (worker_panic k i r p s)
    with run [OF step(3)] show ?thesis by simp
  next
    case main
    have "held (rs_workers rs') = held (rs_workers rs)"
    proof (cases "rs_workers rs' = rs_workers rs")
      case False
      with main(3) run_reach_ok [OF step(1)] show ?thesis by (simp add: run_ok_def)
    qed simp
    with main(2) step(3) shutdown [OF step(3)] show ?thesis by (elim disjE) simp_all
  qed
qed

end


section \<open>The end of a run\<close>

text \<open>
  After \<^verbatim>\<open>Run\<close> has returned every step of a worker lowers a weight: the rounds left in the queue and
  the steps each worker has left of its own.
\<close>

fun worker_weight :: "worker \<Rightarrow> nat" where
  "worker_weight WTop = 1"
| "worker_weight WPaused = 2"
| "worker_weight WIdle = 3"
| "worker_weight (WDone i req err) = 4"
| "worker_weight (WBusy i req) = 5"
| "worker_weight WGone = 0"

definition run_weight :: "run_state \<Rightarrow> nat" where
  "run_weight rs = (if crashed rs then 0
     else sum_list (map worker_weight (rs_workers rs)) + 3 * length (q_items (rs_est rs)))"

definition is_worker_step :: "run_label \<Rightarrow> bool" where
  "is_worker_step l = (case l of WorkerStep k \<Rightarrow> True | _ \<Rightarrow> False)"

text \<open>A worker inside \<^verbatim>\<open>runWorker\<close>, or just out of it.\<close>

definition inside :: "worker \<Rightarrow> bool" where
  "inside w \<longleftrightarrow> w \<noteq> WTop \<and> w \<noteq> WGone"

definition draining :: "run_state \<Rightarrow> bool" where
  "draining rs \<longleftrightarrow> list_ex inside (rs_workers rs) \<or> q_items (rs_est rs) = []"

lemma worker_step_weight:
  assumes "worker_step e c b w s = Some (Val w', s')" "q_shutdown s" "b"
  shows "worker_weight w' + 3 * length (q_items s') < worker_weight w + 3 * length (q_items s)"
  using assms(1)
proof (cases rule: worker_step_cases)
  case (got i r)
  from got(3) show ?thesis by (cases rule: queue_Get_cases) (use got in auto)
next
  case (ran i r err)
  then show ?thesis using reconcile_shut [OF ran(3)] assms(2) by (auto simp: shut_view_def split: if_splits)
next
  case (finished i r err)
  then show ?thesis by (auto simp: finishItem_eq split: if_splits)
qed (use assms(3) in auto)

lemma worker_step_inside:
  assumes "worker_step e c b w s = Some (Val w', s')" "w = WPaused \<Longrightarrow> q_items s = []"
  shows "inside w \<Longrightarrow> inside w' \<or> q_items s' = []"
  using assms(1) by (cases rule: worker_step_cases) (use assms(2) in \<open>auto simp: inside_def\<close>)

lemma worker_drains_on:
  assumes step: "worker_step e c b (rs_workers rs ! k) (rs_est rs) = Some (Val w, s)" and k: "k < length (rs_workers rs)"
    and shut: "q_shutdown (rs_est rs)" and paused: "WPaused \<in> set (rs_workers rs) \<Longrightarrow> q_items (rs_est rs) = []"
    and draining: "draining rs"
  shows "draining (rs\<lparr>rs_est := s, rs_workers := (rs_workers rs)[k := w]\<rparr>)"
proof (cases "q_items (rs_est rs) = []")
  case True
  with worker_calm [OF step] shut show ?thesis by (simp add: calm_def draining_def)
next
  case False
  with draining obtain j where j: "j < length (rs_workers rs)" "inside (rs_workers rs ! j)"
    by (auto simp: draining_def list_ex_length)
  show ?thesis
  proof (cases "j = k")
    case True
    have "inside w \<or> q_items s = []"
      by (rule worker_step_inside [OF step]) (use paused j True nth_mem [OF k] in auto)
    with k show ?thesis by (auto simp: draining_def list_ex_length intro!: exI [of _ k])
  next
    case False
    with j show ?thesis by (auto simp: draining_def list_ex_length intro!: exI [of _ j])
  qed
qed

lemma returned_step:
  assumes ok: "run_ok n rs" and returned: "rs_phase rs = Returned" and step: "run_step e c n l rs = Some rs'"
  shows "(rs_phase rs' = Returned \<or> crashed rs') \<and> run_weight rs' + (if is_worker_step l then 1 else 0) \<le> run_weight rs \<and>
    (draining rs \<longrightarrow> draining rs' \<or> crashed rs')"
proof -
  have shut: "q_shutdown (rs_est rs)" "rs_cancelled rs" and paused: "WPaused \<in> set (rs_workers rs) \<Longrightarrow> q_items (rs_est rs) = []"
    using ok returned by (simp_all add: run_ok_def)
  from step show ?thesis
  proof (cases rule: run_step_cases)
    case (called ev s)
    have "shut_view s = shut_view (rs_est rs)" by (rule preservesD [OF handle_shut called(3)])
    with shut have "q_items s = q_items (rs_est rs)" by (auto simp: shut_view_def split: if_splits)
    with called returned show ?thesis by (simp add: run_weight_def draining_def is_worker_step_def)
  next
    case (fired k s)
    with shut show ?thesis by (simp add: queue_Fire_def)
  next
    case (worker k w s)
    let ?ws = "rs_workers rs"
    have "sum_list (map worker_weight (?ws[k := w])) + worker_weight (?ws ! k) = sum_list (map worker_weight ?ws) + worker_weight w"
      by (rule sum_list_update_add) (rule worker(2))
    moreover note worker_step_weight [OF worker(3) shut]
    moreover have "draining rs \<longrightarrow> draining rs'"
      using worker_drains_on [OF worker(3,2) shut(1) paused] worker(4) by simp
    ultimately show ?thesis using worker(4,5) returned by (simp add: run_weight_def is_worker_step_def)
  next
    case (callback_panic ev p s)
    then show ?thesis by (simp add: run_weight_def is_worker_step_def)
  next
    case (worker_panic k i r p s)
    have "worker_weight (rs_workers rs ! k) \<le> sum_list (map worker_weight (rs_workers rs))"
      using worker_panic(2) by (intro member_le_sum_list) simp_all
    with worker_panic returned show ?thesis by (simp add: run_weight_def is_worker_step_def)
  next
    case main
    have "rs_phase rs' = Returned \<and> rs_workers rs' = rs_workers rs \<and> rs_est rs' = rs_est rs"
      using step main(4,5) returned by (cases l) (auto split: if_splits simp: queue_Fire_def shut run_go_def)
    with main(4) returned show ?thesis by (auto simp: run_weight_def draining_def is_worker_step_def split: run_label.split)
  qed
qed


lemma returned_exec:
  "run_ok n rs \<Longrightarrow> rs_phase rs = Returned \<or> crashed rs \<Longrightarrow> run_exec e c n ls rs = Some rs' \<Longrightarrow>
   (rs_phase rs' = Returned \<or> crashed rs') \<and> length (filter is_worker_step ls) + run_weight rs' \<le> run_weight rs \<and>
   (draining rs \<longrightarrow> draining rs' \<or> crashed rs')"
proof (induction ls arbitrary: rs)
  case (Cons l ls)
  then obtain rs1 where rs1: "run_step e c n l rs = Some rs1" "run_exec e c n ls rs1 = Some rs'"
    by (auto split: bind_splits)
  show ?case
  proof (cases "crashed rs")
    case True
    with rs1(1) have False by (cases l) (auto split: run_phase.splits if_splits simp: queue_Fire_def)
    then show ?thesis ..
  next
    case False
    with Cons.prems have "rs_phase rs = Returned" by simp
    note one = returned_step [OF Cons.prems(1) this rs1(1)]
    have ok1: "run_ok n rs1" by (rule run_ok_step [OF Cons.prems(1) rs1(1)])
    have "draining rs1 \<or> crashed rs1 \<longrightarrow> draining rs' \<or> crashed rs'"
    proof
      assume d: "draining rs1 \<or> crashed rs1"
      show "draining rs' \<or> crashed rs'"
      proof (cases "crashed rs1")
        case True
        with rs1(2) have "rs' = rs1" by (cases ls; cases "hd ls") (auto split: run_phase.splits if_splits simp: queue_Fire_def)
        with True show ?thesis by simp
      next
        case False
        with d Cons.IH [OF ok1 _ rs1(2)] one show ?thesis by blast
      qed
    qed
    with Cons.IH [OF ok1 _ rs1(2)] one show ?thesis by auto
  qed
qed auto

lemma worker_enabled:
  assumes "q_shutdown s" "w \<noteq> WGone"
  obtains out s' where "worker_step e c b w s = Some (out, s')"
proof (cases w)
  case (WBusy i r)
  obtain out s' where "reconcile e c r s = Some (out, s')" using reconcile_returns unfolding returns_def by blast
  with WBusy that show ?thesis by (cases out) (auto simp: go_bind_Some)
next
  case WIdle
  with assms that show ?thesis by (cases "q_items s") (auto simp: queue_Get_def go_bind_def)
next
  case (WDone i r err)
  with that show ?thesis by (auto simp: go_then_def go_bind_def finishItem_eq)
qed (use assms that in auto)

lemma returned_progress:
  assumes "run_ok n rs" "rs_phase rs = Returned" "k < length (rs_workers rs)" "rs_workers rs ! k \<noteq> WGone"
  shows "\<exists>rs'. run_step e c n (WorkerStep k) rs = Some rs'"
proof -
  have "q_shutdown (rs_est rs)" using assms(1,2) by (simp add: run_ok_def)
  then obtain out s' where "worker_step e c (rs_cancelled rs) (rs_workers rs ! k) (rs_est rs) = Some (out, s')"
    using worker_enabled assms(4) by metis
  with assms(2,3) show ?thesis by (cases out) (simp_all add: run_go_def)
qed

lemma run_weight_bound:
  assumes "run_ok n rs"
  shows "run_weight rs \<le> 3 * length (q_items (rs_est rs)) + 5 * n"
proof -
  have "worker_weight w \<le> 5" for w by (cases w) simp_all
  then have "sum_list (map worker_weight ws) \<le> 5 * length ws" for ws
    by (induction ws) (auto intro: add_mono)
  from this [of "rs_workers rs"] assms show ?thesis by (cases "rs_workers rs = []") (auto simp: run_weight_def run_ok_def)
qed

section \<open>Workers and the loop of a worker\<close>

text \<open>A number of steps of one worker, with nothing in between.\<close>

primrec worker_steps :: "eps_env \<Rightarrow> Controller \<Rightarrow> bool \<Rightarrow> nat \<Rightarrow> worker \<Rightarrow> (est, worker) go" where
  "worker_steps e c b 0 w = go_ret w"
| "worker_steps e c b (Suc m) w = go_bind (worker_step e c b w) (worker_steps e c b m)"

lemma worker_steps_Suc:
  "worker_steps e c b (Suc m) w s = Some (Val w', s') \<longleftrightarrow>
    (\<exists>w1 s1. worker_step e c b w s = Some (Val w1, s1) \<and> worker_steps e c b m w1 s1 = Some (Val w', s'))"
  by (auto simp: go_bind_def split: option.splits outcome.splits)

lemma worker_steps_add:
  "worker_steps e c b m w s = Some (Val w1, s1) \<Longrightarrow> worker_steps e c b m' w1 s1 = r \<Longrightarrow> worker_steps e c b (m + m') w s = r"
proof (induction m arbitrary: w s)
  case (Suc m)
  from Suc.prems(1) obtain w2 s2 where "worker_step e c b w s = Some (Val w2, s2)" "worker_steps e c b m w2 s2 = Some (Val w1, s1)"
    unfolding worker_steps_Suc by blast
  with Suc.IH Suc.prems(2) show ?case by (simp add: go_bind_Some)
qed simp

lemma round_steps:
  assumes "processNextItem e c s = Some (Val True, s')"
  shows "worker_steps e c b 3 WIdle s = Some (Val WIdle, s')"
  using assms
proof (cases rule: processNextItem_cases)
  case (round i r s1 err s2)
  then show ?thesis by (simp add: eval_nat_numeral go_bind_Some go_then_def)
qed simp_all

lemma quiet_steps:
  "worker_steps e c b m w s = Some (Val w', s') \<Longrightarrow> q_shutdown s \<Longrightarrow> q_items s = [] \<Longrightarrow> worker_ids w = {#} \<Longrightarrow> s' = s"
proof (induction m arbitrary: w)
  case (Suc m)
  then obtain w1 s1 where "worker_step e c b w s = Some (Val w1, s1)" "worker_steps e c b m w1 s1 = Some (Val w', s')"
    unfolding worker_steps_Suc by blast
  moreover from this(1) have "s1 = s \<and> worker_ids w1 = {#}"
    by (cases rule: worker_step_cases) (use Suc.prems in \<open>auto simp: queue_Get_def\<close>)
  ultimately show ?case using Suc.IH Suc.prems by blast
qed simp

lemma loop_steps:
  assumes "runWorker e c s = Some (Val (), s')"
  shows "\<exists>m. worker_steps e c b m WIdle s = Some (Val WPaused, s')"
proof -
  let ?P = "\<lambda>e c s (y :: unit outcome \<times> est). fst y = Val () \<longrightarrow> (\<exists>m. worker_steps e c b m WIdle s = Some (Val WPaused, snd y))"
  have "?P e c s (Val (), s')"
  proof (rule runWorker.raw_induct [where P = ?P, OF _ assms])
    fix rec :: "eps_env \<Rightarrow> Controller \<Rightarrow> est \<Rightarrow> (unit outcome \<times> est) option" and e c s y
    assume IH: "\<And>e c s y. rec e c s = Some y \<Longrightarrow> ?P e c s y"
      and "Option.bind (processNextItem e c s) (\<lambda>(r, s'). case r of
        Val continue \<Rightarrow> if continue then rec e c s' else Some (Val (), s') | Panic p \<Rightarrow> Some (Panic p, s')) = Some y"
    then obtain r s1 where r: "processNextItem e c s = Some (r, s1)"
      "(case r of Val continue \<Rightarrow> if continue then rec e c s1 else Some (Val (), s1) | Panic p \<Rightarrow> Some (Panic p, s1)) = Some y"
      by (auto split: bind_splits)
    show "?P e c s y"
    proof (cases r)
      case (Panic p)
      with r(2) show ?thesis by auto
    next
      case (Val continue)
      show ?thesis
      proof (cases continue)
        case True
        with Val r(2) have "rec e c s1 = Some y" by simp
        with IH obtain m where "fst y = Val () \<longrightarrow> worker_steps e c b m WIdle s1 = Some (Val WPaused, snd y)" by blast
        moreover have "processNextItem e c s = Some (Val True, s1)" using r(1) Val True by simp
        ultimately show ?thesis using worker_steps_add [OF round_steps] by metis
      next
        case False
        with r Val have y: "y = (Val (), s1)" and quit: "processNextItem e c s = Some (Val False, s1)" by auto
        from quit have "worker_steps e c b (Suc 0) WIdle s = Some (Val WPaused, s1)"
          by (cases rule: processNextItem_cases) (simp_all add: queue_Get_def go_bind_Some)
        with y show ?thesis by (intro impI exI [of _ "Suc 0"]) (simp only: snd_conv)
      qed
    qed
  qed
  then show ?thesis by simp
qed

lemma steps_loop:
  "worker_steps e c b m WIdle s = Some (Val WPaused, s') \<Longrightarrow> runWorker e c s = Some (Val (), s')"
proof (induction m arbitrary: s rule: less_induct)
  case (less m)
  obtain m1 where m1: "m = Suc m1" using less.prems by (cases m) simp_all
  then obtain w1 s1 where w1: "worker_step e c b WIdle s = Some (Val w1, s1)" "worker_steps e c b m1 w1 s1 = Some (Val WPaused, s')"
    using less.prems unfolding m1 worker_steps_Suc by blast
  from w1(1) show ?case
  proof (cases rule: worker_step_cases)
    case quit
    then have "s' = s1" using quiet_steps [OF w1(2)] by simp
    with quit have "processNextItem e c s = Some (Val False, s')" by (simp add: processNextItem_def queue_Get_def go_bind_Some)
    then show ?thesis by (subst runWorker.simps) simp
  next
    case (got i r)
    obtain m2 where m2: "m1 = Suc m2" using w1(2) got(2) by (cases m1) simp_all
    obtain w2 s2 where w2: "worker_step e c b (WBusy i r) s1 = Some (Val w2, s2)" "worker_steps e c b m2 w2 s2 = Some (Val WPaused, s')"
      using w1(2) got(2) unfolding m2 worker_steps_Suc by auto
    from w2(1) obtain err where err: "w2 = WDone i r err" "reconcile e c r s1 = Some (Val err, s2)"
      by (cases rule: worker_step_cases) auto
    obtain m3 where m3: "m2 = Suc m3" using w2(2) err(1) by (cases m2) simp_all
    obtain w3 s3 where w3: "worker_step e c b (WDone i r err) s2 = Some (Val w3, s3)" "worker_steps e c b m3 w3 s3 = Some (Val WPaused, s')"
      using w2(2) err(1) unfolding m3 worker_steps_Suc by auto
    from w3(1) have fin: "w3 = WIdle" "finishItem c i r err s2 = Some (Val (), s3)"
      by (cases rule: worker_step_cases; auto)+
    have "runWorker e c s3 = Some (Val (), s')" using less.IH [of m3 s3] w3(2) fin(1) m1 m2 m3 by simp
    moreover have "processNextItem e c s = Some (Val True, s3)"
      using got(3) err(2) fin(2) by (simp add: processNextItem_def go_bind_Some go_then_def)
    ultimately show ?thesis by (subst runWorker.simps) simp
  qed simp_all
qed

text \<open>The steps of one worker as a run.\<close>

lemma same_worker:
  assumes "k < length (rs_workers rs)" "rs_workers rs ! k = w" "rs_est rs = s"
  shows "rs = rs\<lparr>rs_est := s', rs_workers := (rs_workers rs)[k := w']\<rparr> \<longleftrightarrow> w' = w \<and> s' = s"
proof
  assume eq: "rs = rs\<lparr>rs_est := s', rs_workers := (rs_workers rs)[k := w']\<rparr>"
  have "rs_est rs = s'" by (subst eq) simp
  moreover have "rs_workers rs = (rs_workers rs)[k := w']" by (subst eq) simp
  then have "rs_workers rs ! k = w'" using assms(1) by (metis nth_list_update_eq)
  ultimately show "w' = w \<and> s' = s" using assms by simp
qed (use assms in auto)

lemma exec_steps:
  assumes "\<not> crashed rs" "k < length (rs_workers rs)" "rs_workers rs ! k = w" "rs_est rs = s"
  shows "run_exec e c n (replicate m (WorkerStep k)) rs = Some (rs\<lparr>rs_est := s', rs_workers := (rs_workers rs)[k := w']\<rparr>) \<longleftrightarrow>
    worker_steps e c (rs_cancelled rs) m w s = Some (Val w', s')"
  using assms
proof (induction m arbitrary: rs w s)
  case 0
  then show ?case using same_worker [OF 0(2-4)] by auto
next
  case (Suc m)
  show ?case
  proof (cases "worker_step e c (rs_cancelled rs) w s")
    case None
    with Suc.prems show ?thesis by (simp add: run_go_def go_bind_def)
  next
    case (Some r)
    obtain out s1 where r: "r = (out, s1)" by (cases r)
    show ?thesis
    proof (cases out)
      case (Val w1)
      let ?rs1 = "rs\<lparr>rs_est := s1, rs_workers := (rs_workers rs)[k := w1]\<rparr>"
      have "run_step e c n (WorkerStep k) rs = Some ?rs1" using Suc.prems Some r Val by (simp add: run_go_def)
      moreover have "run_exec e c n (replicate m (WorkerStep k)) ?rs1 = Some (?rs1\<lparr>rs_est := s', rs_workers := (rs_workers ?rs1)[k := w']\<rparr>) \<longleftrightarrow>
          worker_steps e c (rs_cancelled ?rs1) m w1 s1 = Some (Val w', s')"
        by (rule Suc.IH) (use Suc.prems in simp_all)
      ultimately show ?thesis using Suc.prems Some r Val by (simp add: go_bind_Some)
    next
      case (Panic p)
      then have "run_step e c n (WorkerStep k) rs = Some (rs\<lparr>rs_est := s1, rs_phase := Crashed p\<rparr>)"
        using Suc.prems Some r by (simp add: run_go_def)
      moreover have "run_exec e c n (replicate m (WorkerStep k)) (rs\<lparr>rs_est := s1, rs_phase := Crashed p\<rparr>) \<noteq>
          Some (rs\<lparr>rs_est := s', rs_workers := (rs_workers rs)[k := w']\<rparr>)"
        using Suc.prems(1) by (cases m) (auto dest!: arg_cong [where f = rs_phase] split: run_phase.splits)
      ultimately show ?thesis using Some r Panic by (simp add: go_bind_def)
    qed
  qed
qed


section \<open>A concrete run\<close>

text \<open>
  The service of the cluster without the tenant labels is added, \<^verbatim>\<open>Run\<close> starts one worker, the worker
  enters its loop, and then the stop channel closes.
\<close>

abbreviation plain_request :: Request where
  "plain_request \<equiv> newRequest AddReq (ObjService (Some infra_service)) None"

abbreviation started_labels :: "run_label list" where
  "started_labels \<equiv> [StartInformers, Callback (ServiceAdded (Obj infra_service)), ServicesSynced, SlicesSynced, Serve, WorkerStep 0]"

abbreviation stop_labels :: "run_label list" where
  "stop_labels \<equiv> [CloseStop, NoticeStop, CloseQueue, CancelContext]"

definition started_run :: run_state where
  "started_run = \<lparr>rs_phase = Serving, rs_est = init_est\<lparr>q_items := [(0, plain_request)], q_next := 1\<rparr>, rs_stop = False,
     rs_services = True, rs_slices = True, rs_metric = True, rs_cancelled = False, rs_workers = [WIdle]\<rparr>"

definition stopped_run :: run_state where
  "stopped_run = started_run\<lparr>rs_phase := Returned, rs_est := queue_ShutDown (rs_est started_run), rs_stop := True,
     rs_metric := False, rs_cancelled := True\<rparr>"

lemma plain_reconcile: "reconcile cluster_env cluster_controller plain_request s = Some (Val None, s)"
  by (simp add: reconcile_def newRequest_def infra_service_def lget_def)

lemma started_exec: "run_exec cluster_env cluster_controller 1 started_labels run_init = Some started_run"
  by (simp add: run_init_def started_run_def run_go_def asserted_def onService_def infra_service_def queue_Add_def init_est_def)

lemma stopped_exec: "run_exec cluster_env cluster_controller 1 stop_labels started_run = Some stopped_run"
  by (simp add: started_run_def stopped_run_def)

lemma started_reach: "run_reach cluster_env cluster_controller 1 started_run"
  by (rule run_reach_exec [OF run_reach.init started_exec])

lemma stopped_reach: "run_reach cluster_env cluster_controller 1 stopped_run"
  by (rule run_reach_exec [OF started_reach stopped_exec])

section \<open>Properties\<close>

text \<open>
  C11. Retries are bounded and requests are exclusive: in every state of a run with any number of
  workers, whatever the interleaving of callbacks, timers, workers and the shutdown, a request has
  been taken from the queue at most 26 times, no request is queued twice, held by two workers, or
  queued while a worker holds it, and the rate limiter counts the failed attempts of every request
  that waits.
\<close>

theorem run_exclusive:
  assumes "run_reach e (NewKubevirtEPSController ns) n rs"
  shows "attempts i (rs_est rs) \<le> 26 \<and> count (mset (pending (rs_est rs)) + held (rs_workers rs)) i \<le> 1 \<and>
    list_all (\<lambda>j. attempts j (rs_est rs) = q_failures (rs_est rs) j \<and> q_failures (rs_est rs) j \<le> 25) (pending (rs_est rs))"
  using retries.run_reachable [OF assms] by (simp add: held_ok_def NewKubevirtEPSController_def list_all_iff)

theorem run_exclusive_witness:
  "attempts 0 (rs_est started_run) \<le> 26 \<and> count (mset (pending (rs_est started_run)) + held (rs_workers started_run)) 0 \<le> 1 \<and>
   list_all (\<lambda>j. attempts j (rs_est started_run) = q_failures (rs_est started_run) j \<and> q_failures (rs_est started_run) j \<le> 25)
     (pending (rs_est started_run))"
  by (rule run_exclusive [OF started_reach])

text \<open>
  C23. Nothing is tried or written too early or unseen: a run attempts requests and writes slices only
  after the caches of the infra Services and of the tenant EndpointSlices have synced, and every write
  in its history comes after a listing of the slices of a service that allows it: a creation of an
  unnamed slice that the service owns, an update or a deletion of a listed slice.
\<close>

theorem run_writes:
  assumes "run_reach e c n rs" and "ecalls (rs_est rs) = before @ w # after" and "is_write w \<or> \<not> no_attempt w"
  shows "rs_services rs \<and> rs_slices rs \<and> (is_write w \<longrightarrow> allowed_by before w)"
proof -
  have "rs_workers rs \<noteq> []" using run_reach_ok [OF assms(1)] assms(2,3) by (auto simp: run_ok_def)
  then have "rs_services rs \<and> rs_slices rs" using run_reach_ok [OF assms(1)] by (simp add: run_ok_def)
  moreover have "is_write w \<longrightarrow> allowed_by before w"
    using writes_listedD [OF writes.run_reachable [OF assms(1)] assms(2)] by blast
  ultimately show ?thesis by blast
qed

theorem run_writes_witness:
  "\<exists>rs. run_reach cluster_env cluster_controller 1 rs \<and> ecalls (rs_est rs) = [EAttempt 0] \<and> rs_services rs \<and> rs_slices rs"
proof -
  obtain rs where rs: "run_exec cluster_env cluster_controller 1 [WorkerStep 0] started_run = Some rs" "ecalls (rs_est rs) = [] @ EAttempt 0 # []"
    by (simp add: started_run_def run_go_def queue_Get_def go_bind_def init_est_def)
  have reach: "run_reach cluster_env cluster_controller 1 rs" by (rule run_reach_exec [OF started_reach rs(1)])
  have "rs_services rs \<and> rs_slices rs" using run_writes [OF reach rs(2)] by simp
  with reach rs(2) show ?thesis by auto
qed

text \<open>
  C22. \<^verbatim>\<open>Run\<close> ends cleanly: once it has returned, the workers make only a bounded number of further
  steps, whatever else happens; until then a worker that has not ended can always go on, unless the
  process crashed; and when all workers have ended and one of them was in its loop when \<^verbatim>\<open>Run\<close> returned,
  the queue is empty.
\<close>

theorem stopped_run_ends:
  assumes "run_reach e c n rs" and "rs_phase rs = Returned" and "run_exec e c n ls rs = Some rs'"
  shows "length (filter is_worker_step ls) \<le> 3 * length (q_items (rs_est rs)) + 5 * n \<and>
    (crashed rs' \<or> list_all (\<lambda>k. rs_workers rs' ! k = WGone \<or> run_step e c n (WorkerStep k) rs' \<noteq> None) [0..<length (rs_workers rs')]) \<and>
    (list_ex inside (rs_workers rs) \<and> \<not> list_ex inside (rs_workers rs') \<longrightarrow> q_items (rs_est rs') = [] \<or> crashed rs')"
proof -
  have ok: "run_ok n rs" "run_ok n rs'"
    using run_reach_ok [OF assms(1)] run_reach_ok [OF run_reach_exec [OF assms(1,3)]] by simp_all
  have exec: "(rs_phase rs' = Returned \<or> crashed rs') \<and> length (filter is_worker_step ls) + run_weight rs' \<le> run_weight rs \<and>
      (draining rs \<longrightarrow> draining rs' \<or> crashed rs')"
    by (rule returned_exec [OF ok(1) _ assms(3)]) (simp add: assms(2))
  then have "length (filter is_worker_step ls) \<le> 3 * length (q_items (rs_est rs)) + 5 * n"
    using run_weight_bound [OF ok(1)] by linarith
  moreover have "crashed rs' \<or> list_all (\<lambda>k. rs_workers rs' ! k = WGone \<or> run_step e c n (WorkerStep k) rs' \<noteq> None) [0..<length (rs_workers rs')]"
  proof (cases "crashed rs'")
    case False
    with exec have "rs_phase rs' = Returned" by blast
    then have "rs_workers rs' ! k = WGone \<or> run_step e c n (WorkerStep k) rs' \<noteq> None" if "k < length (rs_workers rs')" for k
      using returned_progress [OF ok(2) _ that, where e = e and c = c] by (auto simp del: run_step.simps)
    then show ?thesis by (simp add: list_all_iff del: run_step.simps)
  qed simp
  ultimately show ?thesis using exec by (auto simp: draining_def)
qed

theorem stopped_run_ends_witness:
  "\<exists>rs'. run_exec cluster_env cluster_controller 1 (replicate 6 (WorkerStep 0)) stopped_run = Some rs' \<and>
     rs_workers rs' = [WGone] \<and> q_items (rs_est rs') = []"
proof -
  have fin: "finishItem cluster_controller 0 plain_request None s = Some (Val (), s\<lparr>q_failures := (q_failures s)(0 := 0)\<rparr>)" for s
    by (simp add: finishItem_eq)
  obtain rs' where rs': "run_exec cluster_env cluster_controller 1 (replicate 6 (WorkerStep 0)) stopped_run = Some rs'"
    "rs_workers rs' = [WGone]" "\<not> crashed rs'"
    by (simp add: eval_nat_numeral stopped_run_def started_run_def run_go_def queue_ShutDown_def queue_Get_def go_bind_def go_then_def
        plain_reconcile fin)
  have "rs_phase stopped_run = Returned" "list_ex inside (rs_workers stopped_run)"
    by (simp_all add: stopped_run_def started_run_def inside_def)
  with stopped_run_ends [OF stopped_reach _ rs'(1)] rs' have "q_items (rs_est rs') = []" by (simp add: inside_def)
  with rs' show ?thesis by blast
qed

text \<open>
  A worker left to itself is the loop of the source: from a state in which a worker is in its loop,
  the states in which only that worker has moved and its \<^verbatim>\<open>runWorker\<close> has returned are exactly the
  results of \<^const>\<open>runWorker\<close>.
\<close>

lemma worker_is_loop:
  assumes "\<not> crashed rs" and "k < length (rs_workers rs)" and "rs_workers rs ! k = WIdle"
  shows "(\<exists>m. run_exec e c n (replicate m (WorkerStep k)) rs =
      Some (rs\<lparr>rs_est := s', rs_workers := (rs_workers rs)[k := WPaused]\<rparr>)) \<longleftrightarrow>
    runWorker e c (rs_est rs) = Some (Val (), s')"
  using loop_steps steps_loop unfolding exec_steps [OF assms refl] by blast

end
