(* ===== verification/Startup.thy ===== *)
theory Startup
  imports Cloud EPS_Settle EPS_Run
begin

text \<open>
  The start of the controller manager (\<^verbatim>\<open>cmd/kubevirt-cloud-controller-manager\<close>): the choice and
  the checks of the cloud provider in \<^verbatim>\<open>main.go\<close> and the start of the endpoint slice controller in
  \<^verbatim>\<open>kubevirteps.go\<close>, and \<^verbatim>\<open>main\<close> itself. The options and the command of the framework, which parses
  the flags and calls these functions, are parameters.
\<close>

section \<open>Choosing the provider\<close>

text \<open>
  A value of \<^verbatim>\<open>cloudprovider.Interface\<close>: this provider, or another one that the process may have
  registered, with what the code asks of it.
\<close>

datatype cloud_iface = KubevirtCloud Cloud | OtherCloud string bool

fun iface_HasClusterID :: "cloud_iface \<Rightarrow> bool" where
  "iface_HasClusterID (KubevirtCloud c) = Cloud_HasClusterID c"
| "iface_HasClusterID (OtherCloud name has) = has"

fun iface_ProviderName :: "cloud_iface \<Rightarrow> string" where
  "iface_ProviderName (KubevirtCloud c) = Cloud_ProviderName c"
| "iface_ProviderName (OtherCloud name has) = name"

text \<open>
  The registry of \<^verbatim>\<open>k8s.io/cloud-provider\<close>: \<open>others\<close> are the factories registered besides the one
  that the provider package registers in its \<^verbatim>\<open>init\<close>.
\<close>

type_synonym registry = "string \<rightharpoonup> ((goerror + string) option \<Rightarrow> goerror + cloud_iface)"

definition registered :: "boot_env \<Rightarrow> registry \<Rightarrow> registry" where
  "registered b others = others(ProviderName \<mapsto> (\<lambda>config.
     case kubevirtCloudProviderFactory b config of Inl err \<Rightarrow> Inl err | Inr c \<Rightarrow> Inr (KubevirtCloud c)))"

definition GetCloudProvider :: "registry \<Rightarrow> string \<Rightarrow> (goerror + string) option \<Rightarrow> goerror + cloud_iface option" where
  "GetCloudProvider providers name config =
     (case providers name of
        None \<Rightarrow> Inr None
      | Some f \<Rightarrow> (case f config of Inl err \<Rightarrow> Inl err | Inr c \<Rightarrow> Inr (Some c)))"

text \<open>The two errors of \<^verbatim>\<open>InitCloudProvider\<close>, each with the name that its text quotes.\<close>

datatype init_error = CouldNotInit string goerror | UnknownProvider string

definition InitCloudProvider :: "boot_env \<Rightarrow> registry \<Rightarrow> string \<Rightarrow> string \<Rightarrow> (init_error + cloud_iface option) outcome" where
  "InitCloudProvider b providers name configFilePath =
     (let finish = (\<lambda>got. case got of
            Inl err \<Rightarrow> Inl (CouldNotInit name err)
          | Inr None \<Rightarrow> Inl (UnknownProvider name)
          | Inr (Some cloud) \<Rightarrow> Inr (Some cloud))
      in if name = '''' \<or> name = ''external'' then Val (Inr None)
         else if configFilePath \<noteq> ''''
         then (case be_Open b configFilePath of
                 Inl err \<Rightarrow> Panic FatalExit
               | Inr contents \<Rightarrow> Val (finish (GetCloudProvider providers name (Some contents))))
         else Val (finish (GetCloudProvider providers name None)))"

text \<open>\<^verbatim>\<open>klog.Fatalf\<close> ends the process.\<close>

definition cloudInitializer :: "boot_env \<Rightarrow> registry \<Rightarrow> string \<Rightarrow> string \<Rightarrow> bool \<Rightarrow> cloud_iface outcome" where
  "cloudInitializer b providers name configFile allowUntagged =
     (case InitCloudProvider b providers name configFile of
        Panic p \<Rightarrow> Panic p
      | Val (Inl err) \<Rightarrow> Panic FatalExit
      | Val (Inr None) \<Rightarrow> Panic FatalExit
      | Val (Inr (Some cloud)) \<Rightarrow>
          if \<not> iface_HasClusterID cloud \<and> \<not> allowUntagged then Panic FatalExit else Val cloud)"

section \<open>Starting the endpoint slice controller\<close>

text \<open>
  What the function needs besides the boot environment: the typed and the dynamic client for a REST
  configuration, the tenant configuration of the manager, and the three registrations of callbacks
  in \<^verbatim>\<open>Init\<close>.
\<close>

record eps_boot =
  eb_tenantConfig :: string
  eb_kubernetes_NewForConfig :: "string \<Rightarrow> goerror option"
  eb_dynamic_NewForConfig :: "string \<Rightarrow> goerror option"
  eb_AddEventHandler :: "nat \<Rightarrow> goerror option"

definition first_error :: "goerror option list \<Rightarrow> goerror option" where
  "first_error rs = (case filter (\<lambda>r. r \<noteq> None) rs of [] \<Rightarrow> None | r # _ \<Rightarrow> r)"

text \<open>\<^verbatim>\<open>Init\<close> registers the callbacks of \<^const>\<open>handle\<close> with three informers.\<close>

definition Init :: "eps_boot \<Rightarrow> goerror option" where
  "Init eb = first_error (map (eb_AddEventHandler eb) [0, 1, 2])"

definition infraRestConfig :: "boot_env \<Rightarrow> Cloud \<Rightarrow> goerror + string" where
  "infraRestConfig b c =
     (if cc_Kubeconfig (Cloud_GetCloudConfig c) = '''' then be_InClusterConfig b
      else (case Cloud_GetInfraKubeconfig b c of
              Inl err \<Rightarrow> Inl err
            | Inr infraKubeConfig \<Rightarrow>
                (case be_NewClientConfigFromBytes b infraKubeConfig of
                   Inl err \<Rightarrow> Inl err
                 | Inr clientConfig \<Rightarrow> kc_ClientConfig clientConfig)))"

text \<open>
  What the function has done: an error, or nothing started, or the controller on which it calls \<^verbatim>\<open>Run\<close>
  in a goroutine, with the REST configuration of the infra cluster and the number of workers. The
  flag that it returns beside the error is false in every case.
\<close>

definition startKubevirtCloudController ::
  "boot_env \<Rightarrow> eps_boot \<Rightarrow> cloud_iface \<Rightarrow> goerror + (Controller \<times> string \<times> nat) option" where
  "startKubevirtCloudController b eb cloud =
     (case cloud of
        OtherCloud name has \<Rightarrow> Inl (ErrText (ControllerName @ '' does not support '' @ iface_ProviderName cloud @ '' provider''))
      | KubevirtCloud c \<Rightarrow>
          if lc_EnableEPSController (cc_LoadBalancer (Cloud_GetCloudConfig c)) \<noteq> Some True then Inr None
          else (case eb_kubernetes_NewForConfig eb (eb_tenantConfig eb) of
                  Some err \<Rightarrow> Inl err
                | None \<Rightarrow>
                    (case infraRestConfig b c of
                       Inl err \<Rightarrow> Inl err
                     | Inr restConfig \<Rightarrow>
                         (case first_error [eb_kubernetes_NewForConfig eb restConfig, eb_dynamic_NewForConfig eb restConfig, Init eb] of
                            Some err \<Rightarrow> Inl err
                          | None \<Rightarrow> Inr (Some (NewKubevirtEPSController (Cloud_Namespace c), restConfig, 1))))))"

section \<open>The process\<close>

text \<open>
  A constructor of a controller, as the framework gets it: once the manager is configured it returns
  the function that starts the controller on a cloud object.
\<close>

type_synonym constructor = "eps_boot \<Rightarrow> cloud_iface \<Rightarrow> goerror + (Controller \<times> string \<times> nat) option"

definition StartKubevirtCloudControllerWrapper :: "boot_env \<Rightarrow> constructor" where
  "StartKubevirtCloudControllerWrapper b = (\<lambda>eb cloud. startKubevirtCloudController b eb cloud)"

text \<open>
  The framework: whether the options can be built, its own controllers, and the command, which runs
  with the initializer of the cloud and the constructors and returns an exit code.
\<close>

record manager =
  mg_options :: "goerror option"
  mg_defaults :: "string \<rightharpoonup> constructor"
  mg_run :: "(string \<Rightarrow> string \<Rightarrow> bool \<Rightarrow> cloud_iface outcome) \<Rightarrow> (string \<rightharpoonup> constructor) \<Rightarrow> int"

definition main_process :: "boot_env \<Rightarrow> registry \<Rightarrow> manager \<Rightarrow> int outcome" where
  "main_process b others m =
     (case mg_options m of
        Some err \<Rightarrow> Panic FatalExit
      | None \<Rightarrow> Val (mg_run m (cloudInitializer b (registered b others))
          ((mg_defaults m)(ControllerName \<mapsto> StartKubevirtCloudControllerWrapper b))))"

section \<open>Properties\<close>

text \<open>
  The manager starts only with a working provider: if the initializer returns for the name of
  this provider, a configuration file was given, opened, read and decoded, and the returned object
  is the one the factory built from it; without a configuration file, or under a name that is not
  registered, the process ends.
\<close>

lemma cloudInitializer_correct:
  "(\<forall>cloud. cloudInitializer b (registered b others) ProviderName file untagged = Val cloud \<longleftrightarrow>
      file \<noteq> '''' \<and> (\<exists>bytes c. be_Open b file = Inr (Inr bytes) \<and> kubevirtCloudProviderFactory b (Some (Inr bytes)) = Inr c \<and>
        cloud = KubevirtCloud c)) \<and>
   (registered b others name = None \<longrightarrow> cloudInitializer b (registered b others) name file untagged = Panic FatalExit)"
proof -
  have name: "ProviderName \<noteq> ''''" "ProviderName \<noteq> ''external''" by (simp_all add: ProviderName_def)
  have readable: "kubevirtCloudProviderFactory b config = Inr c \<Longrightarrow> \<exists>bytes. config = Some (Inr bytes)" for config c
    by (auto simp: kubevirtCloudProviderFactory_def split: option.splits sum.splits)
  have "cloudInitializer b (registered b others) ProviderName file untagged = Val cloud \<longleftrightarrow>
      file \<noteq> '''' \<and> (\<exists>bytes c. be_Open b file = Inr (Inr bytes) \<and> kubevirtCloudProviderFactory b (Some (Inr bytes)) = Inr c \<and>
        cloud = KubevirtCloud c)" for cloud
  proof (cases "file = ''''")
    case True
    with name show ?thesis
      by (simp add: cloudInitializer_def InitCloudProvider_def GetCloudProvider_def registered_def kubevirtCloudProviderFactory_def)
  next
    case False
    show ?thesis
    proof (cases "be_Open b file")
      case (Inr contents)
      then show ?thesis
        using False name readable [of "Some contents"]
        by (cases "kubevirtCloudProviderFactory b (Some contents)")
          (auto simp: cloudInitializer_def InitCloudProvider_def GetCloudProvider_def registered_def Cloud_HasClusterID_def)
    qed (use False name in \<open>simp add: cloudInitializer_def InitCloudProvider_def\<close>)
  qed
  moreover have "cloudInitializer b providers name file untagged = Panic FatalExit" if "providers name = None" for providers
    using that by (auto simp: cloudInitializer_def InitCloudProvider_def GetCloudProvider_def Let_def
        split: sum.splits option.splits if_splits outcome.splits)
  ultimately show ?thesis by blast
qed

text \<open>
  C38. The endpoint slice controller runs for the cluster of the provider: it is started only when it
  is enabled explicitly, it watches the namespace of the cloud object with one worker and the limits
  of 25 retries and 100 endpoints, and for a cloud object that the factory built it reads the infra cluster with
  the REST configuration from which the client of that object was made, as long as the environment
  gives the same answers.
\<close>

theorem eps_controller_started:
  assumes "kubevirtCloudProviderFactory b (Some (Inr bytes)) = Inr c"
  shows "(\<forall>ctl rest workers. startKubevirtCloudController b eb (KubevirtCloud c) = Inr (Some (ctl, rest, workers)) \<longrightarrow>
      lc_EnableEPSController (cc_LoadBalancer (cd_config c)) = Some True \<and>
      ctl = \<lparr>ct_infraNamespace = cd_namespace c, ct_maxRetries = 25, ct_maxEndPointsPerSlice = 100\<rparr> \<and>
      workers = 1 \<and> be_client_New b rest = Inr (cd_client c)) \<and>
    (lc_EnableEPSController (cc_LoadBalancer (cd_config c)) \<noteq> Some True \<longrightarrow>
      startKubevirtCloudController b eb (KubevirtCloud c) = Inr None)"
proof -
  obtain rest ns where conf: "infraConfig b (cd_config c) = Inr (rest, ns)" "be_client_New b rest = Inr (cd_client c)"
    using assms by (auto simp: kubevirtCloudProviderFactory_def NewCloudConfigFromBytes_def split: sum.splits)
  then have "infraRestConfig b c = Inr rest"
    by (auto simp: infraConfig_def infraRestConfig_def Cloud_GetInfraKubeconfig_def simp: Cloud_GetCloudConfig_def split: sum.splits if_splits)
  then show ?thesis
    using conf(2)
    by (auto simp: startKubevirtCloudController_def NewKubevirtEPSController_def Cloud_GetCloudConfig_def Cloud_Namespace_def split: option.splits if_splits)
qed

theorem eps_controller_started_witness:
  "let conf = createDefaultCloudConfig\<lparr>cc_LoadBalancer := (cc_LoadBalancer createDefaultCloudConfig)\<lparr>lc_EnableEPSController := Some True\<rparr>,
         cc_Namespace := ''infra''\<rparr>;
       b = demo_boot\<lparr>be_Unmarshal := (\<lambda>_ _. Inr conf)\<rparr>;
       eb = \<lparr>eb_tenantConfig = ''tenant'', eb_kubernetes_NewForConfig = (\<lambda>_. None), eb_dynamic_NewForConfig = (\<lambda>_. None),
         eb_AddEventHandler = (\<lambda>_. None)\<rparr>
   in \<exists>c. kubevirtCloudProviderFactory b (Some (Inr '''')) = Inr c \<and>
        startKubevirtCloudController b eb (KubevirtCloud c) = Inr (Some (cluster_controller, ''in-cluster'', 1)) \<and>
        be_client_New b ''in-cluster'' = Inr (cd_client c)"
proof -
  let ?conf = "createDefaultCloudConfig\<lparr>cc_LoadBalancer := (cc_LoadBalancer createDefaultCloudConfig)\<lparr>lc_EnableEPSController := Some True\<rparr>,
    cc_Namespace := ''infra''\<rparr>"
  let ?b = "demo_boot\<lparr>be_Unmarshal := (\<lambda>_ _. Inr ?conf)\<rparr>"
  let ?eb = "\<lparr>eb_tenantConfig = ''tenant'', eb_kubernetes_NewForConfig = (\<lambda>_. None), eb_dynamic_NewForConfig = (\<lambda>_. None),
    eb_AddEventHandler = (\<lambda>_. None)\<rparr>"
  let ?c = "\<lparr>cd_namespace = ''infra'', cd_client = demo_cli, cd_tenantClient = None, cd_config = ?conf\<rparr>"
  have c: "kubevirtCloudProviderFactory ?b (Some (Inr '''')) = Inr ?c"
    by (simp add: kubevirtCloudProviderFactory_def NewCloudConfigFromBytes_def infraConfig_def demo_boot_def createDefaultCloudConfig_def)
  have start: "startKubevirtCloudController ?b ?eb (KubevirtCloud ?c) = Inr (Some (cluster_controller, ''in-cluster'', 1))"
    by (simp add: startKubevirtCloudController_def infraRestConfig_def first_error_def Init_def Cloud_GetCloudConfig_def Cloud_Namespace_def demo_boot_def createDefaultCloudConfig_def)
  show ?thesis
    using eps_controller_started [OF c, of ?eb] start c unfolding Let_def by blast
qed

end
