(* ===== verification/LB_Requests.thy ===== *)
theory LB_Requests
  imports LB_Ensure
begin

text \<open>
  The rules of \<^verbatim>\<open>loadbalancer.proto\<close> for whole requests, and that the requests of the controller
  satisfy them. The rule \<^verbatim>\<open>string.uuid\<close> belongs to the schema library and is a parameter; the
  controller relies on it to accept the canonical text of a UUID. The pattern rules are spelled out.
\<close>

section \<open>The rules\<close>

definition lower_hex :: "char \<Rightarrow> bool" where
  "lower_hex c \<longleftrightarrow> is_digit c \<or> (97 \<le> (of_char c :: nat) \<and> (of_char c :: nat) \<le> 102)"

text \<open>Groups of lower-case hexadecimal digits of given lengths, with an optional dash between two groups.\<close>

fun hex_groups :: "nat list \<Rightarrow> string \<Rightarrow> bool" where
  "hex_groups [] s \<longleftrightarrow> s = ''''"
| "hex_groups [n] s \<longleftrightarrow> length s = n \<and> list_all lower_hex s"
| "hex_groups (n # m # ns) s \<longleftrightarrow> n \<le> length s \<and> list_all lower_hex (take n s) \<and>
     hex_groups (m # ns) (if take 1 (drop n s) = ''-'' then drop (Suc n) s else drop n s)"

text \<open>The pattern \<^verbatim>\<open>^[0-9a-f]{8}-?[0-9a-f]{4}-?[0-9a-f]{4}-?[0-9a-f]{4}-?[0-9a-f]{12}$\<close>, and the one with all dashes.\<close>

definition lax_uuid :: "string \<Rightarrow> bool" where
  "lax_uuid = hex_groups [8, 4, 4, 4, 12]"

definition dashed_uuid :: "string \<Rightarrow> bool" where
  "dashed_uuid s \<longleftrightarrow> length s = 36 \<and> lax_uuid s"

text \<open>The pattern \<^verbatim>\<open>^(?:[0-9]{1,3}\.){3}[0-9]{1,3}$\<close>: so many fields of one to three digits.\<close>

fun dotted :: "nat \<Rightarrow> nat \<Rightarrow> string \<Rightarrow> bool" where
  "dotted k n [] \<longleftrightarrow> k = 0 \<and> 1 \<le> n \<and> n \<le> 3"
| "dotted k n (c # cs) \<longleftrightarrow>
     (if c = CHR ''.'' then (case k of 0 \<Rightarrow> False | Suc k' \<Rightarrow> 1 \<le> n \<and> n \<le> 3 \<and> dotted k' 0 cs)
      else is_digit c \<and> dotted k (Suc n) cs)"

definition ipv4_pattern :: "string \<Rightarrow> bool" where
  "ipv4_pattern = dotted 3 0"

definition ok_security_groups :: "string list \<Rightarrow> bool" where
  "ok_security_groups ids \<longleftrightarrow> distinct ids \<and> length ids \<le> 10 \<and> list_all lax_uuid ids"

definition ok_LoadBalancerSpec :: "LoadBalancerSpec \<Rightarrow> bool" where
  "ok_LoadBalancerSpec sp \<longleftrightarrow> spec_TenantId sp \<noteq> '''' \<and> spec_NetworkId sp \<noteq> '''' \<and> spec_SubnetId sp \<noteq> ''''
     \<and> spec_Listeners sp \<noteq> [] \<and> list_all (\<lambda>l. case l of None \<Rightarrow> False | Some x \<Rightarrow> ok_Listener x) (spec_Listeners sp)
     \<and> 0 \<le> spec_ClientConnLimit sp
     \<and> ok_security_groups (spec_SecurityGroupIds sp)
     \<and> lax_uuid (spec_TenantId sp) \<and> lax_uuid (spec_NetworkId sp) \<and> lax_uuid (spec_SubnetId sp)
     \<and> (spec_QosPolicyDisabled sp \<or> lax_uuid (spec_QosPolicyId sp))"

definition ok_CreateLoadBalancerRequest :: "(string \<Rightarrow> bool) \<Rightarrow> CreateLoadBalancerRequest \<Rightarrow> bool" where
  "ok_CreateLoadBalancerRequest uuid r \<longleftrightarrow> length (cr_Name r) \<le> 255
     \<and> ok_LoadBalancerSpec (cr_Spec r)
     \<and> (case cr_FipNetworkId r of None \<Rightarrow> True | Some n \<Rightarrow> uuid n)
     \<and> uuid (cr_IdempotencyKey r)
     \<and> (case cr_Fip r of None \<Rightarrow> True | Some f \<Rightarrow> (f = '''' \<or> ipv4_pattern f) \<and> cr_FipNetworkId r \<noteq> None)"

definition ok_ListLoadBalancersRequest :: "ListLoadBalancersRequest \<Rightarrow> bool" where
  "ok_ListLoadBalancersRequest r \<longleftrightarrow> 1 \<le> lsr_PageSize r \<and> lsr_PageSize r \<le> 200"

definition ok_UpdateLoadBalancerRequest :: "(string \<Rightarrow> bool) \<Rightarrow> UpdateLoadBalancerRequest \<Rightarrow> bool" where
  "ok_UpdateLoadBalancerRequest uuid r \<longleftrightarrow> uuid (ur_Id r)
     \<and> list_all ok_Listener (ur_Listeners r)
     \<and> (case ur_ClientConnLimit r of None \<Rightarrow> True | Some n \<Rightarrow> 0 \<le> n)
     \<and> ok_security_groups (ur_SecurityGroupIds r)
     \<and> (ur_SecurityGroupDisabled r \<noteq> None \<or> ur_SecurityGroupIds r = [])
     \<and> (ur_QosPolicyDisabled r \<noteq> Some False \<or> (case ur_QosPolicyId r of None \<Rightarrow> False | Some q \<Rightarrow> dashed_uuid q))"

definition ok_GetLoadBalancerRequest :: "(string \<Rightarrow> bool) \<Rightarrow> GetLoadBalancerRequest \<Rightarrow> bool" where
  "ok_GetLoadBalancerRequest uuid r = uuid (gr_Id r)"

definition ok_DeleteLoadBalancerRequest :: "(string \<Rightarrow> bool) \<Rightarrow> DeleteLoadBalancerRequest \<Rightarrow> bool" where
  "ok_DeleteLoadBalancerRequest uuid r = uuid (dr_Id r)"

definition ok_AllocateFloatingIpRequest :: "(string \<Rightarrow> bool) \<Rightarrow> AllocateFloatingIpRequest \<Rightarrow> bool" where
  "ok_AllocateFloatingIpRequest uuid r \<longleftrightarrow> uuid (ar_Id r) \<and> uuid (ar_FipNetworkId r)"

definition ok_ReleaseFloatingIpRequest :: "(string \<Rightarrow> bool) \<Rightarrow> ReleaseFloatingIpRequest \<Rightarrow> bool" where
  "ok_ReleaseFloatingIpRequest uuid r = uuid (rr_Id r)"

text \<open>The rule for each logged call; a get or a delete is logged with the identifier it asks for.\<close>

fun ok_call :: "(string \<Rightarrow> bool) \<Rightarrow> call \<Rightarrow> bool" where
  "ok_call uuid (CCreate r a) = ok_CreateLoadBalancerRequest uuid r"
| "ok_call uuid (CUpdate r a) = ok_UpdateLoadBalancerRequest uuid r"
| "ok_call uuid (CGet i a) = ok_GetLoadBalancerRequest uuid \<lparr>gr_Id = i\<rparr>"
| "ok_call uuid (CDelete i a) = ok_DeleteLoadBalancerRequest uuid \<lparr>dr_Id = i\<rparr>"
| "ok_call uuid (CList r a) = ok_ListLoadBalancersRequest r"
| "ok_call uuid c = True"

section \<open>The requests of the controller\<close>

lemma hexd_lower: "n < 16 \<Longrightarrow> lower_hex (hexd n)"
  by (auto simp: hexd_def lower_hex_def is_digit_def)

text \<open>Identifiers do not matter to the rules of a listener.\<close>

lemma ok_rule_strip:
  "ok_ListenerRule (r\<lparr>lr_Id := i, lr_Backends := map (\<lambda>b. b\<lparr>rb_Id := j\<rparr>) (lr_Backends r)\<rparr>) = ok_ListenerRule r"
  "ok_http_monitor (r\<lparr>lr_Id := i, lr_Backends := bs\<rparr>) = ok_http_monitor r"
proof -
  have "ok_RuleBackend (b\<lparr>rb_Id := j\<rparr>) = ok_RuleBackend b" for b by (simp add: ok_RuleBackend_def)
  then show "ok_ListenerRule (r\<lparr>lr_Id := i, lr_Backends := map (\<lambda>b. b\<lparr>rb_Id := j\<rparr>) (lr_Backends r)\<rparr>) = ok_ListenerRule r"
    by (simp add: ok_ListenerRule_def list.pred_map comp_def list_ex_iff)
  show "ok_http_monitor (r\<lparr>lr_Id := i, lr_Backends := bs\<rparr>) = ok_http_monitor r" by (simp add: ok_http_monitor_def)
qed

lemma ok_Listener_strip: "ok_Listener (strip_ids l) = ok_Listener l"
  by (simp add: ok_Listener_def strip_ids_def list.pred_map comp_def ok_rule_strip)

lemma merged_ok: "list_all ok_Listener ls \<Longrightarrow> list_all ok_Listener (mergeListenerIDs ls current)"
proof -
  assume "list_all ok_Listener ls"
  moreover have "ok_Listener (mergeOne h want) = ok_Listener want" for h want
    using mergeOne_strip ok_Listener_strip by metis
  ultimately show ?thesis by (simp add: mergeListenerIDs_map list.pred_map comp_def)
qed

lemma ok_updateRequest:
  "uuid lbID \<Longrightarrow> list_all ok_Listener ls \<Longrightarrow> ok_UpdateLoadBalancerRequest uuid (updateRequest lbID ls l)"
  by (simp add: ok_UpdateLoadBalancerRequest_def updateRequest_def ok_security_groups_def merged_ok)

lemma name_length: "length (GetLoadBalancerName service) \<le> 32"
  by (simp add: GetLoadBalancerName_def)

lemma key_uuid:
  assumes "\<And>u. length u = 16 \<Longrightarrow> uuid (UUID_String u)" "\<And>x. length (env_sha1 e x) = 20" "uuid (svc_UID service)"
  shows "uuid (createIdempotencyKey e service k)"
  using assms by (simp add: createIdempotencyKey_def NewSHA1_def)

definition uuid_settings :: "loadbalancer \<Rightarrow> Service \<Rightarrow> bool" where
  "uuid_settings lb service \<longleftrightarrow> lax_uuid (getTenantID lb service) \<and> lax_uuid (getNetworkID lb service) \<and> lax_uuid (getSubnetID lb service)"

lemma lax_uuid_nonempty: "lax_uuid s \<Longrightarrow> s \<noteq> ''''"
  by (auto simp: lax_uuid_def)

lemma ok_createRequest:
  assumes "ls \<noteq> []" "list_all ok_Listener ls" "uuid (createIdempotencyKey e service k)"
    and "isFipEnabled lb service \<Longrightarrow> lc_FipNetworkID (lb_config lb) \<noteq> '''' \<Longrightarrow> uuid (lc_FipNetworkID (lb_config lb))"
  shows "ok_CreateLoadBalancerRequest uuid (createRequest e lb service ls k) \<longleftrightarrow> uuid_settings lb service"
proof -
  have "length (GetLoadBalancerName service) \<le> 255" using name_length [of service] by simp
  then show ?thesis
    using assms lax_uuid_nonempty
    by (auto simp: ok_CreateLoadBalancerRequest_def createRequest_def ok_LoadBalancerSpec_def ok_security_groups_def
        uuid_settings_def Let_def list.pred_map comp_def defaultClientConnLimit_def)
qed


lemma built_ok:
  assumes "list_all ok_ServicePort (svc_Ports service)" "ok_path_annotation service" "few_endpoints e nodes"
    and "built_listeners e lb service nodes clusterName ls"
  shows "ls \<noteq> []" "list_all ok_Listener ls"
  using assms validated_listeners_accepted [OF assms(1-3)] unfolding built_listeners_def by blast+

lemma listRequest_ok: "ok_ListLoadBalancersRequest (listRequest tenantID tok)"
  by (simp add: ok_ListLoadBalancersRequest_def listRequest_def listLoadBalancersPageSize_def)

text \<open>What the settings decide: only the creates can be refused, and they are refused without UUIDs.\<close>

definition accepted_muts :: "(string \<Rightarrow> bool) \<Rightarrow> loadbalancer \<Rightarrow> Service \<Rightarrow> call list \<Rightarrow> bool" where
  "accepted_muts uuid lb service ms \<longleftrightarrow>
     list_all (\<lambda>m. ok_call uuid m = (case m of CCreate r a \<Rightarrow> uuid_settings lb service | _ \<Rightarrow> True)) ms"

text \<open>The laws under which the requests are built: the schema rule, the digest and the identifiers of the cluster.\<close>

definition uuid_world :: "(string \<Rightarrow> bool) \<Rightarrow> env \<Rightarrow> loadbalancer \<Rightarrow> Service \<Rightarrow> bool" where
  "uuid_world uuid e lb service \<longleftrightarrow>
     (\<forall>u. length u = 16 \<longrightarrow> uuid (UUID_String u)) \<and> (\<forall>x. length (env_sha1 e x) = 20) \<and> uuid (svc_UID service) \<and>
     (annot service LoadBalancerIDAnnotationKey = '''' \<or> uuid (annot service LoadBalancerIDAnnotationKey)) \<and>
     (lc_FipNetworkID (lb_config lb) = '''' \<or> uuid (lc_FipNetworkID (lb_config lb)))"

lemma accepted_create:
  assumes "uuid_world uuid e lb service" "ls \<noteq> []" "list_all ok_Listener ls"
  shows "ok_CreateLoadBalancerRequest uuid (createRequest e lb service ls k) = uuid_settings lb service"
proof (rule ok_createRequest [OF assms(2,3)])
  show "uuid (createIdempotencyKey e service k)"
    by (rule key_uuid) (use assms(1) in \<open>simp_all add: uuid_world_def\<close>)
qed (use assms(1) in \<open>auto simp: uuid_world_def\<close>)

lemma accepted_update:
  assumes "uuid_world uuid e lb service" "annot service LoadBalancerIDAnnotationKey \<noteq> ''''" "list_all ok_Listener ls"
  shows "ok_UpdateLoadBalancerRequest uuid (updateRequest (annot service LoadBalancerIDAnnotationKey) ls l)"
  by (rule ok_updateRequest) (use assms in \<open>auto simp: uuid_world_def\<close>)

lemma allowed_accepted:
  assumes world: "uuid_world uuid e lb service" and live: "svc_DeletionTimestamp service = None"
    and built: "\<And>ls. B ls \<Longrightarrow> ls \<noteq> [] \<and> list_all ok_Listener ls"
    and ms: "allowed_muts e lb service B n ms"
  shows "accepted_muts uuid lb service ms"
proof -
  have id: "annot service LoadBalancerIDAnnotationKey \<noteq> '''' \<Longrightarrow> uuid (annot service LoadBalancerIDAnnotationKey)"
    using world by (simp add: uuid_world_def)
  from ms live id show ?thesis
    unfolding allowed_muts_def Let_def accepted_muts_def
    using accepted_create [OF world] accepted_update [OF world] built by (auto split: if_splits simp: ok_DeleteLoadBalancerRequest_def)
qed

lemma updates_accepted:
  assumes world: "uuid_world uuid e lb service" and built: "\<And>ls. B ls \<Longrightarrow> ls \<noteq> [] \<and> list_all ok_Listener ls"
    and ms: "update_muts e service B ms"
  shows "accepted_muts uuid lb service ms"
  using ms accepted_update [OF world] built unfolding update_muts_def accepted_muts_def by auto

section \<open>Properties\<close>

text \<open>
  C14. Requests fit the API: with ports in range, a valid route path, at most 256 addresses, and UUIDs
  for the identifiers of the cluster and the server, every update and delete that
  \<^verbatim>\<open>EnsureLoadBalancer\<close> and \<^verbatim>\<open>UpdateLoadBalancer\<close> send for a Service satisfies all rules of the schema,
  on the first attempt and on every later one, and a create satisfies them exactly if the effective
  tenant, network and subnet identifiers look like UUIDs; the fallback of the tenant to the
  namespace therefore works only for namespaces that are named like one.
\<close>

theorem requests_accepted:
  assumes "uuid_world uuid e lb service" and "svc_DeletionTimestamp service = None"
    and "list_all ok_ServicePort (svc_Ports service)" and "ok_path_annotation service" and "few_endpoints e nodes"
  shows "wp (EnsureLoadBalancer e (wired e c lb) clusterName service nodes)
      (\<lambda>r s'. \<exists>ms. muts s' = muts s @ ms \<and> accepted_muts uuid lb service ms) s \<and>
    wp (UpdateLoadBalancer e (wired e c lb) clusterName service nodes)
      (\<lambda>r s'. \<exists>ms. muts s' = muts s @ ms \<and> accepted_muts uuid lb service ms) s"
proof -
  have world: "uuid_world uuid e (wired e c lb) service" using assms(1) by (simp add: uuid_world_def wired_def)
  have "uuid_settings (wired e c lb) service = uuid_settings lb service"
    by (simp add: uuid_settings_def wired_def getTenantID_def getNetworkID_def getSubnetID_def useAnnotationConfig_def)
  then have settings: "accepted_muts uuid (wired e c lb) service ms = accepted_muts uuid lb service ms" for ms
    by (simp add: accepted_muts_def cong: call.case_cong)
  let ?B = "built_listeners e (wired e c lb) service nodes clusterName"
  have built: "ls \<noteq> [] \<and> list_all ok_Listener ls" if "?B ls" for ls
    using built_ok [OF assms(3-5) that] by blast
  have ensured: "accepted_muts uuid lb service ms" if "allowed_muts e (wired e c lb) service ?B n ms" for n ms
    unfolding settings [symmetric] by (rule allowed_accepted [OF world assms(2) built that])
  have updated: "accepted_muts uuid lb service ms" if "update_muts e service ?B ms" for ms
    unfolding settings [symmetric] by (rule updates_accepted [OF world built that])
  have "wp (EnsureLoadBalancer e (wired e c lb) clusterName service nodes)
      (\<lambda>r s'. \<exists>ms. muts s' = muts s @ ms \<and> accepted_muts uuid lb service ms) s"
    by (rule wp_conseq [OF wired.Ensure_effect [unfolded effect_def]]) (use ensured in blast)
  moreover have "wp (UpdateLoadBalancer e (wired e c lb) clusterName service nodes)
      (\<lambda>r s'. \<exists>ms. muts s' = muts s @ ms \<and> accepted_muts uuid lb service ms) s"
    by (rule wp_conseq [OF wired.Update_effect [unfolded effect_def]]) (use updated in blast)
  ultimately show ?thesis by blast
qed

definition tenant_lb :: loadbalancer where
  "tenant_lb = (demo_lb None)\<lparr>lb_config := (lb_config (demo_lb None))\<lparr>lc_TenantID := ''0123456789abcdef0123456789abcdef'',
     lc_NetworkID := ''6ba7b810-9dad-41d1-80b4-00c04fd430c8'', lc_SubnetID := ''6ba7b810-9dad41d180b400c04fd430c8''\<rparr>\<rparr>"

theorem requests_accepted_witness:
  "uuid_settings tenant_lb (demo_service\<lparr>svc_UID := svc_UID uid_service\<rparr>) \<and>
   wp (EnsureLoadBalancer sha1_env (wired sha1_env (Some demo_client) tenant_lb) ''c'' (demo_service\<lparr>svc_UID := svc_UID uid_service\<rparr>)
        [demo_node ''a'' ''10.0.0.2''])
      (\<lambda>r s'. \<exists>ms. muts s' = muts init_st @ ms \<and>
         accepted_muts (\<lambda>s. length s = 36) tenant_lb (demo_service\<lparr>svc_UID := svc_UID uid_service\<rparr>) ms) init_st"
proof
  let ?svc = "demo_service\<lparr>svc_UID := svc_UID uid_service\<rparr>"
  show "uuid_settings tenant_lb ?svc"
    by (simp add: uuid_settings_def getTenantID_def getNetworkID_def getSubnetID_def useAnnotationConfig_def tenant_lb_def
        demo_lb_def createDefaultCloudConfig_def lax_uuid_def lower_hex_def is_digit_def)
  have "\<forall>x. length (env_sha1 sha1_env x) = 20" by (auto simp: sha1_env_def min_def)
  then have "uuid_world (\<lambda>s. length s = 36) sha1_env tenant_lb ?svc"
    using UUID_String_length
    by (simp add: uuid_world_def uid_service_def demo_service_def annots_def mget_def lb_keys
        tenant_lb_def demo_lb_def createDefaultCloudConfig_def)
  moreover have "svc_DeletionTimestamp ?svc = None" "list_all ok_ServicePort (svc_Ports ?svc)" "ok_path_annotation ?svc"
    "few_endpoints sha1_env [demo_node ''a'' ''10.0.0.2'']"
    by (simp_all add: demo_defs ok_ServicePort_def ok_path_annotation_def annots_def mget_def few_endpoints_def sha1_env_def quiet_env_def)
  ultimately show "wp (EnsureLoadBalancer sha1_env (wired sha1_env (Some demo_client) tenant_lb) ''c'' ?svc [demo_node ''a'' ''10.0.0.2''])
      (\<lambda>r s'. \<exists>ms. muts s' = muts init_st @ ms \<and> accepted_muts (\<lambda>s. length s = 36) tenant_lb ?svc ms) init_st"
    by (rule requests_accepted [THEN conjunct1])
qed

end
