(* ===== verification/LB_Lifetime.thy ===== *)
theory LB_Lifetime
  imports LB_Ensure
begin

text \<open>
  The create counter over the whole life of the load balancer controller. The counter lives in an
  annotation of the Service, so what an \<^verbatim>\<open>EnsureLoadBalancer\<close> call reads was written by an earlier
  call, possibly several calls ago (the caller passes a cached copy, and a write may fail). The
  history of calls says what was written; a protocol of calls in any order, with restarts of the
  process, says what can happen. The invariant bounds the counter and the idempotency keys.
\<close>

section \<open>What the API server can answer\<close>

abbreviation count_annotation :: "Service \<Rightarrow> string option" where
  "count_annotation service \<equiv> annots service LoadBalancerCreateCountAnnotationKey"

text \<open>
  A copy of a Service whose create count only the controller writes: there is none yet, or it is the
  one of a Service that the controller sent at some time, whether or not that update was confirmed.
\<close>

definition stored :: "st \<Rightarrow> Service \<Rightarrow> bool" where
  "stored s service \<longleftrightarrow> count_annotation service = None \<or>
     (\<exists>w r. CSvcUpdate w r \<in> set (calls s) \<and> count_annotation w = count_annotation service)"

definition only_writer :: "env \<Rightarrow> bool" where
  "only_writer e \<longleftrightarrow> (\<forall>s ns n service. env_tenant_Get e s ns n = Inr service \<longrightarrow> stored s service)"

text \<open>
  The life of the controller for the Services with the identifiers \<open>U\<close>: calls of the four operations
  in any order, and restarts of the process, which lose the retry counters. \<open>copy s service\<close> says which
  copies of a Service \<^verbatim>\<open>EnsureLoadBalancer\<close> may be called with when the history is that of \<open>s\<close>.
\<close>

inductive life :: "env \<Rightarrow> loadbalancer \<Rightarrow> string set \<Rightarrow> (st \<Rightarrow> Service \<Rightarrow> bool) \<Rightarrow> st \<Rightarrow> bool" for e lb U copy where
  life_start: "calls s = [] \<Longrightarrow> life e lb U copy s"
| life_restart: "life e lb U copy s \<Longrightarrow> life e lb U copy (s\<lparr>retryCounts := Map.empty\<rparr>)"
| life_get: "life e lb U copy s \<Longrightarrow> GetLoadBalancer lb service s = Some (rg, s') \<Longrightarrow> life e lb U copy s'"
| life_ensure: "life e lb U copy s \<Longrightarrow> svc_UID service \<in> U \<Longrightarrow> copy s service \<Longrightarrow>
    EnsureLoadBalancer e lb clusterName service nodes s = Some (re, s') \<Longrightarrow> life e lb U copy s'"
| life_update: "life e lb U copy s \<Longrightarrow> UpdateLoadBalancer e lb clusterName service nodes s = Some (ru, s') \<Longrightarrow> life e lb U copy s'"
| life_delete: "life e lb U copy s \<Longrightarrow> EnsureLoadBalancerDeleted lb service s = Some (rd, s') \<Longrightarrow> life e lb U copy s'"

definition uncounted :: "st \<Rightarrow> Service \<Rightarrow> bool" where
  "uncounted s service \<longleftrightarrow> count_annotation service = None"

section \<open>Keys\<close>

text \<open>The key of a create attempt, as a function of the UID alone, and the keys of the creates in the history.\<close>

definition uid_key :: "env \<Rightarrow> string \<Rightarrow> int \<Rightarrow> string" where
  "uid_key e uid createAttempt = createIdempotencyKey e (uid_service\<lparr>svc_UID := uid\<rparr>) createAttempt"

lemma createIdempotencyKey_uid: "createIdempotencyKey e service n = uid_key e (svc_UID service) n"
  by (simp add: uid_key_def createIdempotencyKey_def key_space_def)

definition attempt_keys :: "env \<Rightarrow> string set \<Rightarrow> string set" where
  "attempt_keys e U = (\<lambda>(uid, n). uid_key e uid n) ` (U \<times> {0..maxLoadBalancerCreateCount})"

definition create_keys :: "st \<Rightarrow> string set" where
  "create_keys s = {cr_IdempotencyKey req | req r. CCreate req r \<in> set (calls s)}"

lemma attempt_keysI:
  "svc_UID service \<in> U \<Longrightarrow> 0 \<le> n \<Longrightarrow> n \<le> maxLoadBalancerCreateCount \<Longrightarrow> createIdempotencyKey e service n \<in> attempt_keys e U"
  by (force simp: attempt_keys_def createIdempotencyKey_uid)

lemma card_attempt_keys:
  assumes "finite U"
  shows "finite (attempt_keys e U)" "card (attempt_keys e U) \<le> 4 * card U"
proof -
  show "finite (attempt_keys e U)" using assms by (simp add: attempt_keys_def)
  have "card (attempt_keys e U) \<le> card (U \<times> {0..maxLoadBalancerCreateCount})"
    unfolding attempt_keys_def by (rule card_image_le) (simp add: assms)
  also have "\<dots> = 4 * card U" by (simp add: maxLoadBalancerCreateCount_def card_cartesian_product)
  finally show "card (attempt_keys e U) \<le> 4 * card U" .
qed

section \<open>The invariant\<close>

definition count_ok :: "string option \<Rightarrow> bool" where
  "count_ok t \<longleftrightarrow> (case t of None \<Rightarrow> True | Some v \<Rightarrow> v \<in> itoa ` {1..maxLoadBalancerCreateCount})"

fun sane_call :: "env \<Rightarrow> string set \<Rightarrow> call \<Rightarrow> bool" where
  "sane_call e U (CSvcUpdate w r) = count_ok (count_annotation w)"
| "sane_call e U (CCreate req r) = (cr_IdempotencyKey req \<in> attempt_keys e U)"
| "sane_call e U _ = True"

definition sane :: "env \<Rightarrow> string set \<Rightarrow> st \<Rightarrow> bool" where
  "sane e U s \<longleftrightarrow> (\<forall>c \<in> set (calls s). sane_call e U c)"

lemma sane_simps [simp]:
  "sane e U (s\<lparr>calls := calls s @ cs\<rparr>) \<longleftrightarrow> sane e U s \<and> (\<forall>c \<in> set cs. sane_call e U c)"
  "sane e U (s\<lparr>retryCounts := m\<rparr>) = sane e U s"
  "sane e U (clearRetryCount uid s) = sane e U s" "sane e U (incrementRetryCount uid s) = sane e U s"
  by (auto simp: sane_def)

lemma stored_ok: "sane e U s \<Longrightarrow> stored s service \<Longrightarrow> count_ok (count_annotation service)"
  by (force simp: sane_def stored_def count_ok_def)

lemma getCreateCount_ok:
  assumes "count_ok (count_annotation service)"
  shows "0 \<le> getCreateCount service" "getCreateCount service \<le> maxLoadBalancerCreateCount"
proof -
  have *: "itoa n \<noteq> ''''" for n by (simp add: itoa_def)
  have "atoi (itoa n) = Some n" if "n \<in> {1..maxLoadBalancerCreateCount}" for n
    using that by (intro atoi_itoa) (simp_all add: maxLoadBalancerCreateCount_def)
  with assms * have "getCreateCount service \<in> {0..maxLoadBalancerCreateCount}"
    by (auto simp: getCreateCount_def count_ok_def maxLoadBalancerCreateCount_def split: option.splits)
  then show "0 \<le> getCreateCount service" "getCreateCount service \<le> maxLoadBalancerCreateCount" by simp_all
qed

lemma wire_only_sane: "wire_only m \<Longrightarrow> keeps (sane e U) m"
  by (erule preserves_keeps) (simp add: caller_view_def sane_def)

lemma logged_sane: "wire_only m \<Longrightarrow> (\<And>r. sane_call e U (ev r)) \<Longrightarrow> keeps (sane e U) (logged ev m)"
  unfolding logged_def by (intro go_keeps wire_only_sane) simp_all

section \<open>Annotations\<close>

text \<open>What one annotation may write: any other key, or a count within the bound.\<close>

definition writable :: "string \<Rightarrow> string \<Rightarrow> bool" where
  "writable key val \<longleftrightarrow> key \<noteq> LoadBalancerCreateCountAnnotationKey \<or> count_ok (Some val)"

lemma annotateOnce_sane:
  assumes "only_writer e" "writable key val"
  shows "keeps (sane e U) (annotateOnce e service key val)"
proof -
  have "count_ok (count_annotation (annotate latest key val))"
    if "sane e U s" "env_tenant_Get e s ns n = Inr latest" for s ns n latest
    using that assms stored_ok [of e U s latest]
    by (auto simp: only_writer_def writable_def annotate_def annots_def)
  then show ?thesis
    by (auto simp: keeps_wp annotateOnce_def go_wp Let_def split: sum.split)
qed

lemma retryOnConflict_keeps [go_keeps]: "keeps I fn \<Longrightarrow> keeps I (retryOnConflict n fn lastErr)"
proof (induction n arbitrary: lastErr)
  case 0
  show ?case unfolding retryOnConflict.simps by (rule go_keeps)
qed (auto intro!: go_keeps)

lemma annotations_sane [go_keeps]:
  assumes "only_writer e"
  shows "writable key val \<Longrightarrow> keeps (sane e U) (ensureServiceAnnotation e service key val)"
    "keeps (sane e U) (recordListenerHash e service listeners)"
    "keeps (sane e U) (publish e lb service l)"
proof -
  have ann: "keeps (sane e U) (ensureServiceAnnotation e service key val)" if "writable key val" for key val
    unfolding ensureServiceAnnotation_def by (intro go_keeps annotateOnce_sane assms that)
  then show "writable key val \<Longrightarrow> keeps (sane e U) (ensureServiceAnnotation e service key val)" .
  show "keeps (sane e U) (recordListenerHash e service listeners)"
    unfolding recordListenerHash_def by (intro go_keeps ann) (simp add: writable_def lb_keys)
  show "keeps (sane e U) (publish e lb service l)"
    unfolding publish_def updateKamajiAdvertiseAddress_def storeInternalIpIfBothMode_def Let_def
    by (auto intro!: go_keeps ann simp: writable_def lb_keys)
qed

lemma buildListeners_sane [go_keeps]: "keeps (sane e U) (buildListeners e lb service nodes clusterName)"
proof -
  have "keeps (sane e U) (buildEndpoints e lb port nodes clusterName)" for port
    by (auto simp: buildEndpoints_def buildEndpointsFromVMI_def Let_def intro!: go_keeps)
  then have "keeps (sane e U) (buildPorts e lb service nodes clusterName ports)" for ports
  proof (induction ports)
    case Nil
    show ?case unfolding buildPorts.simps by (rule go_keeps)
  qed (auto intro!: go_keeps)
  then show ?thesis by (simp add: buildListeners_def)
qed

section \<open>Every operation keeps the invariant\<close>

context lb_client
begin

lemma rpc_sane [go_keeps]:
  "keeps (sane e U) (lb_Get lb lbID)" "keeps (sane e U) (lb_Update lb ur)"
  "keeps (sane e U) (lb_Delete lb lbID)" "keeps (sane e U) (lb_List lb lr)"
  "cr_IdempotencyKey cr \<in> attempt_keys e U \<Longrightarrow> keeps (sane e U) (lb_Create lb cr)"
  by (simp_all add: lb_Get_def lb_Update_def lb_Delete_def lb_List_def lb_Create_def client logged_sane frames)

lemma poll_sane [go_keeps]: "keeps (sane e U) (pollLoadBalancerReady e lb service lbID)"
proof -
  have "wp (pollLoop e lb service lbID interval timeout deadline) (\<lambda>_ s'. sane e U s') s" if "sane e U s"
    for interval timeout deadline s
    by (rule pollLoop_rule [where I = "sane e U"])
       (use that in \<open>auto intro!: wp_keepsI [OF rpc_sane(1)] split: outcome.split option.split\<close>)
  then have "keeps (sane e U) (pollLoop e lb service lbID interval timeout deadline)" for interval timeout deadline
    by (simp add: keeps_wp)
  then show ?thesis unfolding pollLoadBalancerReady_def time_Now_def by (auto intro!: go_keeps)
qed

lemma find_sane [go_keeps]: "keeps (sane e U) (findLoadBalancerByName lb tenantID lbName)"
proof -
  have "wp (findLoop lb tenantID lbName tok) (\<lambda>_ s'. sane e U s') s" if "sane e U s" for tok s
    by (rule findLoop_rule [where I = "\<lambda>_. sane e U"])
       (use that in \<open>auto intro!: wp_keepsI [OF rpc_sane(4)] split: outcome.split option.split sum.split\<close>)
  then show ?thesis by (simp add: findLoadBalancerByName_def keeps_wp)
qed

lemma waitAndPublish_sane: "only_writer e \<Longrightarrow> keeps (sane e U) (waitAndPublish e lb service lbID)"
  unfolding waitAndPublish_def by (auto intro!: go_keeps)

lemma createAndWait_sane:
  assumes "only_writer e" "cr_IdempotencyKey req \<in> attempt_keys e U" "count_ok (Some count)"
  shows "keeps (sane e U) (createAndWait e lb service listeners req count)"
  unfolding createAndWait_def
  by (auto intro!: go_keeps waitAndPublish_sane assms simp: writable_def assms lb_keys)

lemma deleted_sane: "keeps (sane e U) (EnsureLoadBalancerDeleted lb service)"
  unfolding EnsureLoadBalancerDeleted_def deleteByID_def Let_def
  by (auto intro!: go_keeps)

lemma ensureNew_sane:
  assumes "only_writer e" "count_ok (count_annotation service)" "svc_UID service \<in> U"
  shows "keeps (sane e U) (ensureNew e lb service listeners)"
proof -
  have "itoa 1 = ''1''" by code_simp
  then have "count_ok (Some ''1'')" by (force simp: count_ok_def maxLoadBalancerCreateCount_def)
  moreover have "createIdempotencyKey e service (getCreateCount service) \<in> attempt_keys e U"
    using attempt_keysI assms(3) getCreateCount_ok [OF assms(2)] by blast
  ultimately show ?thesis
    unfolding ensureNew_def by (auto intro!: go_keeps createAndWait_sane assms simp: createRequest_def Let_def)
qed

lemma ensureRecreate_sane:
  assumes "only_writer e" "count_ok (count_annotation service)" "svc_UID service \<in> U"
  shows "keeps (sane e U) (ensureRecreate e lb service lbID listeners)"
proof -
  let ?n = "getCreateCount service + 1"
  have "count_ok (Some (itoa ?n)) \<and> createIdempotencyKey e service ?n \<in> attempt_keys e U"
    if "getCreateCount service < maxLoadBalancerCreateCount"
    using that attempt_keysI assms(3) getCreateCount_ok [OF assms(2)] by (auto simp: count_ok_def)
  then show ?thesis
    unfolding ensureRecreate_def Let_def
    by (auto intro!: go_keeps createAndWait_sane assms simp: createRequest_def Let_def)
qed

lemma Ensure_sane:
  assumes "only_writer e" "count_ok (count_annotation service)" "svc_UID service \<in> U"
  shows "keeps (sane e U) (EnsureLoadBalancer e lb clusterName service nodes)"
proof -
  have "keeps (sane e U) (ensureReady e lb service lbID listeners l)" for lbID listeners l
    unfolding ensureReady_def by (auto intro!: go_keeps waitAndPublish_sane assms)
  moreover have "keeps (sane e U) (ensureNotReady e lb service lbID listeners l)" for lbID listeners l
    unfolding ensureNotReady_def by (auto intro!: go_keeps assms)
  ultimately have "keeps (sane e U) (ensureExisting e lb service lbID listeners)" for lbID listeners
    unfolding ensureExisting_def ensureStale_def Let_def
    by (auto intro!: go_keeps ensureRecreate_sane assms)
  then show ?thesis
    unfolding EnsureLoadBalancer_def Let_def
    by (auto intro!: go_keeps ensureNew_sane deleted_sane assms)
qed

lemma Update_sane: "only_writer e \<Longrightarrow> keeps (sane e U) (UpdateLoadBalancer e lb clusterName service nodes)"
  unfolding UpdateLoadBalancer_def Let_def
  by (intro go_keeps; simp add: writable_def lb_keys)

lemma life_sane:
  assumes "only_writer e"
  shows "life e lb U stored s \<Longrightarrow> sane e U s"
proof (induction rule: life.induct)
  case (life_get s service rg s')
  have "keeps (sane e U) (GetLoadBalancer lb service)"
    by (auto simp: GetLoadBalancer_def Let_def intro!: go_keeps)
  then show ?case using life_get.IH life_get.hyps(2) by (rule keepsD)
next
  case (life_ensure s service clusterName nodes re s')
  have "keeps (sane e U) (EnsureLoadBalancer e lb clusterName service nodes)"
    using assms stored_ok [OF life_ensure.IH life_ensure.hyps(3)] life_ensure.hyps(2) by (rule Ensure_sane)
  then show ?case using life_ensure.IH life_ensure.hyps(4) by (rule keepsD)
next
  case (life_update s clusterName service nodes ru s')
  show ?case using Update_sane [OF assms] life_update.IH life_update.hyps(2) by (rule keepsD)
next
  case (life_delete s service rd s')
  show ?case using deleted_sane life_delete.IH life_delete.hyps(2) by (rule keepsD)
qed (simp_all add: sane_def)

text \<open>The creates alone can be read off the mutating calls of each operation.\<close>

lemma life_uncounted:
  "life e lb U uncounted s \<Longrightarrow> CCreate req r \<in> set (muts s) \<Longrightarrow> cr_IdempotencyKey req \<in> (\<lambda>(uid, n). uid_key e uid n) ` (U \<times> {0, 1})"
proof (induction arbitrary: req r rule: life.induct)
  case (life_get s service rg s')
  then show ?case using preservesD [OF Get_view] by (simp add: mview_iff)
next
  case (life_ensure s service clusterName nodes re s')
  then obtain ms where ms: "muts s' = muts s @ ms" "allowed_muts e lb service (built_listeners e lb service nodes clusterName)
      (retryCount s (svc_UID service)) ms"
    using wpD [OF Ensure_effect [unfolded effect_def]] by blast
  have "getCreateCount service = 0" using life_ensure.hyps(3) by (simp add: uncounted_def getCreateCount_def)
  with ms(2) have "cr_IdempotencyKey q \<in> {uid_key e (svc_UID service) 0, uid_key e (svc_UID service) 1}" if "CCreate q x \<in> set ms" for q x
    using that by (auto simp: allowed_muts_def Let_def createRequest_def createIdempotencyKey_uid split: if_splits)
  then have new: "cr_IdempotencyKey q \<in> (\<lambda>(uid, n). uid_key e uid n) ` (U \<times> {0, 1})" if "CCreate q x \<in> set ms" for q x
    using that life_ensure.hyps(2) by fastforce
  from life_ensure.prems ms(1) life_ensure.IH new show ?case by auto
next
  case (life_update s clusterName service nodes ru s')
  then obtain ms where "muts s' = muts s @ ms" "update_muts e service (built_listeners e lb service nodes clusterName) ms"
    using wpD [OF Update_effect [unfolded effect_def]] by blast
  with life_update.prems life_update.IH show ?case by (auto simp: update_muts_def)
next
  case (life_delete s service rd s')
  then obtain ms where "muts s' = muts s @ ms" "ms = [] \<or> (\<exists>i a. ms = [CDelete i a])"
    using wpD [OF deleted_effect [unfolded effect_def]] by blast
  with life_delete.prems life_delete.IH show ?case by auto
qed (simp_all add: muts_def)

end

section \<open>A life with a create\<close>

definition fresh_lb :: loadbalancer where
  "fresh_lb = wired (live_env ready_lb) (Some demo_client) (demo_lb None)"

lemma fresh_only_writer: "only_writer (live_env ready_lb)"
  by (simp add: only_writer_def live_env_def stored_def demo_service_def annots_def lb_keys)

lemma fresh_create:
  "lb_Create fresh_lb req s = Some (Val (Inr (Some \<lparr>crr_Id = ''lb-1'', crr_State = STATE_PENDING\<rparr>)),
     s\<lparr>wire := wire s @ [WState Ready, WSend ''CreateLoadBalancer'' (Some OK)],
       calls := calls s @ [CCreate req (Inr (Some \<lparr>crr_Id = ''lb-1'', crr_State = STATE_PENDING\<rparr>))]\<rparr>)"
proof -
  let ?e = "live_env ready_lb" and ?resp = "\<lparr>crr_Id = ''lb-1'', crr_State = STATE_PENDING\<rparr>"
  have "retryOnFailure ?e (Some demo_client) ''CreateLoadBalancer''
      (ask_wire (\<lambda>s. env_Create ?e s req) (sent ''CreateLoadBalancer'')) s =
    Some (Val (Inr (Some ?resp)), s\<lparr>wire := wire s @ [WState Ready, sent ''CreateLoadBalancer'' (Inr ?resp :: goerror + CreateLoadBalancerResponse)]\<rparr>)"
    by (rule retryOnFailure_steady [OF steady_live]) (simp_all add: demo_client_def live_env_def quiet_env_def)
  then show ?thesis
    by (simp add: fresh_lb_def lb_Create_def wired_def client_iface_def Client_CreateLoadBalancer_def logged_def
        go_bind_def ask_simps sent_def)
qed

lemma fresh_annotation:
  assumes "key \<noteq> HTTPRoutePathAnnotationKey" "val \<noteq> ''''"
  shows "ensureServiceAnnotation (live_env ready_lb) demo_service key val s = Some (Val None,
     s\<lparr>calls := calls s @ [CSvcGet ''shop'' ''web'' (Inr demo_service), CSvcUpdate (annotate demo_service key val) None]\<rparr>)"
proof -
  have "annots demo_service key = None"
    using assms by (simp add: annots_def demo_service_def)
  then have "annot demo_service key = ''''" "svc_Annotations demo_service \<noteq> None"
    by (simp_all add: mget_def demo_service_def)
  then show ?thesis
    using assms(2)
    by (simp add: ensureServiceAnnotation_def eval_nat_numeral annotateOnce_def go_bind_def ask_simps Let_def
        live_env_def demo_service_def)
qed

text \<open>The first Ensure of a Service without annotations: one create, then the three annotations.\<close>

lemma fresh_settings:
  "lb_rpcClient fresh_lb \<noteq> None" "\<not> shouldSkipService fresh_lb demo_service" "\<not> isFipEnabled fresh_lb demo_service"
  "svc_DeletionTimestamp demo_service = None" "annot demo_service LoadBalancerIDAnnotationKey = ''''"
  "getCreateCount demo_service = 0" "svc_UID demo_service = ''u-1''"
  "\<not> isBothMode fresh_lb demo_service" "mget (svc_Labels demo_service) KamajiNameLabelKey = ''''"
  by (simp_all add: fresh_lb_def demo_service_def shouldSkipService_def useAnnotationConfig_def demo_lb_def
      createDefaultCloudConfig_def annots_def mget_def getCreateCount_def isFipEnabled_def isBothMode_def getEffectiveIpType_def lb_keys)

lemma fresh_hash: "listenersHashStr (live_env ready_lb) demo_listeners \<noteq> ''''"
proof -
  have "json_listeners demo_listeners \<noteq> ''''" by (simp add: json_listeners_def)
  then have "length (listenersHashStr (live_env ready_lb) demo_listeners) \<noteq> 0"
    by (simp add: listenersHashStr_def live_env_def quiet_env_def)
  then show ?thesis by simp
qed

lemma fresh_get:
  "lb_Get fresh_lb i s = Some (Val (Inr (Some \<lparr>grr_LoadBalancer = Some ready_lb\<rparr>)),
     s\<lparr>wire := wire s @ [WState Ready, WSend ''GetLoadBalancer'' (Some OK)],
       calls := calls s @ [CGet i (Inr (Some \<lparr>grr_LoadBalancer = Some ready_lb\<rparr>))]\<rparr>)"
  unfolding fresh_lb_def by (rule live_methods)

lemma fresh_poll:
  "\<exists>s'. pollLoadBalancerReady (live_env ready_lb) fresh_lb demo_service i s = Some (Val (Inr ready_lb), s') \<and>
     (\<exists>a b. calls s' = calls s @ [CNow a, CNow b, CGet i (Inr (Some \<lparr>grr_LoadBalancer = Some ready_lb\<rparr>))])"
proof -
  have ready: "pollVerdict fresh_lb demo_service i (Inr (Some \<lparr>grr_LoadBalancer = Some ready_lb\<rparr>)) = Some (Inr ready_lb)"
    by (simp add: pollVerdict_def GetLoadBalancer_of_def fresh_settings ready_lb_def pending_lb_def)
  have timeout: "1000000000 < poll_timeout fresh_lb"
    by (simp add: poll_timeout_def fresh_lb_def demo_lb_def createDefaultCloudConfig_def seconds_def
        DefaultLoadBalancerCreatePollTimeout_def int64_id)
  have now: "env_now (live_env ready_lb) = (\<lambda>s. int (length (calls s)) * 1000000000)"
    by (simp add: live_env_def quiet_env_def)
  have "pollLoadBalancerReady (live_env ready_lb) fresh_lb demo_service i s =
      pollLoop (live_env ready_lb) fresh_lb demo_service i (poll_interval fresh_lb) (poll_timeout fresh_lb)
        (int (length (calls s)) * 1000000000 + poll_timeout fresh_lb)
        (s\<lparr>calls := calls s @ [CNow (int (length (calls s)) * 1000000000)]\<rparr>)"
    by (simp add: pollLoadBalancerReady_def time_Now_def go_bind_def ask_simps now)
  then show ?thesis
    by (subst (asm) pollLoop.simps) (use timeout in \<open>simp add: time_Now_def go_bind_def ask_simps fresh_get ready now\<close>)
qed

lemma fresh_publish: "publish (live_env ready_lb) fresh_lb demo_service ready_lb s =
    Some (Val (Inr (loadBalancerStatusFromResponse fresh_lb demo_service (Some ready_lb))), s)"
  by (simp add: publish_def updateKamajiAdvertiseAddress_def storeInternalIpIfBothMode_def fresh_settings)

lemma fresh_ensure:
  "\<exists>r s'. EnsureLoadBalancer (live_env ready_lb) fresh_lb ''c'' demo_service [demo_node ''a'' ''10.0.0.2''] init_st = Some (r, s') \<and>
    create_keys s' = {''u-1''} \<and>
    CSvcUpdate (annotate demo_service LoadBalancerCreateCountAnnotationKey ''1'') None \<in> set (calls s')"
proof -
  let ?e = "live_env ready_lb" and ?get = "CSvcGet ''shop'' ''web'' (Inr demo_service)"
  have keys: "LoadBalancerIDAnnotationKey \<noteq> HTTPRoutePathAnnotationKey"
    "LoadBalancerCreateCountAnnotationKey \<noteq> HTTPRoutePathAnnotationKey"
    "LoadBalancerListenerHashAnnotationKey \<noteq> HTTPRoutePathAnnotationKey"
    by (simp_all add: lb_keys)
  have "\<exists>s4. ensureNew ?e fresh_lb demo_service demo_listeners init_st = waitAndPublish ?e fresh_lb demo_service ''lb-1'' s4 \<and>
      calls s4 = [CCreate (createRequest ?e fresh_lb demo_service demo_listeners 0) (Inr (Some \<lparr>crr_Id = ''lb-1'', crr_State = STATE_PENDING\<rparr>)),
        ?get, CSvcUpdate (annotate demo_service LoadBalancerIDAnnotationKey ''lb-1'') None,
        ?get, CSvcUpdate (annotate demo_service LoadBalancerCreateCountAnnotationKey ''1'') None,
        ?get, CSvcUpdate (annotate demo_service LoadBalancerListenerHashAnnotationKey (listenersHashStr ?e demo_listeners)) None]"
    by (simp add: ensureNew_def fresh_settings createAndWait_def go_bind_Some(1) [OF fresh_create]
        go_bind_Some(1) [OF fresh_annotation] recordListenerHash_def fresh_hash go_bind_assoc keys)
      (rule exI, rule conjI, rule refl, simp add: init_st_def)
  then obtain s4 where s4: "ensureNew ?e fresh_lb demo_service demo_listeners init_st = waitAndPublish ?e fresh_lb demo_service ''lb-1'' s4"
    "create_keys s4 = {''u-1''}"
    "CSvcUpdate (annotate demo_service LoadBalancerCreateCountAnnotationKey ''1'') None \<in> set (calls s4)"
    by (auto simp: create_keys_def createRequest_def createIdempotencyKey_def fresh_settings Let_def)
  obtain s5 a b where s5: "pollLoadBalancerReady ?e fresh_lb demo_service ''lb-1'' s4 = Some (Val (Inr ready_lb), s5)"
    and calls: "calls s5 = calls s4 @ [CNow a, CNow b, CGet ''lb-1'' (Inr (Some \<lparr>grr_LoadBalancer = Some ready_lb\<rparr>))]"
    using fresh_poll by blast
  have "create_keys s5 = create_keys s4" "set (calls s4) \<subseteq> set (calls s5)"
    by (auto simp: create_keys_def calls)
  moreover have "waitAndPublish ?e fresh_lb demo_service ''lb-1'' s4 =
      Some (Val (Inr (loadBalancerStatusFromResponse fresh_lb demo_service (Some ready_lb))), s5)"
    by (simp add: waitAndPublish_def go_bind_def s5 fresh_publish)
  then have "EnsureLoadBalancer ?e fresh_lb ''c'' demo_service [demo_node ''a'' ''10.0.0.2''] init_st =
      Some (Val (Inr (loadBalancerStatusFromResponse fresh_lb demo_service (Some ready_lb))), s5)"
    by (simp add: EnsureLoadBalancer_def fresh_settings go_bind_Some(1) [OF demo_listeners_built] demo_validated Let_def s4(1))
  ultimately show ?thesis using s4(2,3) by blast
qed

section \<open>Properties\<close>

text \<open>
  C9. Over the whole life of the controller, with calls for any Services in any order, stale copies,
  failing writes and restarts of the process: as long as nobody else writes the create count, every
  count the controller writes is between 1 and 3, every create carries the key of one of the attempts
  0 to 3 of its Service, and so the creates for a set of Services use at most four keys per Service.
\<close>

theorem create_attempts_bounded:
  assumes "only_writer e" "finite U" "life e (wired e c lb) U stored s"
  shows "(\<forall>w r. CSvcUpdate w r \<in> set (calls s) \<longrightarrow> count_annotation w \<in> {None, Some ''1'', Some ''2'', Some ''3''}) \<and>
    create_keys s \<subseteq> attempt_keys e U \<and> card (create_keys s) \<le> 4 * card U"
proof (intro conjI allI impI)
  have "{1..3} = {1, 2, 3 :: int}" by auto
  moreover have "itoa 1 = ''1''" "itoa 2 = ''2''" "itoa 3 = ''3''" by code_simp+
  ultimately have texts: "itoa ` {1..maxLoadBalancerCreateCount} = {''1'', ''2'', ''3''}"
    by (simp add: maxLoadBalancerCreateCount_def)
  note ok = wired.life_sane [OF assms(1,3), unfolded sane_def]
  show "count_annotation w \<in> {None, Some ''1'', Some ''2'', Some ''3''}" if "CSvcUpdate w r \<in> set (calls s)" for w r
    using bspec [OF ok that] by (cases "count_annotation w") (simp_all add: count_ok_def texts)
  have "cr_IdempotencyKey req \<in> attempt_keys e U" if "CCreate req r \<in> set (calls s)" for req r
    using bspec [OF ok that] by simp
  then show keys: "create_keys s \<subseteq> attempt_keys e U" by (auto simp: create_keys_def)
  show "card (create_keys s) \<le> 4 * card U"
    using card_mono [OF card_attempt_keys(1) keys] card_attempt_keys(2) assms(2) by (meson le_trans)
qed

theorem create_attempts_bounded_witness:
  "\<exists>r s'. EnsureLoadBalancer (live_env ready_lb) fresh_lb ''c'' demo_service [demo_node ''a'' ''10.0.0.2''] init_st = Some (r, s') \<and>
    create_keys s' = {''u-1''} \<and> create_keys s' \<subseteq> attempt_keys (live_env ready_lb) {''u-1''} \<and> card (create_keys s') \<le> 4"
proof -
  obtain r s' where run: "EnsureLoadBalancer (live_env ready_lb) fresh_lb ''c'' demo_service [demo_node ''a'' ''10.0.0.2''] init_st = Some (r, s')"
    "create_keys s' = {''u-1''}" using fresh_ensure by blast
  have "life (live_env ready_lb) fresh_lb {''u-1''} stored s'"
    by (rule life_ensure [OF life_start _ _ run(1)])
       (simp_all add: init_st_def fresh_settings stored_def, simp add: demo_service_def annots_def lb_keys)
  from create_attempts_bounded [OF fresh_only_writer _ this [unfolded fresh_lb_def]] run show ?thesis by auto
qed



end
