(* ===== verification/Spec2Isabelle.thy ===== *)
theory Spec2Isabelle
  imports Startup LB_Requests LB_Lifetime
begin

text \<open>
  A verification development for \<^verbatim>\<open>cloud-provider-kubevirt\<close>, the cloud controller manager of
  Kubernetes clusters whose nodes are KubeVirt virtual machines (the tenant cluster) in another
  cluster (the infra cluster).

  \<^bold>\<open>The program and its parts.\<close> The process (\<^verbatim>\<open>cmd/kubevirt-cloud-controller-manager\<close>) builds a
  \<^verbatim>\<open>Cloud\<close> object from a configuration file (\<^verbatim>\<open>pkg/provider/cloud.go\<close>). The Kubernetes framework
  asks this object for two interfaces. The load balancer interface
  (\<^verbatim>\<open>pkg/provider/loadbalancer.go\<close>) provisions a load balancer per Service through a gRPC API: it
  builds listeners from the Service and the nodes, creates, updates, polls and deletes the load
  balancer over a retrying client (\<^verbatim>\<open>pkg/rpc/loadbalancer/client.go\<close>), and keeps its memory in
  annotations of the Service (identifier, fingerprint of the listeners, number of creates) and in a
  map of retry counters. The instances interface (\<^verbatim>\<open>instances_v2.go\<close>, \<^verbatim>\<open>instances_getter.go\<close>)
  reports the machine behind a node. If enabled, the process also runs the endpoint slice
  controller (\<^verbatim>\<open>pkg/controller/kubevirteps\<close>), which watches Services and EndpointSlices in both
  clusters and maintains, in the infra cluster, slices with the addresses of the machines on which
  the tenant endpoints of a Service run.

  \<^bold>\<open>Modelling conventions\<close> (\<^verbatim>\<open>Go_Prelude\<close>, \<^verbatim>\<open>World\<close>). A Go function with effects is a state
  transformer \<^typ>\<open>('s, 'a) go\<close>: \<^term>\<open>None\<close> means that the call never returns, otherwise there is an
  outcome, a value or a panic, and a new state. Errors are values of \<^typ>\<open>goerror\<close> in a sum or option
  type, pointers that may be nil are options, durations and counters are integers with the 64-bit
  wrap-around written out where the code can overflow. Everything outside the program (gRPC server,
  API servers, clock, contexts, random numbers, hash functions, file system, YAML decoder) is a
  record of functions of the state, and every answer is appended to a history in the state, so that
  theorems can speak about the calls that were made and their order. Weakest preconditions (\<^const>\<open>wp\<close>),
  frame rules (\<^const>\<open>preserves\<close>) and invariant rules (\<^const>\<open>keeps\<close>) carry the proofs about effects. Log lines are left out. The calls of the
  load balancer interface run one at a time, as the framework serialises them for one Service. In the
  endpoint slice controller the goroutines interleave: an informer callback, a take from the queue, a
  reconcile, the handling of its result, a timer and every move of \<^verbatim>\<open>Run\<close> are separate labelled steps.

  \<^bold>\<open>Theories and the code they model.\<close>
  \<^item> \<^verbatim>\<open>Net_IP\<close>: \<^verbatim>\<open>isUsableNodeIP\<close> with the parser and the classification of addresses it calls;
    exactly which IPv4 addresses pass, and that no IPv6 link-local address does.
  \<^item> \<^verbatim>\<open>LB_Messages\<close>, \<^verbatim>\<open>Json\<close>, \<^verbatim>\<open>Listener_Hash\<close>: the messages of \<^verbatim>\<open>gen/loadbalancer.pb.go\<close>, the
    validation rules of the schema, the JSON encoding of listeners (injective) and its fingerprint.
  \<^item> \<^verbatim>\<open>Rpc_Client\<close>, \<^verbatim>\<open>Rpc_Dial\<close>: \<^verbatim>\<open>client.go\<close>: waiting for the connection, the retry loop, backoff,
    the seven methods and error texts; \<^verbatim>\<open>normalizeServerAddr\<close> and \<^verbatim>\<open>NewClient\<close> with the functions of
    the Go 1.24 standard library they use.
  \<^item> \<^verbatim>\<open>Provider_Config\<close>, \<^verbatim>\<open>LB_Identity\<close>, \<^verbatim>\<open>LB_Listeners\<close>: configuration records, effective settings
    of a Service, names and idempotency keys, listeners from Service and nodes and their merge with
    the listeners on the server.
  \<^item> \<^verbatim>\<open>LB_Requests\<close>: the rules of \<^verbatim>\<open>loadbalancer.proto\<close> for whole requests, and that the requests
    of the controller satisfy them.
  \<^item> \<^verbatim>\<open>LB_Provider\<close>, \<^verbatim>\<open>LB_Ensure\<close>: the operations of \<^verbatim>\<open>loadbalancer.go\<close> and their theorems. The
    locale of a client with the five methods is interpreted on the interface value that \<^verbatim>\<open>cloud.go\<close>
    stores; reachability under any sequence of calls gives the invariant of the counters.
  \<^item> \<^verbatim>\<open>LB_Lifetime\<close>: the life of the controller across calls and restarts, with the history of its
    writes as the source of the annotations it reads; what the create counter and the idempotency
    keys can become.
  \<^item> \<^verbatim>\<open>Instances\<close>: the instances interface; the two lookups are interpretations of one contract.
  \<^item> \<^verbatim>\<open>EPS_Model\<close>, \<^verbatim>\<open>EPS_Plan\<close>, \<^verbatim>\<open>EPS_Controller\<close>, \<^verbatim>\<open>EPS_Settle\<close>: slices, the set of endpoints and the
    tracker (with its contract as a locale); the plan of \<^verbatim>\<open>reconcileByAddressType\<close> as a function; the
    controller with callbacks, queue, worker and reconcile; the effect of the confirmed writes on the
    slices the API server stores.
  \<^item> \<^verbatim>\<open>EPS_Queue\<close>, \<^verbatim>\<open>EPS_Run\<close>: the work queue as a protocol of small steps, with a locale of what each
    kind of step must keep (interpreted for the retries and for the writes); \<^verbatim>\<open>Run\<close> with its deferred
    calls, the goroutines of its workers and the shutdown, as a labelled step relation, and the loop
    \<^verbatim>\<open>runWorker\<close> as the uninterrupted steps of one worker.
  \<^item> \<^verbatim>\<open>Cloud\<close>, \<^verbatim>\<open>Startup\<close>: the factory and the interfaces of the cloud object; the initializer, the
    start of the endpoint slice controller and \<^verbatim>\<open>main\<close>, which compose the parts above.

  \<^bold>\<open>What is shown.\<close> For the load balancer: which changes one call may make on the server and in
  the counters, that a reported status was observed ready in the same call, that a nil result of the
  deletion means the load balancer is gone, that change detection is exact and independent of the
  order of nodes, that the requests it sends satisfy the rules of the schema (creates exactly when the
  effective tenant, network and subnet look like UUIDs), that polling and the paged
  lookup end, how failing calls lead to a rebuild, where the retry and recreate logic gets stuck, that
  over the whole life of the controller the creates of a Service use at most four idempotency keys,
  and that only two are left when the create count cannot be stored; for the client, how often each
  status is retried and when the backoff overflows. For the endpoint slice controller:
  the plan distributes the desired endpoints over the slices, each once; carrying it out settles the
  store, so that the next reconcile writes nothing (a refinement of the plan by the calls); a
  reconcile touches only slices of its Service. For every interleaving of any number of workers with
  callbacks, timers and the shutdown: retries are bounded, no request is handled twice at once,
  nothing is written before the caches have synced or without a listing, and after \<^verbatim>\<open>Run\<close> has returned
  the workers end and leave the queue empty. And three defects, among them the index out of range when a Service moves. For the composition: the
  retry budget of the configured client, the nil client inside a non-nil interface, and that the
  endpoint slice controller works on the cluster of the provider.

  \<^bold>\<open>Loops and bounds.\<close> Loops over slices are structural recursion. Loops without a bound in the code
  (the readiness poll, the paged listing, the wait for the connection, the worker) are partial
  functions in the option monad, with theorems on when they return; the retry loop counts down from
  its configured maximum, and writing an annotation makes at most the five attempts of
  \<^verbatim>\<open>retry.DefaultRetry\<close>. No fuel is used anywhere. The goroutines of \<^verbatim>\<open>Run\<close> are a step relation, and
  their end is shown by a weight that every step of a worker lowers after the shutdown.

  \<^bold>\<open>Assumptions of single theorems\<close> are in their statements: clocks that advance while waiting,
  absence of hash collisions on the two inputs at hand, page tokens that lead to a last page, an API
  server that stores a created slice as sent under a fresh name, nobody but the controller writing the
  create count of a Service.

  \<^bold>\<open>Not modelled.\<close> The generated gRPC stubs and the reflection code of the messages, which only
  forward to libraries; the registration of the provider and of the API types in \<^verbatim>\<open>init\<close>; the
  internals of the informers (a callback may come at any time after their start) and interleavings
  inside a reconcile; the options, flags and leader election of the framework, which never closes the
  stop channel because \<^verbatim>\<open>main\<close> passes \<^verbatim>\<open>wait.NeverStop\<close>; the wire format, TLS and the content of log
  lines; the messages and rules of RPCs that are never called.
\<close>

end
